(* ===== verification/Prelude.thy ===== *)
theory Prelude
  imports Main "HOL-Library.Word"
begin

text \<open>
  Shared vocabulary of the development: names for the machine types of the Go sources, results
  of fallible calls as sums with their composition, the few string functions of the Go standard
  library the sources call, and the generic facts on lists and decimal numerals that several
  components need.

  Identifiers (Go \<open>int64\<close> snowflakes) are only ever compared, so they are \<open>int\<close>. An instant or
  a duration is an \<open>int\<close> number of nanoseconds; where the code multiplies durations the 64-bit
  wrap-around is written out with \<open>wrap64\<close>.
\<close>

section \<open>Names of types\<close>

type_synonym id = int
type_synonym time = int
type_synonym dur = int
type_synonym byte = "8 word"

abbreviation Second :: dur where "Second \<equiv> 1000000000"
abbreviation Millisecond :: dur where "Millisecond \<equiv> 1000000"
abbreviation Minute :: dur where "Minute \<equiv> 60000000000"

named_theorems result_simps \<open>unfolding of the composition of fallible calls\<close>
named_theorems go_string \<open>facts on the Go string functions\<close>

section \<open>Fallible calls\<close>

text \<open>\<open>Inl e\<close> is a non-nil error, \<open>Inr x\<close> a value with a nil error. \<open>bindE\<close> is the ubiquitous
  \<open>if err != nil { return ..., err }\<close>.\<close>

definition bindE :: "'e + 'a \<Rightarrow> ('a \<Rightarrow> 'e + 'b) \<Rightarrow> 'e + 'b" where
  "bindE r f = (case r of Inl e \<Rightarrow> Inl e | Inr x \<Rightarrow> f x)"

definition isOk :: "'e + 'a \<Rightarrow> bool" where
  "isOk r = (case r of Inl _ \<Rightarrow> False | Inr _ \<Rightarrow> True)"

section \<open>JSON payloads\<close>

text \<open>Stored bytes, read back with \<open>json.Unmarshal\<close> into the struct type they were written from:
  \<open>Json x\<close> are the bytes \<open>json.Marshal\<close> makes of \<open>x\<close>, \<open>NotJson\<close> any bytes that do not decode.\<close>

datatype 'a json = Json 'a | NotJson

definition Unmarshal :: "'a json \<Rightarrow> 'a option" where
  "Unmarshal b = (case b of Json x \<Rightarrow> Some x | NotJson \<Rightarrow> None)"

lemma Unmarshal_simps [simp]: "Unmarshal (Json x) = Some x" "Unmarshal NotJson = None"
  by (simp_all add: Unmarshal_def)

section \<open>64-bit arithmetic\<close>

text \<open>The value of a Go \<open>int64\<close> expression whose mathematical value is \<open>x\<close>.\<close>

definition wrap64 :: "int \<Rightarrow> int" where
  "wrap64 x = signed_take_bit 63 x"

section \<open>Strings\<close>

definition HasPrefix :: "string \<Rightarrow> string \<Rightarrow> bool" where
  "HasPrefix s p = (take (length p) s = p)"

definition HasSuffix :: "string \<Rightarrow> string \<Rightarrow> bool" where
  "HasSuffix s p = (length p \<le> length s \<and> drop (length s - length p) s = p)"

fun Contains :: "string \<Rightarrow> string \<Rightarrow> bool" where
  "Contains [] p = (p = [])"
| "Contains (c # s) p = (HasPrefix (c # s) p \<or> Contains s p)"

text \<open>\<open>strconv.FormatInt(x, 10)\<close> and the verb \<open>%d\<close>.\<close>

definition digit_char :: "nat \<Rightarrow> char" where
  "digit_char d = char_of (48 + d)"

fun nat_dec :: "nat \<Rightarrow> string" where
  "nat_dec n = (if n < 10 then [digit_char n] else nat_dec (n div 10) @ [digit_char (n mod 10)])"

declare nat_dec.simps [simp del]

definition FormatInt :: "int \<Rightarrow> string" where
  "FormatInt i = (if i < 0 then CHR ''-'' # nat_dec (nat (- i)) else nat_dec (nat i))"

text \<open>The value a decimal numeral denotes, the left inverse of \<open>nat_dec\<close>.\<close>

definition dec_value :: "string \<Rightarrow> nat" where
  "dec_value s = foldl (\<lambda>a c. a * 10 + (of_char c - 48)) 0 s"

section \<open>Facts\<close>

lemma bindE_Inl [simp, result_simps]: "bindE (Inl e) f = Inl e"
  by (simp add: bindE_def)

lemma bindE_Inr [simp, result_simps]: "bindE (Inr x) f = f x"
  by (simp add: bindE_def)

lemma bindE_eq_Inr [result_simps]:
  "(bindE r f = Inr y) \<longleftrightarrow> (\<exists>x. r = Inr x \<and> f x = Inr y)"
  by (cases r) simp_all

lemma bindE_eq_Inl [result_simps]:
  "(bindE r f = Inl e) \<longleftrightarrow> (r = Inl e \<or> (\<exists>x. r = Inr x \<and> f x = Inl e))"
  by (cases r) simp_all

lemma isOk_simps [simp]: "isOk (Inl e) = False" "isOk (Inr x) = True"
  by (simp_all add: isOk_def)

lemma isOk_fst: "isOk (fst p) \<Longrightarrow> \<exists>x. p = (Inr x, snd p)"
  by (cases p; cases "fst p") auto

lemma wrap64_id: "- (2 ^ 63) \<le> x \<Longrightarrow> x < 2 ^ 63 \<Longrightarrow> wrap64 x = x"
  by (simp add: wrap64_def signed_take_bit_int_eq_self)

lemma HasPrefix_iff: "HasPrefix s p \<longleftrightarrow> (\<exists>r. s = p @ r)"
proof
  assume "HasPrefix s p"
  then have "s = p @ drop (length p) s"
    by (metis HasPrefix_def append_take_drop_id)
  then show "\<exists>r. s = p @ r" by blast
qed (auto simp: HasPrefix_def)

lemma HasSuffix_iff: "HasSuffix s p \<longleftrightarrow> (\<exists>r. s = r @ p)"
proof
  assume h: "HasSuffix s p"
  then have "s = take (length s - length p) s @ p"
    by (metis HasSuffix_def append_take_drop_id)
  then show "\<exists>r. s = r @ p" by blast
qed (auto simp: HasSuffix_def)

lemma HasPrefix_refl [simp, go_string]: "HasPrefix s s"
  by (simp add: HasPrefix_def)

lemma HasPrefix_append [simp, go_string]: "HasPrefix (p @ s) p"
  by (simp add: HasPrefix_def)

lemma Contains_iff: "Contains s p \<longleftrightarrow> (\<exists>l r. s = l @ p @ r)"
proof (induction s)
  case Nil
  then show ?case by auto
next
  case (Cons c s)
  have "(\<exists>l r. c # s = l @ p @ r) \<longleftrightarrow> (\<exists>r. c # s = p @ r) \<or> (\<exists>l r. s = l @ p @ r)"
    by (metis append_Cons append_Nil append_eq_Cons_conv)
  then show ?case using Cons by (simp add: HasPrefix_iff)
qed

lemma distinct_filter_eq_one: "distinct xs \<Longrightarrow> x \<in> set xs \<Longrightarrow> filter (\<lambda>y. y = x) xs = [x]"
  by (induction xs) (auto simp: filter_empty_conv)

text \<open>Two texts split at the first occurrence of a separator have equal parts.\<close>

lemma split_at_separator:
  "xs @ c # ys = xs' @ c # ys' \<Longrightarrow> c \<notin> set xs \<Longrightarrow> c \<notin> set xs' \<Longrightarrow> xs = xs' \<and> ys = ys'"
proof (induction xs arbitrary: xs')
  case Nil
  then show ?case by (cases xs') auto
next
  case (Cons x xs)
  then show ?case by (cases xs') auto
qed

lemma of_char_digit: "d < 10 \<Longrightarrow> of_char (digit_char d) = 48 + d"
  by (simp add: digit_char_def)

lemma dec_value_snoc: "dec_value (s @ [c]) = dec_value s * 10 + (of_char c - 48)"
  by (simp add: dec_value_def)

lemma dec_value_nat_dec [simp]: "dec_value (nat_dec n) = n"
proof (induction n rule: nat_dec.induct)
  case (1 n)
  show ?case
  proof (cases "n < 10")
    case True
    then have "nat_dec n = [digit_char n]" by (subst nat_dec.simps) simp
    with True show ?thesis by (simp add: dec_value_def of_char_digit)
  next
    case False
    then have "nat_dec n = nat_dec (n div 10) @ [digit_char (n mod 10)]"
      by (subst nat_dec.simps) simp
    with False 1 show ?thesis by (simp add: dec_value_snoc of_char_digit)
  qed
qed

lemma nat_dec_inject [simp]: "nat_dec m = nat_dec n \<longleftrightarrow> m = n"
  by (metis dec_value_nat_dec)

text \<open>Decimal numerals computed on \<open>int\<close>, the form evaluation uses.\<close>

function int_dec :: "int \<Rightarrow> string" where
  "int_dec i = (if i < 10 then [''0123456789'' ! nat i] else int_dec (i div 10) @ [''0123456789'' ! nat (i mod 10)])"
  by pat_completeness auto
termination by (relation "measure nat") auto

declare int_dec.simps [simp del]

lemma digit_char_table: "d < 10 \<Longrightarrow> digit_char d = ''0123456789'' ! d"
proof -
  have "map digit_char [0..<10] = ''0123456789''" by code_simp
  moreover assume "d < 10"
  ultimately show ?thesis using nth_map [of d "[0..<10]" digit_char] by simp
qed

lemma int_dec_nat_dec: "0 \<le> i \<Longrightarrow> int_dec i = nat_dec (nat i)"
proof (induction i rule: int_dec.induct)
  case (1 i)
  show ?case
  proof (cases "i < 10")
    case True
    then have n: "nat i < 10" by simp
    then have "nat_dec (nat i) = [digit_char (nat i)]" by (subst nat_dec.simps) (simp only: if_True)
    moreover have "int_dec i = [''0123456789'' ! nat i]" using True by (subst int_dec.simps) simp
    moreover note n
    ultimately show ?thesis by (simp only: digit_char_table)
  next
    case False
    then have "\<not> nat i < 10" by simp
    then have "nat_dec (nat i) = nat_dec (nat i div 10) @ [digit_char (nat i mod 10)]"
      by (subst nat_dec.simps) (simp only: if_False)
    then have "nat_dec (nat i) = nat_dec (nat (i div 10)) @ [digit_char (nat (i mod 10))]"
      using "1.prems" by (simp add: nat_div_distrib nat_mod_distrib)
    moreover have "int_dec i = int_dec (i div 10) @ [''0123456789'' ! nat (i mod 10)]"
      using False by (subst int_dec.simps) simp
    moreover have "nat (i mod 10) < 10" by simp
    ultimately show ?thesis using False 1 by (simp only: digit_char_table) simp
  qed
qed

lemma FormatInt_code [code]: "FormatInt i = (if i < 0 then CHR ''-'' # int_dec (- i) else int_dec i)"
  by (simp add: FormatInt_def int_dec_nat_dec)

lemma nat_dec_chars: "c \<in> set (nat_dec n) \<Longrightarrow> \<exists>d < 10. c = digit_char d"
proof (induction n rule: nat_dec.induct)
  case (1 n)
  show ?case
  proof (cases "n < 10")
    case True
    then have "nat_dec n = [digit_char n]" by (subst nat_dec.simps) simp
    with True 1(2) show ?thesis by auto
  next
    case False
    then have "nat_dec n = nat_dec (n div 10) @ [digit_char (n mod 10)]"
      by (subst nat_dec.simps) simp
    with 1(2) have "c \<in> set (nat_dec (n div 10)) \<or> c = digit_char (n mod 10)" by auto
    moreover have "n mod 10 < 10" by simp
    ultimately show ?thesis using False 1(1) by blast
  qed
qed

lemma digit_char_code: "d < 10 \<Longrightarrow> c = digit_char d \<Longrightarrow> 48 \<le> (of_char c :: nat) \<and> (of_char c :: nat) < 58"
  by (simp add: of_char_digit)

lemma nat_dec_not_special: "(of_char c :: nat) < 48 \<or> 58 \<le> (of_char c :: nat) \<Longrightarrow> c \<notin> set (nat_dec n)"
  using nat_dec_chars digit_char_code by (metis not_less)

lemma FormatInt_no_colon [simp]: "CHR '':'' \<notin> set (FormatInt i)"
  by (simp add: FormatInt_def nat_dec_not_special)

lemma minus_notin_nat_dec: "CHR ''-'' \<notin> set (nat_dec n)"
  by (simp add: nat_dec_not_special)

lemma FormatInt_inject [simp]: "FormatInt i = FormatInt j \<longleftrightarrow> i = j"
proof
  assume h: "FormatInt i = FormatInt j"
  have "i < 0 \<longleftrightarrow> j < 0"
    using h minus_notin_nat_dec by (auto simp: FormatInt_def split: if_splits) (metis list.set_intros(1))+
  with h show "i = j" by (auto simp: FormatInt_def split: if_splits)
qed simp

end
