(* ===== verification/Casbin.thy ===== *)
theory Casbin
  imports Prelude
begin

text \<open>
  The role catalogue of the permission engine (\<open>pkg/authz/casbin.go\<close>): how the grants of the
  role tables are turned into rules of a Casbin enforcer, and the question "does role R hold
  permission P in tenant T" put to it.

  The enforcer is the third-party Casbin library. It is a parameter \<open>lib\<close> of the model, and what
  the code relies on, the meaning of its RBAC-with-domains model text, is the hypothesis
  \<open>casbin_rbac\<close>.
\<close>

section \<open>The Casbin library\<close>

record 'e casbin_lib =
  newEnforcer :: "string \<Rightarrow> unit + 'e"
  addGrouping :: "'e \<Rightarrow> string \<Rightarrow> string \<Rightarrow> string \<Rightarrow> unit + 'e"
  addPolicy :: "'e \<Rightarrow> string \<Rightarrow> string \<Rightarrow> string \<Rightarrow> unit + 'e"
  savePolicy :: "'e \<Rightarrow> unit + unit"
  enforce :: "'e \<Rightarrow> string \<Rightarrow> string \<Rightarrow> string \<Rightarrow> unit + bool"

text \<open>The model text handed to the library, as written in the source.\<close>

definition CasbinModel :: string where
  "CasbinModel = concat (map (\<lambda>l. l @ [CHR 0x0A])
    ['''',
     ''[request_definition]'', ''r = sub, dom, obj'', '''',
     ''[policy_definition]'', ''p = sub, dom, obj'', '''',
     ''[role_definition]'', ''g = _, _, _'', '''',
     ''[policy_effect]'', ''e = some(where (p.eft == allow))'', '''',
     ''[matchers]'',
     ''m = g(r.sub, p.sub, r.dom) && r.dom == p.dom && (r.obj == p.obj || p.obj == \"*\")''])"

text \<open>The links a set of \<open>g\<close> rules creates inside one domain.\<close>

definition g_links :: "(string \<times> string \<times> string) set \<Rightarrow> string \<Rightarrow> (string \<times> string) set" where
  "g_links G d = {(a, b). (a, b, d) \<in> G}"

text \<open>
  Documented behaviour of an enforcer built from \<open>CasbinModel\<close>: it starts without rules, adding a
  rule adds exactly that rule, and a request is allowed when some \<open>p\<close> rule of its domain names a
  subject the requester is linked to and either the requested object or the wildcard. Whether a
  subject counts as linked to itself without a \<open>g\<close> rule is left open.
\<close>

definition casbin_rbac ::
  "'e casbin_lib \<Rightarrow> ('e \<Rightarrow> (string \<times> string \<times> string) set) \<Rightarrow> ('e \<Rightarrow> (string \<times> string \<times> string) set) \<Rightarrow> bool"
where
  "casbin_rbac lib grp pol \<longleftrightarrow>
     (\<forall>e. newEnforcer lib CasbinModel = Inr e \<longrightarrow> grp e = {} \<and> pol e = {}) \<and>
     (\<forall>e a b d e'. addGrouping lib e a b d = Inr e' \<longrightarrow>
        grp e' = insert (a, b, d) (grp e) \<and> pol e' = pol e) \<and>
     (\<forall>e s d v e'. addPolicy lib e s d v = Inr e' \<longrightarrow>
        pol e' = insert (s, d, v) (pol e) \<and> grp e' = grp e) \<and>
     (\<forall>e s d v. enforce lib e s d v = Inr True \<longrightarrow>
        (\<exists>s' v'. (s', d, v') \<in> pol e \<and> (s, s') \<in> (g_links (grp e) d)\<^sup>* \<and> (v = v' \<or> v' = ''*''))) \<and>
     (\<forall>e s d v. enforce lib e s d v = Inr False \<longrightarrow>
        \<not> (\<exists>s' v'. (s', d, v') \<in> pol e \<and> (s, s') \<in> (g_links (grp e) d)\<^sup>+ \<and> (v = v' \<or> v' = ''*'')))"

section \<open>The engine\<close>

text \<open>\<open>RolePolicy\<close>, one role-to-permission grant within a tenant.\<close>

record role_policy =
  rp_TenantID :: id
  rp_RoleID :: id
  rp_Permission :: string

text \<open>\<open>CasbinEngine\<close>: the live enforcer, whether an adapter is attached, and the rule set last
  written through it.\<close>

record 'e casbin_engine =
  ce_e :: "'e option"
  ce_adapter :: bool
  ce_saved :: "'e option"

datatype casbin_error =
    ParseModel | AddSelfEdge | AddCasbinPolicy | AddSuperSelfEdge | AddSuperPolicy
  | PersistPolicies | LoadPoliciesErr

definition roleSubject :: "id \<Rightarrow> string" where
  "roleSubject roleID = ''role:'' @ FormatInt roleID"

definition superAdminRole :: string where
  "superAdminRole = ''role:super_admin''"

definition tenantDomain :: "id \<Rightarrow> string" where
  "tenantDomain tenantID = ''t:'' @ FormatInt tenantID"

text \<open>\<open>newSyncedEnforcer\<close>, used by \<open>NewCasbinEngine\<close> and repeated in \<open>ReplacePolicies\<close>.\<close>

definition newSyncedEnforcer :: "'e casbin_lib \<Rightarrow> casbin_error + 'e" where
  "newSyncedEnforcer lib =
     (case newEnforcer lib CasbinModel of Inl _ \<Rightarrow> Inl ParseModel | Inr e \<Rightarrow> Inr e)"

definition NewCasbinEngine :: "'e casbin_lib \<Rightarrow> casbin_error + 'e casbin_engine" where
  "NewCasbinEngine lib =
     bindE (newSyncedEnforcer lib) (\<lambda>e. Inr \<lparr>ce_e = Some e, ce_adapter = False, ce_saved = None\<rparr>)"

text \<open>The closure \<open>addSelf\<close> of \<open>ReplacePolicies\<close>: \<open>selfEdge\<close> holds the keys already added.\<close>

definition addSelf ::
  "'e casbin_lib \<Rightarrow> 'e \<times> string set \<Rightarrow> string \<Rightarrow> string \<Rightarrow> unit + ('e \<times> string set)" where
  "addSelf lib st sub dm =
     (let k = sub @ CHR 0x00 # dm in
      if k \<in> snd st then Inr st
      else case addGrouping lib (fst st) sub sub dm of
             Inl err \<Rightarrow> Inl err
           | Inr e \<Rightarrow> Inr (e, insert k (snd st)))"

fun addRolePolicies ::
  "'e casbin_lib \<Rightarrow> 'e \<times> string set \<Rightarrow> role_policy list \<Rightarrow> casbin_error + ('e \<times> string set)" where
  "addRolePolicies lib st [] = Inr st"
| "addRolePolicies lib st (p # ps) =
     (if rp_Permission p = [] then addRolePolicies lib st ps
      else
        let dm = tenantDomain (rp_TenantID p); sub = roleSubject (rp_RoleID p) in
        case addSelf lib st sub dm of
          Inl _ \<Rightarrow> Inl AddSelfEdge
        | Inr st1 \<Rightarrow>
            (case addPolicy lib (fst st1) sub dm (rp_Permission p) of
               Inl _ \<Rightarrow> Inl AddCasbinPolicy
             | Inr e \<Rightarrow> addRolePolicies lib (e, snd st1) ps))"

fun addSuperTenants ::
  "'e casbin_lib \<Rightarrow> 'e \<times> string set \<Rightarrow> id list \<Rightarrow> casbin_error + ('e \<times> string set)" where
  "addSuperTenants lib st [] = Inr st"
| "addSuperTenants lib st (tid # ts) =
     (let dm = tenantDomain tid in
      case addSelf lib st superAdminRole dm of
        Inl _ \<Rightarrow> Inl AddSuperSelfEdge
      | Inr st1 \<Rightarrow>
          (case addPolicy lib (fst st1) superAdminRole dm ''*'' of
             Inl _ \<Rightarrow> Inl AddSuperPolicy
           | Inr e \<Rightarrow> addSuperTenants lib (e, snd st1) ts))"

text \<open>The error (if any) and the engine afterwards: a failed rebuild leaves the live enforcer.\<close>

definition ReplacePolicies ::
  "'e casbin_lib \<Rightarrow> 'e casbin_engine \<Rightarrow> role_policy list \<Rightarrow> id list \<Rightarrow> casbin_error option \<times> 'e casbin_engine"
where
  "ReplacePolicies lib c policies superAdminTenants =
     (case bindE (newSyncedEnforcer lib) (\<lambda>e.
             bindE (addRolePolicies lib (e, {}) policies) (\<lambda>st.
               addSuperTenants lib st superAdminTenants)) of
        Inl err \<Rightarrow> (Some err, c)
      | Inr (e, _) \<Rightarrow>
          (if ce_adapter c then
             (case savePolicy lib e of
                Inl _ \<Rightarrow> (Some PersistPolicies, c)
              | Inr _ \<Rightarrow> (None, c\<lparr>ce_e := Some e, ce_saved := Some e\<rparr>))
           else (None, c\<lparr>ce_e := Some e\<rparr>)))"

definition RoleHasPermission ::
  "'e casbin_lib \<Rightarrow> 'e casbin_engine \<Rightarrow> id \<Rightarrow> string \<Rightarrow> string \<Rightarrow> bool" where
  "RoleHasPermission lib c tenantID roleSub perm =
     (case ce_e c of
        None \<Rightarrow> False
      | Some e \<Rightarrow>
          (case enforce lib e roleSub (tenantDomain tenantID) perm of
             Inl _ \<Rightarrow> False
           | Inr ok \<Rightarrow> ok))"

text \<open>\<open>Sync\<close>: rebuild from a loader, whose outcome is the argument.\<close>

definition Sync ::
  "'e casbin_lib \<Rightarrow> 'e casbin_engine \<Rightarrow> unit + (role_policy list \<times> id list) \<Rightarrow> casbin_error option \<times> 'e casbin_engine"
where
  "Sync lib c loaded =
     (case loaded of
        Inl _ \<Rightarrow> (Some LoadPoliciesErr, c)
      | Inr (policies, superTenants) \<Rightarrow> ReplacePolicies lib c policies superTenants)"

section \<open>Subjects and domains\<close>

lemma roleSubject_inject [simp]: "roleSubject a = roleSubject b \<longleftrightarrow> a = b"
  by (simp add: roleSubject_def)

lemma tenantDomain_inject [simp]: "tenantDomain a = tenantDomain b \<longleftrightarrow> a = b"
  by (simp add: tenantDomain_def)

lemma FormatInt_not_special:
  "(of_char c :: nat) < 45 \<or> 58 \<le> (of_char c :: nat) \<Longrightarrow> c \<notin> set (FormatInt i)"
  by (auto simp: FormatInt_def nat_dec_not_special)

lemma FormatInt_not_super: "FormatInt i \<noteq> ''super_admin''"
proof
  assume h: "FormatInt i = ''super_admin''"
  have "CHR ''s'' \<notin> set (FormatInt i)" by (rule FormatInt_not_special) simp
  with h show False by simp
qed

lemma roleSubject_not_super [simp]: "roleSubject r \<noteq> superAdminRole" "superAdminRole \<noteq> roleSubject r"
  using FormatInt_not_super by (auto simp: roleSubject_def superAdminRole_def) metis

section \<open>The rules a rebuild installs\<close>

definition rule_of :: "role_policy \<Rightarrow> string \<times> string \<times> string" where
  "rule_of p = (roleSubject (rp_RoleID p), tenantDomain (rp_TenantID p), rp_Permission p)"

definition super_rule :: "id \<Rightarrow> string \<times> string \<times> string" where
  "super_rule t = (superAdminRole, tenantDomain t, ''*'')"

text \<open>Invariant of the rebuild: only self links exist, every rule's subject has its self link in
  its domain, and the key set describes exactly the links added.\<close>

definition self_linked ::
  "(string \<times> string \<times> string) set \<Rightarrow> (string \<times> string \<times> string) set \<Rightarrow> string set \<Rightarrow> bool" where
  "self_linked G P ks \<longleftrightarrow>
     (\<forall>a b d. (a, b, d) \<in> G \<longrightarrow> a = b) \<and>
     (\<forall>s d v. (s, d, v) \<in> P \<longrightarrow> (s, s, d) \<in> G) \<and>
     (\<forall>s d. CHR 0x00 \<notin> set s \<longrightarrow> (s @ CHR 0x00 # d) \<in> ks \<longrightarrow> (s, s, d) \<in> G)"


lemma subjects_no_nul [simp]:
  "CHR 0x00 \<notin> set (roleSubject r)" "CHR 0x00 \<notin> set superAdminRole"
  by (auto simp: roleSubject_def superAdminRole_def FormatInt_not_special)

lemma casbin_rbac_new:
  "casbin_rbac lib grp pol \<Longrightarrow> newEnforcer lib CasbinModel = Inr e \<Longrightarrow> grp e = {} \<and> pol e = {}"
  by (simp add: casbin_rbac_def)

lemma casbin_rbac_grouping:
  "casbin_rbac lib grp pol \<Longrightarrow> addGrouping lib e a b d = Inr e' \<Longrightarrow>
     grp e' = insert (a, b, d) (grp e) \<and> pol e' = pol e"
  by (simp add: casbin_rbac_def)

lemma casbin_rbac_policy:
  "casbin_rbac lib grp pol \<Longrightarrow> addPolicy lib e s d v = Inr e' \<Longrightarrow>
     pol e' = insert (s, d, v) (pol e) \<and> grp e' = grp e"
  by (simp add: casbin_rbac_def)

lemma casbin_rbac_allow:
  "casbin_rbac lib grp pol \<Longrightarrow> enforce lib e s d v = Inr True \<Longrightarrow>
     \<exists>s' v'. (s', d, v') \<in> pol e \<and> (s, s') \<in> (g_links (grp e) d)\<^sup>* \<and> (v = v' \<or> v' = ''*'')"
  by (simp add: casbin_rbac_def)

lemma casbin_rbac_deny:
  "casbin_rbac lib grp pol \<Longrightarrow> enforce lib e s d v = Inr False \<Longrightarrow>
     (s', d, v') \<in> pol e \<Longrightarrow> (s, s') \<in> (g_links (grp e) d)\<^sup>+ \<Longrightarrow> \<not> (v = v' \<or> v' = ''*'')"
  unfolding casbin_rbac_def by blast

lemma addSelf_ok:
  assumes rb: "casbin_rbac lib grp pol"
    and ok: "addSelf lib (e, ks) s d = Inr (e', ks')"
    and inv: "self_linked (grp e) (pol e) ks" and nul: "CHR 0x00 \<notin> set s"
  shows "self_linked (grp e') (pol e') ks' \<and> pol e' = pol e \<and> (s, s, d) \<in> grp e'"
proof (cases "s @ CHR 0x00 # d \<in> ks")
  case True
  with ok inv nul show ?thesis by (auto simp: addSelf_def self_linked_def)
next
  case False
  with ok have g: "addGrouping lib e s s d = Inr e'" and k: "ks' = insert (s @ CHR 0x00 # d) ks"
    by (auto simp: addSelf_def Let_def split: sum.splits)
  from casbin_rbac_grouping [OF rb g]
  have G: "grp e' = insert (s, s, d) (grp e)" and P: "pol e' = pol e" by blast+
  have "(s', s', d') \<in> grp e'" if "CHR 0x00 \<notin> set s'" "s' @ CHR 0x00 # d' \<in> ks'" for s' d'
    using that inv nul split_at_separator [of s' "CHR 0x00" d' s d]
    by (auto simp: G k self_linked_def)
  then show ?thesis using inv by (auto simp: self_linked_def G P)
qed

lemma addPolicy_ok:
  assumes rb: "casbin_rbac lib grp pol" and ok: "addPolicy lib e s d v = Inr e'"
    and inv: "self_linked (grp e) (pol e) ks" and link: "(s, s, d) \<in> grp e"
  shows "self_linked (grp e') (pol e') ks \<and> pol e' = insert (s, d, v) (pol e)"
proof -
  from casbin_rbac_policy [OF rb ok] inv link show ?thesis by (auto simp: self_linked_def)
qed

lemma addRolePolicies_ok:
  assumes rb: "casbin_rbac lib grp pol"
  shows "addRolePolicies lib (e, ks) ps = Inr (e', ks') \<Longrightarrow> self_linked (grp e) (pol e) ks \<Longrightarrow>
    self_linked (grp e') (pol e') ks' \<and>
    pol e' = pol e \<union> rule_of ` {p \<in> set ps. rp_Permission p \<noteq> []}"
proof (induction ps arbitrary: e ks)
  case Nil
  then show ?case by simp
next
  case (Cons p ps)
  show ?case
  proof (cases "rp_Permission p = []")
    case True
    then have "{q \<in> set (p # ps). rp_Permission q \<noteq> []} = {q \<in> set ps. rp_Permission q \<noteq> []}"
      by auto
    moreover have "addRolePolicies lib (e, ks) ps = Inr (e', ks')" using True Cons.prems(1) by simp
    ultimately show ?thesis using Cons.IH [OF _ Cons.prems(2)] by metis
  next
    case False
    let ?s = "roleSubject (rp_RoleID p)" and ?d = "tenantDomain (rp_TenantID p)"
    from False Cons.prems(1) obtain e1 ks1 e2 where
      s: "addSelf lib (e, ks) ?s ?d = Inr (e1, ks1)" and
      a: "addPolicy lib e1 ?s ?d (rp_Permission p) = Inr e2" and
      r: "addRolePolicies lib (e2, ks1) ps = Inr (e', ks')"
      by (auto simp: Let_def split: sum.splits)
    have 1: "self_linked (grp e1) (pol e1) ks1 \<and> pol e1 = pol e \<and> (?s, ?s, ?d) \<in> grp e1"
      by (rule addSelf_ok [OF rb s Cons.prems(2)]) simp
    have 2: "self_linked (grp e2) (pol e2) ks1 \<and> pol e2 = insert (rule_of p) (pol e)"
      using addPolicy_ok [OF rb a] 1 unfolding rule_of_def by metis
    have 3: "{q \<in> set (p # ps). rp_Permission q \<noteq> []} = insert p {q \<in> set ps. rp_Permission q \<noteq> []}"
      using False by auto
    from Cons.IH [OF r] 2 have "self_linked (grp e') (pol e') ks'"
      and "pol e' = pol e2 \<union> rule_of ` {q \<in> set ps. rp_Permission q \<noteq> []}" by blast+
    with 2 show ?thesis unfolding 3 by simp
  qed
qed

lemma addSuperTenants_ok:
  assumes rb: "casbin_rbac lib grp pol"
  shows "addSuperTenants lib (e, ks) ts = Inr (e', ks') \<Longrightarrow> self_linked (grp e) (pol e) ks \<Longrightarrow>
    self_linked (grp e') (pol e') ks' \<and> pol e' = pol e \<union> super_rule ` set ts"
proof (induction ts arbitrary: e ks)
  case Nil
  then show ?case by simp
next
  case (Cons t ts)
  let ?d = "tenantDomain t"
  from Cons.prems(1) obtain e1 ks1 e2 where
    s: "addSelf lib (e, ks) superAdminRole ?d = Inr (e1, ks1)" and
    a: "addPolicy lib e1 superAdminRole ?d ''*'' = Inr e2" and
    r: "addSuperTenants lib (e2, ks1) ts = Inr (e', ks')"
    by (auto simp: Let_def split: sum.splits)
  have 1: "self_linked (grp e1) (pol e1) ks1 \<and> pol e1 = pol e \<and>
      (superAdminRole, superAdminRole, ?d) \<in> grp e1"
    by (rule addSelf_ok [OF rb s Cons.prems(2)]) simp
  have 2: "self_linked (grp e2) (pol e2) ks1 \<and> pol e2 = insert (super_rule t) (pol e)"
    using addPolicy_ok [OF rb a] 1 unfolding super_rule_def by metis
  have 3: "super_rule ` set (t # ts) = insert (super_rule t) (super_rule ` set ts)" by simp
  from Cons.IH [OF r] 2 have "self_linked (grp e') (pol e') ks'"
    and "pol e' = pol e2 \<union> super_rule ` set ts" by blast+
  with 2 show ?case unfolding 3 by simp
qed

text \<open>With self links only, an enforcer answers by looking its rule set up.\<close>

lemma enforce_self_linked:
  assumes rb: "casbin_rbac lib grp pol" and inv: "self_linked (grp e) (pol e) ks"
    and r: "enforce lib e s d v = Inr b"
  shows "b \<longleftrightarrow> (s, d, v) \<in> pol e \<or> (s, d, ''*'') \<in> pol e"
proof -
  have "g_links (grp e) d \<subseteq> Id" using inv by (auto simp: g_links_def self_linked_def)
  then have "(g_links (grp e) d)\<^sup>* \<subseteq> Id\<^sup>*" by (rule rtrancl_mono)
  also have "(Id :: (string \<times> string) set)\<^sup>* = Id" by (auto elim: rtrancl_induct)
  finally have "(g_links (grp e) d)\<^sup>* \<subseteq> Id" .
  then have only: "(x, y) \<in> (g_links (grp e) d)\<^sup>* \<Longrightarrow> x = y" for x y by blast
  have self: "(s', d, v') \<in> pol e \<Longrightarrow> (s', s') \<in> (g_links (grp e) d)\<^sup>+" for s' v'
    using inv unfolding g_links_def self_linked_def by (intro r_into_trancl) blast
  show ?thesis
  proof (cases b)
    case True
    with casbin_rbac_allow [OF rb, of e s d v] r obtain s' v' where
      "(s', d, v') \<in> pol e" "(s, s') \<in> (g_links (grp e) d)\<^sup>*" "v = v' \<or> v' = ''*''" by auto
    with True only show ?thesis by metis
  next
    case False
    with r have deny: "(s, d, v') \<in> pol e \<Longrightarrow> \<not> (v = v' \<or> v' = ''*'')" for v'
      using casbin_rbac_deny [OF rb] self by metis
    with False show ?thesis by blast
  qed
qed

text \<open>What a successful rebuild makes the engine answer.\<close>

lemma ReplacePolicies_answers:
  assumes rb: "casbin_rbac lib grp pol"
    and tot: "\<forall>e s d v. isOk (enforce lib e s d v)"
    and ok: "ReplacePolicies lib c policies ts = (None, c')"
  shows "RoleHasPermission lib c' t sub perm \<longleftrightarrow>
    (\<exists>v. (v = perm \<or> v = ''*'') \<and>
      (sub, tenantDomain t, v) \<in> rule_of ` {p \<in> set policies. rp_Permission p \<noteq> []} \<union> super_rule ` set ts)"
proof -
  from ok obtain e0 e1 ks1 e2 ks2 where
    n: "newEnforcer lib CasbinModel = Inr e0" and
    a: "addRolePolicies lib (e0, {}) policies = Inr (e1, ks1)" and
    s: "addSuperTenants lib (e1, ks1) ts = Inr (e2, ks2)" and
    e: "ce_e c' = Some e2"
    by (auto simp: ReplacePolicies_def newSyncedEnforcer_def bindE_eq_Inr bindE_eq_Inl
        split: sum.splits if_splits prod.splits)
  from casbin_rbac_new [OF rb n] have "grp e0 = {}" "pol e0 = {}" by blast+
  then have "self_linked (grp e0) (pol e0) {}" by (simp add: self_linked_def)
  from addRolePolicies_ok [OF rb a this] addSuperTenants_ok [OF rb s] \<open>pol e0 = {}\<close>
  have inv: "self_linked (grp e2) (pol e2) ks2" and
    P: "pol e2 = rule_of ` {p \<in> set policies. rp_Permission p \<noteq> []} \<union> super_rule ` set ts"
    by auto
  from tot obtain b where b: "enforce lib e2 sub (tenantDomain t) perm = Inr b"
    by (metis isOk_simps(1) sumE)
  with e have "RoleHasPermission lib c' t sub perm = b" by (simp add: RoleHasPermission_def)
  with enforce_self_linked [OF rb inv b] P show ?thesis by auto
qed

text \<open>The same answer split by the two kinds of subject.\<close>

lemma ReplacePolicies_role:
  assumes "casbin_rbac lib grp pol" "\<forall>e s d v. isOk (enforce lib e s d v)"
    "ReplacePolicies lib c policies ts = (None, c')" and "perm \<noteq> []"
  shows "RoleHasPermission lib c' t (roleSubject r) perm \<longleftrightarrow>
    (\<exists>p \<in> set policies. rp_TenantID p = t \<and> rp_RoleID p = r \<and> rp_Permission p \<in> {perm, ''*''})"
  using assms(4) unfolding ReplacePolicies_answers [OF assms(1-3)]
  by (fastforce simp: rule_of_def super_rule_def image_iff)

lemma ReplacePolicies_super:
  assumes "casbin_rbac lib grp pol" "\<forall>e s d v. isOk (enforce lib e s d v)"
    "ReplacePolicies lib c policies ts = (None, c')"
  shows "RoleHasPermission lib c' t superAdminRole perm \<longleftrightarrow> t \<in> set ts"
  unfolding ReplacePolicies_answers [OF assms]
  by (auto simp: rule_of_def super_rule_def image_iff)

lemma ReplacePolicies_failed: "ReplacePolicies lib c policies ts = (Some err, c') \<Longrightarrow> c' = c"
  by (auto simp: ReplacePolicies_def split: sum.splits if_splits prod.splits)

section \<open>An enforcer with the documented behaviour\<close>

text \<open>Rule lists with self links, for concrete runs: the hypothesis \<open>casbin_rbac\<close> is satisfiable.\<close>

type_synonym list_enforcer = "(string \<times> string \<times> string) list \<times> (string \<times> string \<times> string) list"

definition list_casbin :: "list_enforcer casbin_lib" where
  "list_casbin = \<lparr>
     newEnforcer = (\<lambda>_. Inr ([], [])),
     addGrouping = (\<lambda>e a b d. Inr ((a, b, d) # fst e, snd e)),
     addPolicy = (\<lambda>e s d v. Inr (fst e, (s, d, v) # snd e)),
     savePolicy = (\<lambda>_. Inr ()),
     enforce = (\<lambda>e s d v. Inr (\<exists>(s', d', v') \<in> set (snd e). d' = d \<and> (v' = v \<or> v' = ''*'') \<and>
        (s, s') \<in> (set (map (\<lambda>(a, b, _). (a, b)) (filter (\<lambda>(_, _, d'). d' = d) (fst e))))\<^sup>+))\<rparr>"

lemma list_casbin_rbac: "casbin_rbac list_casbin (\<lambda>e. set (fst e)) (\<lambda>e. set (snd e))"
proof -
  have L: "set (map (\<lambda>(a, b, _). (a, b)) (filter (\<lambda>(_, _, d'). d' = d) gs)) = g_links (set gs) d" for gs d
    by (force simp: g_links_def)
  have E: "enforce list_casbin e s d v = Inr (\<exists>(s', d', v') \<in> set (snd e). d' = d \<and>
      (v' = v \<or> v' = ''*'') \<and> (s, s') \<in> (g_links (set (fst e)) d)\<^sup>+)" for e s d v
    by (simp add: list_casbin_def L del: set_map set_filter)
  show ?thesis
    unfolding casbin_rbac_def E
    by (intro conjI allI impI; force simp: list_casbin_def dest: trancl_into_rtrancl)
qed

lemma list_casbin_total: "\<forall>e s d v. isOk (enforce list_casbin e s d v)"
  by (simp add: list_casbin_def)

end
