(* ===== verification/Authz.thy ===== *)
theory Authz
  imports Casbin
begin

text \<open>
  The permission decision (\<open>pkg/authz/types.go\<close>, \<open>pkg/authz/service.go\<close>): given the effective
  bindings of a user, may they use a permission on a target. The two interfaces the engine
  consumes are arguments: the binding provider and the org ancestry check. The contract of the
  latter is the locale \<open>org_ancestry\<close>, which the org component discharges.
\<close>

section \<open>Types\<close>

text \<open>\<open>ScopeKind\<close> is a string type in the source; a stored value may be any string.\<close>

type_synonym scope_kind = string

abbreviation (input) ScopeGlobal :: scope_kind where "ScopeGlobal \<equiv> ''''"
abbreviation (input) ScopeOrg :: scope_kind where "ScopeOrg \<equiv> ''org''"
abbreviation (input) ScopeGroup :: scope_kind where "ScopeGroup \<equiv> ''group''"

record scope_target =
  st_Kind :: scope_kind
  st_ID :: id

definition TargetOrg :: "id \<Rightarrow> scope_target option" where
  "TargetOrg i = Some \<lparr>st_Kind = ScopeOrg, st_ID = i\<rparr>"

definition TargetGroup :: "id \<Rightarrow> scope_target option" where
  "TargetGroup i = Some \<lparr>st_Kind = ScopeGroup, st_ID = i\<rparr>"

record effective_binding =
  eb_RoleID :: id
  eb_Permissions :: "string set"
  eb_Source :: string
  eb_SourceID :: id
  eb_ScopeType :: scope_kind
  eb_ScopeID :: id
  eb_ExpiresAt :: "time option"

datatype authz_error =
    EmptyPermission | ProviderMissing | LoadBindings | OrgAncestryMissing | OrgLookup

type_synonym binding_provider = "id \<Rightarrow> id \<Rightarrow> unit + effective_binding list"
type_synonym org_ancestry_fn = "id \<Rightarrow> id \<Rightarrow> unit + bool"

text \<open>\<open>Service\<close>: every collaborator may be nil.\<close>

record 'e authz_service =
  as_bindings :: "binding_provider option"
  as_orgTree :: "org_ancestry_fn option"
  as_casbin :: "'e casbin_engine option"

section \<open>The decision\<close>

definition hasPermission :: "string set \<Rightarrow> string \<Rightarrow> bool" where
  "hasPermission ps perm = (if ''*'' \<in> ps then True else perm \<in> ps)"

definition bindingRoleSubject :: "effective_binding \<Rightarrow> string" where
  "bindingRoleSubject b =
     (if eb_RoleID b = 0 \<and> ''*'' \<in> eb_Permissions b then superAdminRole
      else roleSubject (eb_RoleID b))"

definition bindingGrantsPerm ::
  "'e casbin_lib \<Rightarrow> 'e authz_service \<Rightarrow> id \<Rightarrow> effective_binding \<Rightarrow> string \<Rightarrow> bool" where
  "bindingGrantsPerm lib s tenantID b perm =
     (case as_casbin s of
        None \<Rightarrow> hasPermission (eb_Permissions b) perm
      | Some c \<Rightarrow> RoleHasPermission lib c tenantID (bindingRoleSubject b) perm)"

definition scopeCovers ::
  "'e authz_service \<Rightarrow> effective_binding \<Rightarrow> scope_target option \<Rightarrow> authz_error + bool" where
  "scopeCovers s b target =
     (if eb_ScopeType b = ScopeGlobal then Inr True
      else case target of
        None \<Rightarrow> Inr True
      | Some t \<Rightarrow>
          (if eb_ScopeType b = ScopeOrg then
             (if st_Kind t \<noteq> ScopeOrg then Inr False
              else case as_orgTree s of
                None \<Rightarrow> Inl OrgAncestryMissing
              | Some f \<Rightarrow> (case f (eb_ScopeID b) (st_ID t) of Inl _ \<Rightarrow> Inl OrgLookup | Inr r \<Rightarrow> Inr r))
           else if eb_ScopeType b = ScopeGroup then
             (if st_Kind t \<noteq> ScopeGroup then Inr False else Inr (eb_ScopeID b = st_ID t))
           else Inr False))"

text \<open>\<open>b.ExpiresAt != nil && b.ExpiresAt.Before(now)\<close>\<close>

definition bindingExpired :: "time \<Rightarrow> effective_binding \<Rightarrow> bool" where
  "bindingExpired now b = (case eb_ExpiresAt b of None \<Rightarrow> False | Some e \<Rightarrow> e < now)"

text \<open>The loop of \<open>Check\<close>.\<close>

fun checkLoop ::
  "'e casbin_lib \<Rightarrow> 'e authz_service \<Rightarrow> time \<Rightarrow> id \<Rightarrow> string \<Rightarrow> scope_target option \<Rightarrow>
   effective_binding list \<Rightarrow> bool" where
  "checkLoop lib s now tenantID perm target [] = False"
| "checkLoop lib s now tenantID perm target (b # bs) =
     (if bindingExpired now b then checkLoop lib s now tenantID perm target bs
      else if \<not> bindingGrantsPerm lib s tenantID b perm
        then checkLoop lib s now tenantID perm target bs
      else case scopeCovers s b target of
        Inl _ \<Rightarrow> checkLoop lib s now tenantID perm target bs
      | Inr ok \<Rightarrow> if ok then True else checkLoop lib s now tenantID perm target bs)"

definition Check ::
  "'e casbin_lib \<Rightarrow> 'e authz_service \<Rightarrow> time \<Rightarrow> id \<Rightarrow> id \<Rightarrow> string \<Rightarrow> scope_target option \<Rightarrow>
   authz_error + bool" where
  "Check lib s now tenantID userID perm target =
     (if perm = [] then Inl EmptyPermission
      else case as_bindings s of
        None \<Rightarrow> Inl ProviderMissing
      | Some p \<Rightarrow>
          (case p tenantID userID of
             Inl _ \<Rightarrow> Inl LoadBindings
           | Inr binds \<Rightarrow> Inr (checkLoop lib s now tenantID perm target binds)))"

text \<open>\<open>PermissionsForUser\<close> and \<open>EffectiveBindings\<close> call the provider unconditionally.\<close>

definition PermissionsForUser ::
  "binding_provider \<Rightarrow> id \<Rightarrow> id \<Rightarrow> unit + string set" where
  "PermissionsForUser p tenantID userID =
     bindE (p tenantID userID) (\<lambda>binds. Inr (\<Union>b \<in> set binds. eb_Permissions b))"

definition EffectiveBindings ::
  "binding_provider \<Rightarrow> id \<Rightarrow> id \<Rightarrow> unit + effective_binding list" where
  "EffectiveBindings p tenantID userID = p tenantID userID"

section \<open>What the decision is\<close>

text \<open>A binding that allows: live, granting the permission, and covering the target.\<close>

definition binding_allows ::
  "'e casbin_lib \<Rightarrow> 'e authz_service \<Rightarrow> time \<Rightarrow> id \<Rightarrow> string \<Rightarrow> scope_target option \<Rightarrow> effective_binding \<Rightarrow> bool"
where
  "binding_allows lib s now tenantID perm target b \<longleftrightarrow>
     \<not> bindingExpired now b \<and> bindingGrantsPerm lib s tenantID b perm \<and> scopeCovers s b target = Inr True"

lemma checkLoop_iff:
  "checkLoop lib s now t perm tgt bs \<longleftrightarrow> (\<exists>b \<in> set bs. binding_allows lib s now t perm tgt b)"
  by (induction bs) (auto simp: binding_allows_def split: sum.splits)

lemma Check_ok_iff:
  "Check lib s now t u perm tgt = Inr r \<longleftrightarrow>
     perm \<noteq> [] \<and> (\<exists>p binds. as_bindings s = Some p \<and> p t u = Inr binds \<and>
       r = (\<exists>b \<in> set binds. binding_allows lib s now t perm tgt b))"
  by (auto simp: Check_def checkLoop_iff split: option.splits sum.splits)

lemma Check_True_iff:
  "Check lib s now t u perm tgt = Inr True \<longleftrightarrow>
     perm \<noteq> [] \<and> (\<exists>p binds b. as_bindings s = Some p \<and> p t u = Inr binds \<and> b \<in> set binds \<and>
       binding_allows lib s now t perm tgt b)"
  by (auto simp: Check_ok_iff)

lemma bindingExpired_iff:
  "\<not> bindingExpired now b \<longleftrightarrow> (eb_ExpiresAt b = None \<or> (\<exists>e. eb_ExpiresAt b = Some e \<and> now \<le> e))"
  by (auto simp: bindingExpired_def split: option.splits)

lemma scopeCovers_iff:
  "scopeCovers s b target = Inr True \<longleftrightarrow>
     (eb_ScopeType b = ScopeGlobal \<or> target = None \<or>
      (\<exists>t. target = Some t \<and> eb_ScopeType b = ScopeOrg \<and> st_Kind t = ScopeOrg \<and>
         (\<exists>f. as_orgTree s = Some f \<and> f (eb_ScopeID b) (st_ID t) = Inr True)) \<or>
      (\<exists>t. target = Some t \<and> eb_ScopeType b = ScopeGroup \<and> st_Kind t = ScopeGroup \<and>
         eb_ScopeID b = st_ID t))"
  by (auto simp: scopeCovers_def split: option.splits sum.splits)


section \<open>The contract of the org ancestry check\<close>

text \<open>
  What the engine relies on when a binding is scoped to an org: the check does not fail, and
  "ancestor or self" is reflexive and transitive.
\<close>

locale org_ancestry =
  fixes anc :: "id \<Rightarrow> id \<Rightarrow> unit + bool"
  assumes anc_total: "isOk (anc a d)"
    and anc_refl: "anc a a = Inr True"
    and anc_trans: "anc a b = Inr True \<Longrightarrow> anc b d = Inr True \<Longrightarrow> anc a d = Inr True"
begin

text \<open>A binding that covers an org covers every org below it.\<close>

lemma covers_descendants:
  assumes "as_orgTree s = Some anc" and "scopeCovers s b (TargetOrg a) = Inr True"
    and "anc a d = Inr True"
  shows "scopeCovers s b (TargetOrg d) = Inr True"
  using assms anc_trans [of "eb_ScopeID b" a d]
  by (auto simp: scopeCovers_def TargetOrg_def split: if_splits sum.splits)

text \<open>So a permission held on an org is held on every org below it.\<close>

lemma check_descends:
  assumes tree: "as_orgTree s = Some anc"
    and ok: "Check lib s now t u perm (TargetOrg a) = Inr True" and below: "anc a d = Inr True"
  shows "Check lib s now t u perm (TargetOrg d) = Inr True"
proof -
  have "binding_allows lib s now t perm (TargetOrg d) b"
    if "binding_allows lib s now t perm (TargetOrg a) b" for b
    using that covers_descendants [OF tree _ below] by (auto simp: binding_allows_def)
  with ok show ?thesis by (auto simp: Check_ok_iff)
qed

text \<open>A scoped check never ends in the engine's own error path.\<close>

lemma covers_total: "as_orgTree s = Some anc \<Longrightarrow> isOk (scopeCovers s b tgt)"
  using anc_total [of "eb_ScopeID b" "st_ID (the tgt)"]
  by (auto simp: scopeCovers_def split: option.splits sum.splits)

end

end
