(* ===== verification/TenantScope.thy ===== *)
theory TenantScope
  imports Prelude
begin

text \<open>
  Tenant isolation at the data layer (\<open>pkg/tenantscope\<close>): the scope a request context carries,
  and the gorm plugin that pins every query, update and delete of a tenant-scoped model to that
  scope and stamps it on inserts. A Go context is modelled by the scope stored in it, \<open>None\<close> when
  none was ever stamped. A model type is described by what the plugin asks of it: whether it
  carries the marker and the column, how to read and write the tenant column of a row, whether the
  column is nullable, and its custom predicate if it has one.
\<close>

section \<open>The scope in the context\<close>

record scope =
  sc_TenantID :: id
  sc_CrossTenant :: bool
  sc_System :: bool

type_synonym ctx = "scope option"

definition zeroScope :: scope where
  "zeroScope = \<lparr>sc_TenantID = 0, sc_CrossTenant = False, sc_System = False\<rparr>"

definition With :: "ctx \<Rightarrow> scope \<Rightarrow> ctx" where
  "With c s = Some s"

definition From :: "ctx \<Rightarrow> scope \<times> bool" where
  "From c = (case c of None \<Rightarrow> (zeroScope, False) | Some s \<Rightarrow> (s, True))"

definition WithTenant :: "ctx \<Rightarrow> id \<Rightarrow> ctx" where
  "WithTenant c tenantID = With c (zeroScope\<lparr>sc_TenantID := tenantID\<rparr>)"

definition WithCrossTenant :: "ctx \<Rightarrow> ctx" where
  "WithCrossTenant c = With c ((fst (From c))\<lparr>sc_CrossTenant := True\<rparr>)"

definition SystemContext :: ctx where
  "SystemContext = With None (zeroScope\<lparr>sc_System := True\<rparr>)"

definition WithSystem :: "ctx \<Rightarrow> ctx" where
  "WithSystem c = With c ((fst (From c))\<lparr>sc_System := True\<rparr>)"

section \<open>The plugin\<close>

text \<open>The tenant column of a row is \<open>None\<close> for SQL NULL.\<close>

record 'r tenant_model =
  tm_scoped :: bool
  tm_get :: "'r \<Rightarrow> id option"
  tm_set :: "id \<Rightarrow> 'r \<Rightarrow> 'r"
  tm_nullable :: bool
  tm_custom :: "(id \<Rightarrow> id option \<Rightarrow> bool) option"

text \<open>\<open>App.TenantScopePredicate\<close> and \<open>Setting.TenantScopePredicate\<close>, on the column's value.\<close>

definition appTenantScopePredicate :: "id \<Rightarrow> id option \<Rightarrow> bool" where
  "appTenantScopePredicate t c = (c = Some t \<or> c = None)"

definition settingTenantScopePredicate :: "id \<Rightarrow> id option \<Rightarrow> bool" where
  "settingTenantScopePredicate t c = (c = Some t \<or> c = Some 0)"

text \<open>The condition \<open>filter\<close> adds to a statement: nothing, a predicate, or the fail-closed error.\<close>

datatype tenant_clause = Unfiltered | ErrNoTenantScope | Pinned "id option \<Rightarrow> bool"

definition tenant_filter :: "'r tenant_model \<Rightarrow> ctx \<Rightarrow> tenant_clause" where
  "tenant_filter m c =
     (if \<not> tm_scoped m then Unfiltered
      else case From c of (s, ok) \<Rightarrow>
        if ok \<and> (sc_System s \<or> sc_CrossTenant s) then Unfiltered
        else if \<not> ok \<or> sc_TenantID s \<le> 0 then ErrNoTenantScope
        else (case tm_custom m of
                Some p \<Rightarrow> Pinned (p (sc_TenantID s))
              | None \<Rightarrow> Pinned (\<lambda>col. col = Some (sc_TenantID s))))"

text \<open>The rows a filtered statement works on.\<close>

definition scoped_rows :: "'r tenant_model \<Rightarrow> ctx \<Rightarrow> 'r list \<Rightarrow> unit + 'r list" where
  "scoped_rows m c rows =
     (case tenant_filter m c of
        Unfiltered \<Rightarrow> Inr rows
      | ErrNoTenantScope \<Rightarrow> Inl ()
      | Pinned p \<Rightarrow> Inr (filter (\<lambda>r. p (tm_get m r)) rows))"

text \<open>An update of the rows a filtered statement matches, and a delete of them.\<close>

definition scoped_update ::
  "'r tenant_model \<Rightarrow> ctx \<Rightarrow> ('r \<Rightarrow> bool) \<Rightarrow> ('r \<Rightarrow> 'r) \<Rightarrow> 'r list \<Rightarrow> unit + 'r list" where
  "scoped_update m c w f rows =
     (case tenant_filter m c of
        Unfiltered \<Rightarrow> Inr (map (\<lambda>r. if w r then f r else r) rows)
      | ErrNoTenantScope \<Rightarrow> Inl ()
      | Pinned p \<Rightarrow> Inr (map (\<lambda>r. if w r \<and> p (tm_get m r) then f r else r) rows))"

definition scoped_delete ::
  "'r tenant_model \<Rightarrow> ctx \<Rightarrow> ('r \<Rightarrow> bool) \<Rightarrow> 'r list \<Rightarrow> unit + 'r list" where
  "scoped_delete m c w rows =
     (case tenant_filter m c of
        Unfiltered \<Rightarrow> Inr (filter (\<lambda>r. \<not> w r) rows)
      | ErrNoTenantScope \<Rightarrow> Inl ()
      | Pinned p \<Rightarrow> Inr (filter (\<lambda>r. \<not> (w r \<and> p (tm_get m r))) rows))"

definition stampOne :: "'r tenant_model \<Rightarrow> id \<Rightarrow> 'r \<Rightarrow> 'r" where
  "stampOne m t r = (if tm_get m r = Some 0 then tm_set m t r else r)"

definition stampValue :: "'r tenant_model \<Rightarrow> id \<Rightarrow> 'r list \<Rightarrow> 'r list" where
  "stampValue m t = map (stampOne m t)"

definition stamp :: "'r tenant_model \<Rightarrow> ctx \<Rightarrow> 'r list \<Rightarrow> 'r list" where
  "stamp m c rows =
     (if \<not> tm_scoped m then rows
      else case From c of (s, ok) \<Rightarrow>
        if \<not> ok \<or> sc_System s \<or> sc_CrossTenant s \<or> sc_TenantID s \<le> 0 then rows
        else if tm_nullable m then rows
        else stampValue m (sc_TenantID s) rows)"

section \<open>Facts\<close>

text \<open>A context pinned to one tenant with no escape.\<close>

definition pinned_to :: "ctx \<Rightarrow> id \<Rightarrow> bool" where
  "pinned_to c t \<longleftrightarrow> 0 < t \<and> (\<exists>s. c = Some s \<and> sc_TenantID s = t \<and> \<not> sc_CrossTenant s \<and> \<not> sc_System s)"

lemma pinned_to_WithTenant [simp]: "pinned_to (WithTenant c t) t' \<longleftrightarrow> t = t' \<and> 0 < t"
  by (auto simp: pinned_to_def WithTenant_def With_def zeroScope_def)

lemma tenant_filter_pinned:
  "pinned_to c t \<Longrightarrow> tm_scoped m \<Longrightarrow>
     tenant_filter m c = Pinned (case tm_custom m of Some p \<Rightarrow> p t | None \<Rightarrow> (\<lambda>col. col = Some t))"
  by (auto simp: pinned_to_def tenant_filter_def From_def split: option.splits)

lemma tenant_filter_unfiltered_iff:
  "tenant_filter m c = Unfiltered \<longleftrightarrow>
     \<not> tm_scoped m \<or> (\<exists>s. c = Some s \<and> (sc_System s \<or> sc_CrossTenant s))"
  by (auto simp: tenant_filter_def From_def split: option.splits)

lemma scoped_rows_pinned:
  "pinned_to c t \<Longrightarrow> tm_scoped m \<Longrightarrow> tm_custom m = None \<Longrightarrow>
     scoped_rows m c rows = Inr (filter (\<lambda>r. tm_get m r = Some t) rows)"
  by (simp add: scoped_rows_def tenant_filter_pinned)




lemma stamp_keeps_explicit:
  "tm_get m r \<noteq> Some 0 \<Longrightarrow> stamp m c [r] = [r]"
  by (auto simp: stamp_def stampValue_def stampOne_def From_def split: option.splits)

lemma stamp_pinned:
  "pinned_to c t \<Longrightarrow> tm_scoped m \<Longrightarrow> \<not> tm_nullable m \<Longrightarrow> stamp m c rows = stampValue m t rows"
  by (auto simp: stamp_def pinned_to_def From_def)

end
