(* ===== verification/Sql.thy ===== *)
theory Sql
  imports Prelude
begin

text \<open>
  What the sources use of SQL and of the database driver's errors: the error sentinels of
  \<open>pkg/dberr\<close>, the \<open>LIKE\<close> matcher with \<open>pkg/dberr/like.go\<close>'s escaping, the \<open>ltree\<close> ancestor
  operator, and the two overloads of \<open>SUBSTRING(s FROM x)\<close>. A table is a list of rows; the
  primary-key lookup is \<open>find\<close>.
\<close>

section \<open>Driver errors\<close>

text \<open>\<open>RecordNotFound\<close> is gorm's sentinel, \<open>PgError code constraint\<close> the server's error,
  \<open>DriverErr msg\<close> any other error with its message.\<close>

datatype db_error = RecordNotFound | PgError string string | DriverErr string

definition IsNotFound :: "db_error \<Rightarrow> bool" where
  "IsNotFound e = (e = RecordNotFound)"

definition errorMessage :: "db_error \<Rightarrow> string" where
  "errorMessage e = (case e of RecordNotFound \<Rightarrow> ''record not found'' | PgError _ n \<Rightarrow> n | DriverErr m \<Rightarrow> m)"

definition IsUniqueViolation :: "db_error option \<Rightarrow> bool" where
  "IsUniqueViolation err =
     (case err of
        None \<Rightarrow> False
      | Some (PgError code _) \<Rightarrow> code = ''23505''
      | Some e \<Rightarrow> Contains (errorMessage e) ''UNIQUE constraint failed'')"

definition IsUniqueViolationOn :: "db_error option \<Rightarrow> string list \<Rightarrow> bool" where
  "IsUniqueViolationOn err names =
     (if \<not> IsUniqueViolation err then False
      else if names = [] then True
      else case err of
        None \<Rightarrow> False
      | Some (PgError _ c) \<Rightarrow> list_ex (\<lambda>n. c = n) names
      | Some e \<Rightarrow> list_ex (\<lambda>n. Contains (errorMessage e) n) names)"

section \<open>LIKE\<close>

abbreviation (input) esc :: char where "esc \<equiv> CHR 0x5C"

text \<open>\<open>sql_like p s\<close>: the text \<open>s\<close> matches the pattern \<open>p\<close>, with backslash as the escape.\<close>

fun sql_like :: "string \<Rightarrow> string \<Rightarrow> bool" where
  "sql_like [] s = (s = [])"
| "sql_like (c # p) [] = (c = CHR ''%'' \<and> sql_like p [])"
| "sql_like (c # p) (x # s) =
     (if c = CHR ''%'' then sql_like p (x # s) \<or> sql_like (c # p) s
      else if c = CHR ''_'' then sql_like p s
      else if c = esc then (case p of [] \<Rightarrow> False | e # p' \<Rightarrow> e = x \<and> sql_like p' s)
      else c = x \<and> sql_like p s)"

definition EscapeLike :: "string \<Rightarrow> string" where
  "EscapeLike s = concat (map (\<lambda>c. if c = esc \<or> c = CHR ''%'' \<or> c = CHR ''_'' then [esc, c] else [c]) s)"

lemma EscapeLike_simps [simp]:
  "EscapeLike [] = []"
  "EscapeLike (c # s) =
     (if c = esc \<or> c = CHR ''%'' \<or> c = CHR ''_'' then esc # c # EscapeLike s else c # EscapeLike s)"
  by (simp_all add: EscapeLike_def)

lemma sql_like_escaped: "sql_like (EscapeLike v @ p) s \<longleftrightarrow> (\<exists>r. s = v @ r \<and> sql_like p r)"
proof (induction v arbitrary: s)
  case Nil
  then show ?case by simp
next
  case (Cons c v)
  then show ?case by (cases s) auto
qed

lemma sql_like_any: "sql_like [CHR ''%''] s"
  by (induction s) auto

lemma sql_like_percent: "sql_like (CHR ''%'' # p) s \<longleftrightarrow> (\<exists>l r. s = l @ r \<and> sql_like p r)"
proof (induction s)
  case Nil
  then show ?case by auto
next
  case (Cons x s)
  have "(\<exists>l r. x # s = l @ r \<and> sql_like p r) \<longleftrightarrow> sql_like p (x # s) \<or> (\<exists>l r. s = l @ r \<and> sql_like p r)"
    by (metis append_Cons append_Nil append_eq_Cons_conv)
  with Cons show ?case by simp
qed

text \<open>
  \<open>EscapeLike\<close> neutralises the wildcards. A search pattern built from an escaped value matches
  literally: alone it matches the value only, followed by a percent sign the texts that begin with
  it, after one the texts that end with it, and between two the texts that contain it, whatever
  characters the value has.
\<close>

lemma EscapeLike_literal:
  "sql_like (EscapeLike v) s \<longleftrightarrow> s = v"
  "sql_like (EscapeLike v @ ''%'') s \<longleftrightarrow> HasPrefix s v"
  "sql_like (''%'' @ EscapeLike v) s \<longleftrightarrow> HasSuffix s v"
  "sql_like (''%'' @ EscapeLike v @ ''%'') s \<longleftrightarrow> Contains s v"
  using sql_like_escaped [of v "[]"] sql_like_escaped [of v "''%''"]
  by (auto simp: HasPrefix_iff HasSuffix_iff Contains_iff sql_like_any sql_like_percent)

section \<open>ltree paths\<close>

text \<open>The labels of a path, and \<open>d <@ a\<close>: \<open>a\<close>'s labels are a prefix of \<open>d\<close>'s.\<close>

fun labels_from :: "string \<Rightarrow> string \<Rightarrow> string list" where
  "labels_from acc [] = [acc]"
| "labels_from acc (c # s) =
     (if c = CHR ''.'' then acc # labels_from [] s else labels_from (acc @ [c]) s)"

definition ltree_labels :: "string \<Rightarrow> string list" where
  "ltree_labels s = (if s = [] then [] else labels_from [] s)"

definition ltree_below :: "string \<Rightarrow> string \<Rightarrow> bool" where
  "ltree_below d a = (take (length (ltree_labels a)) (ltree_labels d) = ltree_labels a)"

lemma labels_from_plain: "CHR ''.'' \<notin> set l \<Longrightarrow> labels_from acc l = [acc @ l]"
  by (induction l arbitrary: acc) auto

lemma labels_from_dot:
  "labels_from acc (p @ CHR ''.'' # q) = labels_from acc p @ labels_from [] q"
  by (induction p arbitrary: acc) auto

lemma labels_from_not_Nil [simp]: "labels_from acc p \<noteq> []"
  by (induction p arbitrary: acc) auto

text \<open>The path of a child extends the labels of its parent by the child's code.\<close>

lemma ltree_labels_child:
  "p \<noteq> [] \<Longrightarrow> l \<noteq> [] \<Longrightarrow> CHR ''.'' \<notin> set l \<Longrightarrow> ltree_labels (p @ ''.'' @ l) = ltree_labels p @ [l]"
  by (simp add: ltree_labels_def labels_from_dot labels_from_plain)

lemma ltree_labels_root: "l \<noteq> [] \<Longrightarrow> CHR ''.'' \<notin> set l \<Longrightarrow> ltree_labels l = [l]"
  by (simp add: ltree_labels_def labels_from_plain)

lemma ltree_below_iff: "ltree_below d a \<longleftrightarrow> (\<exists>q. ltree_labels d = ltree_labels a @ q)"
  by (metis append_eq_conv_conj append_take_drop_id ltree_below_def)

lemma ltree_below_refl [simp]: "ltree_below p p"
  by (simp add: ltree_below_iff)

lemma ltree_below_trans: "ltree_below d b \<Longrightarrow> ltree_below b a \<Longrightarrow> ltree_below d a"
  by (auto simp: ltree_below_iff)

section \<open>SUBSTRING\<close>

text \<open>
  \<open>SUBSTRING(s FROM x)\<close> is overloaded. With an integer \<open>x\<close> it is the suffix that starts at the
  1-based position \<open>x\<close>; with a text \<open>x\<close> it is the first match of the POSIX pattern \<open>x\<close> in \<open>s\<close>, NULL
  when there is none, and a pattern of decimal digits matches itself only. Which of the two a
  statement gets is decided by the type the server gives its argument.
\<close>

datatype substring_overload = ByPosition | ByPattern

definition sql_substring :: "substring_overload \<Rightarrow> string \<Rightarrow> nat \<Rightarrow> string option" where
  "sql_substring ov s k =
     (case ov of
        ByPosition \<Rightarrow> Some (drop (k - 1) s)
      | ByPattern \<Rightarrow> if Contains s (nat_dec k) then Some (nat_dec k) else None)"

end
