(* ===== verification/Org.thy ===== *)
theory Org
  imports Authz TenantScope Sql
begin

text \<open>
  Organizations (\<open>internal/domain/org\<close>): the tree of departments stored as rows with a parent
  pointer and a materialised \<open>ltree\<close> path, the service's operations over the tenant-scoped
  repository, and the path-based ancestor check the permission engine calls. A database call may
  fail: \<open>flt\<close> says with which error, per call and row id. New ids and the creation time are
  arguments. The columns no operation reads (\<open>extra\<close>, the audit stamps) are left out.
\<close>

section \<open>Rows, events and errors\<close>

record organization =
  org_ID :: id
  org_TenantID :: id
  org_Name :: string
  org_Code :: string
  org_ParentID :: "id option"
  org_Path :: string
  org_SortOrder :: int
  org_Status :: int
  org_DeletedAt :: "time option"

record user_org =
  uo_ID :: id
  uo_UserID :: id
  uo_OrgID :: id
  uo_IsPrimary :: bool
  uo_CreatedAt :: time

datatype org_event =
    OrgCreated organization | OrgUpdated organization | OrgDeleted id | OrgMoved id id
  | OrgMemberAdded id id id | OrgMemberRemoved id id id

record org_state =
  os_orgs :: "organization list"
  os_members :: "user_org list"
  os_events :: "org_event list"

datatype org_error =
    ErrRootOrgDelete | ErrOrgHasChildren | ErrOrgCycle | ErrOrgNotFound | ErrParentOrgNotFound
  | ErrUserNotInTenant | ErrInvalidOrgCode | ErrOrgCodeExists | ErrNoUserValidator
  | ErrValidateUser | ErrMemberNotFound | ErrOrgDb db_error

type_synonym org_faults = "string \<Rightarrow> id \<Rightarrow> db_error option"

definition no_faults :: org_faults where
  "no_faults = (\<lambda>_ _. None)"

record create_org_request =
  co_Name :: string
  co_Code :: string
  co_ParentID :: "id option"
  co_SortOrder :: int

record update_org_request =
  uor_Name :: string
  uor_SortOrder :: int
  uor_Status :: int

definition orgModel :: "organization tenant_model" where
  "orgModel = \<lparr>tm_scoped = True, tm_get = (\<lambda>o'. Some (org_TenantID o')),
     tm_set = (\<lambda>t o'. o'\<lparr>org_TenantID := t\<rparr>), tm_nullable = False, tm_custom = None\<rparr>"

text \<open>\<open>flt\<close> in front of a database call, and the plugin's verdict as a driver error.\<close>

definition dbcall :: "org_faults \<Rightarrow> string \<Rightarrow> id \<Rightarrow> db_error + 'a \<Rightarrow> db_error + 'a" where
  "dbcall flt call i r = (case flt call i of Some e \<Rightarrow> Inl e | None \<Rightarrow> r)"

definition scopedResult :: "unit + 'a \<Rightarrow> db_error + 'a" where
  "scopedResult r = (case r of Inl _ \<Rightarrow> Inl (DriverErr ''tenantscope: no tenant scope'') | Inr x \<Rightarrow> Inr x)"

section \<open>The repository\<close>

definition orgCodeConstraint :: string where
  "orgCodeConstraint = ''mxid_organization_tenant_id_code_key''"

definition orgCodeColumns :: string where
  "orgCodeColumns = ''mxid_organization.tenant_id, mxid_organization.code''"

text \<open>An insert meets the table's constraints: primary key, \<open>UNIQUE(tenant_id, code)\<close>, and the
  self-reference of \<open>parent_id\<close>.\<close>

definition insertOrg :: "organization list \<Rightarrow> organization \<Rightarrow> db_error + organization list" where
  "insertOrg orgs o' =
     (if list_ex (\<lambda>r. org_ID r = org_ID o') orgs then Inl (PgError ''23505'' ''mxid_organization_pkey'')
      else if list_ex (\<lambda>r. org_TenantID r = org_TenantID o' \<and> org_Code r = org_Code o') orgs
        then Inl (PgError ''23505'' orgCodeConstraint)
      else case org_ParentID o' of
        None \<Rightarrow> Inr (orgs @ [o'])
      | Some p \<Rightarrow>
          if list_ex (\<lambda>r. org_ID r = p) orgs then Inr (orgs @ [o'])
          else Inl (PgError ''23503'' ''mxid_organization_parent_id_fkey''))"

definition repoCreate ::
  "org_faults \<Rightarrow> ctx \<Rightarrow> organization list \<Rightarrow> organization \<Rightarrow> db_error + organization list" where
  "repoCreate flt c orgs o' =
     dbcall flt ''Create'' (org_ID o') (insertOrg orgs (hd (stamp orgModel c [o'])))"

definition repoGetByID ::
  "org_faults \<Rightarrow> ctx \<Rightarrow> organization list \<Rightarrow> id \<Rightarrow> db_error + organization" where
  "repoGetByID flt c orgs i =
     dbcall flt ''GetByID'' i
       (bindE (scopedResult (scoped_rows orgModel c
                 (filter (\<lambda>r. org_ID r = i \<and> org_DeletedAt r = None) orgs)))
         (\<lambda>rows. case rows of [] \<Rightarrow> Inl RecordNotFound | r # _ \<Rightarrow> Inr r))"

text \<open>\<open>Save\<close> writes every column of the row with this primary key.\<close>

definition repoUpdate ::
  "org_faults \<Rightarrow> ctx \<Rightarrow> organization list \<Rightarrow> organization \<Rightarrow> db_error + organization list" where
  "repoUpdate flt c orgs o' =
     dbcall flt ''Update'' (org_ID o')
       (scopedResult (scoped_update orgModel c
          (\<lambda>r. org_ID r = org_ID o' \<and> org_DeletedAt r = None) (\<lambda>_. o') orgs))"

text \<open>\<open>Unscoped().Delete\<close>: a hard delete, refused by the self-reference while a row of any tenant
  names the org as its parent; \<open>mxid_user_org\<close> rows cascade.\<close>

definition repoDelete ::
  "org_faults \<Rightarrow> ctx \<Rightarrow> organization list \<Rightarrow> user_org list \<Rightarrow> id \<Rightarrow>
   db_error + organization list \<times> user_org list" where
  "repoDelete flt c orgs ms i =
     dbcall flt ''Delete'' i
       (bindE (scopedResult (scoped_delete orgModel c (\<lambda>r. org_ID r = i) orgs))
         (\<lambda>orgs'. if orgs' = orgs then Inr (orgs, ms)
            else if list_ex (\<lambda>r. org_ParentID r = Some i) orgs'
              then Inl (PgError ''23503'' ''mxid_organization_parent_id_fkey'')
            else Inr (orgs', filter (\<lambda>m. uo_OrgID m \<noteq> i) ms)))"

definition repoGetChildren ::
  "org_faults \<Rightarrow> ctx \<Rightarrow> organization list \<Rightarrow> id \<Rightarrow> db_error + organization list" where
  "repoGetChildren flt c orgs p =
     dbcall flt ''GetChildren'' p
       (bindE (scopedResult (scoped_rows orgModel c
                 (filter (\<lambda>r. org_ParentID r = Some p \<and> org_DeletedAt r = None) orgs)))
         (\<lambda>rows. Inr (sort_key org_SortOrder rows)))"

text \<open>
  The raw update of \<open>Move\<close>: \<open>path = newPath || SUBSTRING(path::text FROM len(oldPath)+1)\<close> for the
  rows whose path text matches \<open>oldPath.%\<close>, other than the moved row. The statement is raw SQL, so
  the tenant plugin does not see it. NULL in the concatenation makes the new path NULL, which the
  column refuses.
\<close>

definition movesRow :: "id \<Rightarrow> string \<Rightarrow> organization \<Rightarrow> bool" where
  "movesRow i oldPath r \<longleftrightarrow>
     sql_like (oldPath @ ''.%'') (org_Path r) \<and> org_ID r \<noteq> i \<and> org_DeletedAt r = None"

fun moveDescendants ::
  "substring_overload \<Rightarrow> id \<Rightarrow> string \<Rightarrow> string \<Rightarrow> organization list \<Rightarrow> db_error + organization list" where
  "moveDescendants ov i oldPath newPath [] = Inr []"
| "moveDescendants ov i oldPath newPath (r # rs) =
     (if movesRow i oldPath r then
        (case sql_substring ov (org_Path r) (length oldPath + 1) of
           None \<Rightarrow> Inl (PgError ''23502'' ''path'')
         | Some suffix \<Rightarrow>
             bindE (moveDescendants ov i oldPath newPath rs)
               (\<lambda>rs'. Inr (r\<lparr>org_Path := newPath @ suffix\<rparr> # rs')))
      else bindE (moveDescendants ov i oldPath newPath rs) (\<lambda>rs'. Inr (r # rs')))"

text \<open>The three statements of \<open>Move\<close> run in one transaction: an error leaves the table as it was.\<close>

definition repoMove ::
  "substring_overload \<Rightarrow> org_faults \<Rightarrow> ctx \<Rightarrow> organization list \<Rightarrow> id \<Rightarrow> id option \<Rightarrow> string \<Rightarrow>
   db_error + organization list" where
  "repoMove ov flt c orgs i newParentID newPath =
     bindE (repoGetByID flt c orgs i) (\<lambda>o'.
     bindE (dbcall flt ''Move.Updates'' i (scopedResult (scoped_update orgModel c
              (\<lambda>r. org_ID r = i \<and> org_DeletedAt r = None)
              (\<lambda>r. r\<lparr>org_ParentID := newParentID, org_Path := newPath\<rparr>) orgs))) (\<lambda>orgs1.
     dbcall flt ''Move.Exec'' i (moveDescendants ov i (org_Path o') newPath orgs1)))"

text \<open>\<open>UNIQUE(user_id, org_id)\<close> guards an insert of a membership.\<close>

definition repoAddMember ::
  "org_faults \<Rightarrow> user_org list \<Rightarrow> user_org \<Rightarrow> db_error + user_org list" where
  "repoAddMember flt ms m =
     dbcall flt ''AddMember'' (uo_OrgID m)
       (if list_ex (\<lambda>x. uo_ID x = uo_ID m) ms then Inl (PgError ''23505'' ''mxid_user_org_pkey'')
        else if list_ex (\<lambda>x. uo_UserID x = uo_UserID m \<and> uo_OrgID x = uo_OrgID m) ms
          then Inl (PgError ''23505'' ''mxid_user_org_user_id_org_id_key'')
        else Inr (ms @ [m]))"

definition repoRemoveMember ::
  "org_faults \<Rightarrow> user_org list \<Rightarrow> id \<Rightarrow> id \<Rightarrow> org_error + user_org list" where
  "repoRemoveMember flt ms userID orgID =
     (case flt ''RemoveMember'' orgID of
        Some e \<Rightarrow> Inl (ErrOrgDb e)
      | None \<Rightarrow>
          if list_ex (\<lambda>m. uo_UserID m = userID \<and> uo_OrgID m = orgID) ms
            then Inr (filter (\<lambda>m. \<not> (uo_UserID m = userID \<and> uo_OrgID m = orgID)) ms)
          else Inl ErrMemberNotFound)"

text \<open>Primary-key lookup among the live rows, as the raw queries do it.\<close>

definition liveOrg :: "organization list \<Rightarrow> id \<Rightarrow> organization option" where
  "liveOrg orgs i = find (\<lambda>r. org_ID r = i \<and> org_DeletedAt r = None) orgs"

definition repoIsAncestorOrSelf ::
  "org_faults \<Rightarrow> organization list \<Rightarrow> id \<Rightarrow> id \<Rightarrow> unit + bool" where
  "repoIsAncestorOrSelf flt orgs ancestor descendant =
     (if ancestor = descendant then Inr True
      else case flt ''IsAncestorOrSelf'' descendant of
        Some _ \<Rightarrow> Inl ()
      | None \<Rightarrow>
          (case (liveOrg orgs descendant, liveOrg orgs ancestor) of
             (Some d, Some a) \<Rightarrow> Inr (ltree_below (org_Path d) (org_Path a))
           | _ \<Rightarrow> Inr False))"

definition repoAncestorIDsForUser ::
  "org_faults \<Rightarrow> organization list \<Rightarrow> user_org list \<Rightarrow> id \<Rightarrow> id \<Rightarrow> unit + id list" where
  "repoAncestorIDsForUser flt orgs ms tenantID userID =
     (case flt ''AncestorIDsForUser'' userID of
        Some _ \<Rightarrow> Inl ()
      | None \<Rightarrow> Inr (remdups
          [org_ID o2. m \<leftarrow> ms, uo_UserID m = userID,
             o1 \<leftarrow> orgs, org_ID o1 = uo_OrgID m \<and> org_DeletedAt o1 = None,
             o2 \<leftarrow> orgs, ltree_below (org_Path o1) (org_Path o2) \<and> org_DeletedAt o2 = None
                        \<and> org_TenantID o2 = tenantID]))"

section \<open>The service\<close>

definition RootOrgID :: id where "RootOrgID = 1"

text \<open>\<open>orgCodeRe\<close>: letters, digits and underscore, at least one.\<close>

definition isLabelChar :: "char \<Rightarrow> bool" where
  "isLabelChar ch =
     (let n = (of_char ch :: nat) in
        (65 \<le> n \<and> n \<le> 90) \<or> (97 \<le> n \<and> n \<le> 122) \<or> (48 \<le> n \<and> n \<le> 57) \<or> ch = CHR ''_'')"

definition orgCodeMatch :: "string \<Rightarrow> bool" where
  "orgCodeMatch s = (s \<noteq> [] \<and> list_all isLabelChar s)"

definition fetchOrg ::
  "org_faults \<Rightarrow> ctx \<Rightarrow> organization list \<Rightarrow> id \<Rightarrow> org_error + organization" where
  "fetchOrg flt c orgs i =
     (case repoGetByID flt c orgs i of
        Inl e \<Rightarrow> if IsNotFound e then Inl ErrOrgNotFound else Inl (ErrOrgDb e)
      | Inr r \<Rightarrow> Inr r)"

definition fetchParentOrg ::
  "org_faults \<Rightarrow> ctx \<Rightarrow> organization list \<Rightarrow> id \<Rightarrow> org_error + organization" where
  "fetchParentOrg flt c orgs i =
     (case fetchOrg flt c orgs i of
        Inl e \<Rightarrow> if e = ErrOrgNotFound then Inl ErrParentOrgNotFound else Inl e
      | Inr r \<Rightarrow> Inr r)"

definition requireUserInTenant :: "(id \<Rightarrow> unit + bool) option \<Rightarrow> id \<Rightarrow> org_error + unit" where
  "requireUserInTenant v userID =
     (case v of
        None \<Rightarrow> Inl ErrNoUserValidator
      | Some f \<Rightarrow> (case f userID of
            Inl _ \<Rightarrow> Inl ErrValidateUser
          | Inr ok \<Rightarrow> if \<not> ok then Inl ErrUserNotInTenant else Inr ()))"

definition publish :: "org_event \<Rightarrow> org_state \<Rightarrow> org_state" where
  "publish ev s = s\<lparr>os_events := os_events s @ [ev]\<rparr>"

definition childPath :: "organization option \<Rightarrow> string \<Rightarrow> string" where
  "childPath parent code = (case parent of None \<Rightarrow> code | Some p \<Rightarrow> org_Path p @ ''.'' @ code)"

definition fetchOptParent ::
  "org_faults \<Rightarrow> ctx \<Rightarrow> organization list \<Rightarrow> id option \<Rightarrow> org_error + organization option" where
  "fetchOptParent flt c orgs p =
     (case p of
        None \<Rightarrow> Inr None
      | Some i \<Rightarrow> bindE (fetchParentOrg flt c orgs i) (\<lambda>r. Inr (Some r)))"

definition CreateOrg ::
  "org_faults \<Rightarrow> ctx \<Rightarrow> id \<Rightarrow> id \<Rightarrow> create_org_request \<Rightarrow> org_state \<Rightarrow> org_error + organization \<times> org_state" where
  "CreateOrg flt c newID tenantID req s =
     (if \<not> orgCodeMatch (co_Code req) then Inl ErrInvalidOrgCode
      else bindE (fetchOptParent flt c (os_orgs s) (co_ParentID req)) (\<lambda>parent.
        let o' = \<lparr>org_ID = newID, org_TenantID = tenantID, org_Name = co_Name req, org_Code = co_Code req,
                  org_ParentID = co_ParentID req, org_Path = childPath parent (co_Code req),
                  org_SortOrder = co_SortOrder req, org_Status = 1, org_DeletedAt = None\<rparr>
        in case repoCreate flt c (os_orgs s) o' of
             Inl e \<Rightarrow>
               if IsUniqueViolationOn (Some e) [orgCodeConstraint, orgCodeColumns]
                 then Inl ErrOrgCodeExists else Inl (ErrOrgDb e)
           | Inr orgs \<Rightarrow>
               let stored = hd (stamp orgModel c [o'])
               in Inr (stored, publish (OrgCreated stored) (s\<lparr>os_orgs := orgs\<rparr>))))"

definition GetByID :: "org_faults \<Rightarrow> ctx \<Rightarrow> id \<Rightarrow> org_state \<Rightarrow> org_error + organization" where
  "GetByID flt c i s = fetchOrg flt c (os_orgs s) i"

definition UpdateOrg ::
  "org_faults \<Rightarrow> ctx \<Rightarrow> id \<Rightarrow> update_org_request \<Rightarrow> org_state \<Rightarrow> org_error + organization \<times> org_state" where
  "UpdateOrg flt c i req s =
     bindE (fetchOrg flt c (os_orgs s) i) (\<lambda>o0.
       let o' = o0\<lparr>org_Name := uor_Name req, org_SortOrder := uor_SortOrder req, org_Status := uor_Status req\<rparr>
       in case repoUpdate flt c (os_orgs s) o' of
            Inl e \<Rightarrow> Inl (ErrOrgDb e)
          | Inr orgs \<Rightarrow> Inr (o', publish (OrgUpdated o') (s\<lparr>os_orgs := orgs\<rparr>)))"

definition DeleteOrg :: "org_faults \<Rightarrow> ctx \<Rightarrow> id \<Rightarrow> org_state \<Rightarrow> org_error + org_state" where
  "DeleteOrg flt c i s =
     (if i = RootOrgID then Inl ErrRootOrgDelete
      else case repoGetChildren flt c (os_orgs s) i of
        Inl e \<Rightarrow> Inl (ErrOrgDb e)
      | Inr children \<Rightarrow>
          if 0 < length children then Inl ErrOrgHasChildren
          else case repoDelete flt c (os_orgs s) (os_members s) i of
            Inl e \<Rightarrow> Inl (ErrOrgDb e)
          | Inr (orgs, ms) \<Rightarrow> Inr (publish (OrgDeleted i) (s\<lparr>os_orgs := orgs, os_members := ms\<rparr>)))"

text \<open>The cycle guard of \<open>Move\<close>.\<close>

definition moveCycle :: "organization \<Rightarrow> organization \<Rightarrow> bool" where
  "moveCycle o' parent =
     (org_ID parent = org_ID o' \<or> org_Path parent = org_Path o'
      \<or> HasPrefix (org_Path parent) (org_Path o' @ ''.''))"

definition MoveOrg ::
  "substring_overload \<Rightarrow> org_faults \<Rightarrow> ctx \<Rightarrow> id \<Rightarrow> id option \<Rightarrow> org_state \<Rightarrow> org_error + org_state" where
  "MoveOrg ov flt c i newParentID s =
     bindE (fetchOrg flt c (os_orgs s) i) (\<lambda>o'.
     bindE (fetchOptParent flt c (os_orgs s) newParentID) (\<lambda>parent.
       if (case parent of None \<Rightarrow> False | Some p \<Rightarrow> moveCycle o' p) then Inl ErrOrgCycle
       else case repoMove ov flt c (os_orgs s) i newParentID (childPath parent (org_Code o')) of
         Inl e \<Rightarrow> Inl (ErrOrgDb e)
       | Inr orgs \<Rightarrow> Inr (publish (OrgMoved (org_TenantID o') i) (s\<lparr>os_orgs := orgs\<rparr>))))"

definition AddMember ::
  "org_faults \<Rightarrow> ctx \<Rightarrow> (id \<Rightarrow> unit + bool) option \<Rightarrow> id \<Rightarrow> time \<Rightarrow> id \<Rightarrow> id \<Rightarrow> bool \<Rightarrow> org_state \<Rightarrow>
   org_error + org_state" where
  "AddMember flt c validator newID now orgID userID isPrimary s =
     bindE (fetchOrg flt c (os_orgs s) orgID) (\<lambda>o'.
     bindE (requireUserInTenant validator userID) (\<lambda>_.
       case repoAddMember flt (os_members s)
              \<lparr>uo_ID = newID, uo_UserID = userID, uo_OrgID = orgID, uo_IsPrimary = isPrimary,
               uo_CreatedAt = now\<rparr> of
         Inl e \<Rightarrow> Inl (ErrOrgDb e)
       | Inr ms \<Rightarrow> Inr (publish (OrgMemberAdded (org_TenantID o') userID orgID) (s\<lparr>os_members := ms\<rparr>))))"

definition RemoveMember ::
  "org_faults \<Rightarrow> ctx \<Rightarrow> id \<Rightarrow> id \<Rightarrow> org_state \<Rightarrow> org_error + org_state" where
  "RemoveMember flt c userID orgID s =
     bindE (fetchOrg flt c (os_orgs s) orgID) (\<lambda>o'.
     bindE (repoRemoveMember flt (os_members s) userID orgID) (\<lambda>ms.
       Inr (publish (OrgMemberRemoved (org_TenantID o') userID orgID) (s\<lparr>os_members := ms\<rparr>))))"

definition IsAncestorOrSelf :: "org_faults \<Rightarrow> org_state \<Rightarrow> id \<Rightarrow> id \<Rightarrow> unit + bool" where
  "IsAncestorOrSelf flt s a d = repoIsAncestorOrSelf flt (os_orgs s) a d"

definition AncestorIDsForUser :: "org_faults \<Rightarrow> org_state \<Rightarrow> id \<Rightarrow> id \<Rightarrow> unit + id list" where
  "AncestorIDsForUser flt s tenantID userID =
     repoAncestorIDsForUser flt (os_orgs s) (os_members s) tenantID userID"

end
