(* ===== verification/OrgTree.thy ===== *)
theory OrgTree
  imports Org
begin

text \<open>
  The org tree: the invariant that ties the materialised paths to the parent pointers, that every
  operation of the service keeps it, that the path-based ancestor check decides exactly the parent
  chain, and the contract \<open>org_ancestry\<close> of the permission engine discharged by it.
\<close>

section \<open>The invariant\<close>

definition parentOk :: "organization list \<Rightarrow> organization \<Rightarrow> bool" where
  "parentOk orgs r \<longleftrightarrow>
     (case org_ParentID r of
        None \<Rightarrow> org_Path r = org_Code r
      | Some p \<Rightarrow> (\<exists>q \<in> set orgs. org_ID q = p \<and> org_TenantID q = org_TenantID r \<and>
                    org_Path r = org_Path q @ ''.'' @ org_Code r))"

definition org_tree :: "organization list \<Rightarrow> bool" where
  "org_tree orgs \<longleftrightarrow>
     distinct (map org_ID orgs) \<and>
     (\<forall>r \<in> set orgs. org_DeletedAt r = None \<and> orgCodeMatch (org_Code r) \<and> parentOk orgs r) \<and>
     (\<forall>r \<in> set orgs. \<forall>r' \<in> set orgs.
        org_TenantID r = org_TenantID r' \<longrightarrow> org_Code r = org_Code r' \<longrightarrow> r = r')"

text \<open>The parent chain: \<open>org_above orgs a d\<close> when \<open>a\<close> is \<open>d\<close> or an ancestor of it.\<close>

inductive org_above :: "organization list \<Rightarrow> organization \<Rightarrow> organization \<Rightarrow> bool" for orgs where
  above_self: "r \<in> set orgs \<Longrightarrow> org_above orgs r r"
| above_up: "org_above orgs a q \<Longrightarrow> r \<in> set orgs \<Longrightarrow> org_ParentID r = Some (org_ID q) \<Longrightarrow> org_above orgs a r"

lemma org_above_in: "org_above orgs a d \<Longrightarrow> a \<in> set orgs \<and> d \<in> set orgs"
  by (induction rule: org_above.induct) auto

lemma org_tree_id_eq:
  "org_tree orgs \<Longrightarrow> r \<in> set orgs \<Longrightarrow> q \<in> set orgs \<Longrightarrow> org_ID r = org_ID q \<longleftrightarrow> r = q"
  by (auto simp: org_tree_def distinct_map inj_on_def)

lemma org_tree_code_eq:
  "org_tree orgs \<Longrightarrow> r \<in> set orgs \<Longrightarrow> q \<in> set orgs \<Longrightarrow> org_TenantID r = org_TenantID q \<Longrightarrow>
     org_Code r = org_Code q \<Longrightarrow> r = q"
  by (simp add: org_tree_def)

lemma org_tree_live: "org_tree orgs \<Longrightarrow> r \<in> set orgs \<Longrightarrow> org_DeletedAt r = None"
  by (simp add: org_tree_def)

lemma org_tree_code: "org_tree orgs \<Longrightarrow> r \<in> set orgs \<Longrightarrow> orgCodeMatch (org_Code r)"
  by (simp add: org_tree_def)

lemma org_tree_root:
  "org_tree orgs \<Longrightarrow> r \<in> set orgs \<Longrightarrow> org_ParentID r = None \<Longrightarrow> org_Path r = org_Code r"
  by (auto simp: org_tree_def parentOk_def)

lemma org_tree_parent:
  assumes "org_tree orgs" and "r \<in> set orgs" and "org_ParentID r = Some p"
  obtains q where "q \<in> set orgs" "org_ID q = p" "org_TenantID q = org_TenantID r"
    "org_Path r = org_Path q @ ''.'' @ org_Code r"
  using assms by (auto simp: org_tree_def parentOk_def split: option.splits)

lemma org_tree_parent_of:
  assumes "org_tree orgs" and "r \<in> set orgs" and "q \<in> set orgs" and "org_ParentID r = Some (org_ID q)"
  shows "org_TenantID q = org_TenantID r \<and> org_Path r = org_Path q @ ''.'' @ org_Code r"
  using assms org_tree_id_eq by (metis org_tree_parent)

section \<open>Characters of codes and paths\<close>

lemma isLabelChar_special [simp]:
  "\<not> isLabelChar CHR ''.''" "\<not> isLabelChar CHR ''%''" "\<not> isLabelChar esc"
  by (simp_all add: isLabelChar_def)

lemma orgCode_facts:
  "orgCodeMatch s \<Longrightarrow> s \<noteq> [] \<and> CHR ''.'' \<notin> set s \<and> CHR ''%'' \<notin> set s \<and> esc \<notin> set s"
  using isLabelChar_special by (auto simp: orgCodeMatch_def list_all_iff)

lemma path_shape:
  assumes tree: "org_tree orgs" and r: "r \<in> set orgs"
  shows "org_Path r \<noteq> [] \<and> CHR ''%'' \<notin> set (org_Path r) \<and> esc \<notin> set (org_Path r)"
  using r
proof (induction "length (org_Path r)" arbitrary: r rule: less_induct)
  case less
  note code = orgCode_facts [OF org_tree_code [OF tree less.prems]]
  show ?case
  proof (cases "org_ParentID r")
    case None
    with code org_tree_root [OF tree less.prems] show ?thesis by simp
  next
    case (Some p)
    obtain q where q: "q \<in> set orgs" "org_Path r = org_Path q @ ''.'' @ org_Code r"
      by (rule org_tree_parent [OF tree less.prems Some]) blast
    then have "length (org_Path q) < length (org_Path r)" by simp
    with less.hyps q(1) have
      "org_Path q \<noteq> [] \<and> CHR ''%'' \<notin> set (org_Path q) \<and> esc \<notin> set (org_Path q)" by blast
    with code show ?thesis unfolding q(2) by simp
  qed
qed

lemma labels_parent:
  assumes "org_tree orgs" and "r \<in> set orgs" and "q \<in> set orgs" and "org_ParentID r = Some (org_ID q)"
  shows "ltree_labels (org_Path r) = ltree_labels (org_Path q) @ [org_Code r]"
  using assms orgCode_facts [OF org_tree_code] path_shape org_tree_parent_of ltree_labels_child
  by metis

lemma labels_root:
  assumes "org_tree orgs" and "r \<in> set orgs" and "org_ParentID r = None"
  shows "ltree_labels (org_Path r) = [org_Code r]"
  using assms orgCode_facts [OF org_tree_code] org_tree_root ltree_labels_root by metis

lemma last_label:
  assumes tree: "org_tree orgs" and r: "r \<in> set orgs"
  shows "\<exists>ls. ltree_labels (org_Path r) = ls @ [org_Code r]"
proof (cases "org_ParentID r")
  case None
  then show ?thesis using labels_root [OF tree r] by simp
next
  case (Some p)
  obtain q where "q \<in> set orgs" "org_ID q = p" by (rule org_tree_parent [OF tree r Some]) blast
  with labels_parent [OF tree r] Some show ?thesis by blast
qed

section \<open>The ancestor check decides the parent chain\<close>

lemma above_path:
  assumes tree: "org_tree orgs" and ab: "org_above orgs a d"
  shows "org_TenantID a = org_TenantID d \<and> ltree_below (org_Path d) (org_Path a)"
  using ab
proof (induction rule: org_above.induct)
  case (above_self r)
  then show ?case by simp
next
  case (above_up a q r)
  have q: "q \<in> set orgs" using above_up(1) org_above_in by blast
  show ?case
    using above_up labels_parent [OF tree above_up(2) q above_up(3)]
      org_tree_parent_of [OF tree above_up(2) q above_up(3)]
    by (auto simp: ltree_below_iff)
qed

lemma above_with_labels:
  assumes tree: "org_tree orgs"
  shows "r \<in> set orgs \<Longrightarrow> ltree_labels (org_Path r) = xs @ zs \<Longrightarrow> xs \<noteq> [] \<Longrightarrow>
    \<exists>a. org_above orgs a r \<and> ltree_labels (org_Path a) = xs"
proof (induction zs arbitrary: r rule: rev_induct)
  case Nil
  then show ?case using above_self by auto
next
  case (snoc z zs)
  show ?case
  proof (cases "org_ParentID r")
    case None
    then show ?thesis using labels_root [OF tree snoc.prems(1)] snoc.prems by simp
  next
    case (Some p)
    obtain q where q: "q \<in> set orgs" "org_ID q = p"
      by (rule org_tree_parent [OF tree snoc.prems(1) Some]) blast
    then have "ltree_labels (org_Path q) = xs @ zs"
      using labels_parent [OF tree snoc.prems(1) q(1)] Some snoc.prems(2) by simp
    with snoc.IH q(1) snoc.prems(3) obtain a where "org_above orgs a q" "ltree_labels (org_Path a) = xs"
      by blast
    then show ?thesis using above_up Some q snoc.prems(1) by blast
  qed
qed

lemma labels_identify:
  assumes tree: "org_tree orgs" and "a \<in> set orgs" "b \<in> set orgs" "org_TenantID a = org_TenantID b"
    and "ltree_labels (org_Path a) = ltree_labels (org_Path b)"
  shows "a = b"
  using assms last_label [OF tree] org_tree_code_eq [OF tree] by (metis append1_eq_conv)

lemma below_iff_above:
  assumes tree: "org_tree orgs" and a: "a \<in> set orgs" and d: "d \<in> set orgs"
    and ten: "org_TenantID a = org_TenantID d"
  shows "ltree_below (org_Path d) (org_Path a) \<longleftrightarrow> org_above orgs a d"
proof
  assume "ltree_below (org_Path d) (org_Path a)"
  then obtain zs where "ltree_labels (org_Path d) = ltree_labels (org_Path a) @ zs"
    by (auto simp: ltree_below_iff)
  moreover have "ltree_labels (org_Path a) \<noteq> []" using last_label [OF tree a] by auto
  ultimately obtain a' where a': "org_above orgs a' d" "ltree_labels (org_Path a') = ltree_labels (org_Path a)"
    using above_with_labels [OF tree d] by blast
  then have "a' = a"
    using labels_identify [OF tree _ a] above_path [OF tree a'(1)] org_above_in [OF a'(1)] ten by simp
  with a' show "org_above orgs a d" by simp
qed (use above_path [OF tree] in blast)

lemma liveOrg_in: "org_tree orgs \<Longrightarrow> r \<in> set orgs \<Longrightarrow> liveOrg orgs (org_ID r) = Some r"
  unfolding liveOrg_def find_Some_iff
  by (auto simp: org_tree_def in_set_conv_nth distinct_map distinct_conv_nth inj_on_def)
    (metis nth_mem less_trans less_irrefl_nat)

section \<open>A sample tree\<close>

definition mkOrg :: "id \<Rightarrow> id \<Rightarrow> string \<Rightarrow> id option \<Rightarrow> string \<Rightarrow> organization" where
  "mkOrg i t code parent path = \<lparr>org_ID = i, org_TenantID = t, org_Name = code, org_Code = code,
     org_ParentID = parent, org_Path = path, org_SortOrder = 0, org_Status = 1, org_DeletedAt = None\<rparr>"

definition sampleOrgs :: "organization list" where
  "sampleOrgs = [mkOrg 1 7 ''root'' None ''root'', mkOrg 2 7 ''eng'' (Some 1) ''root.eng'',
     mkOrg 3 7 ''platform'' (Some 2) ''root.eng.platform'', mkOrg 4 7 ''ops'' (Some 1) ''root.ops'']"

definition sampleState :: org_state where
  "sampleState = \<lparr>os_orgs = sampleOrgs, os_members = [], os_events = []\<rparr>"

lemma sampleOrgs_tree: "org_tree sampleOrgs"
  by (simp add: org_tree_def sampleOrgs_def mkOrg_def parentOk_def orgCodeMatch_def isLabelChar_def Let_def)

lemma sampleOrgs_set:
  "set sampleOrgs = {mkOrg 1 7 ''root'' None ''root'', mkOrg 2 7 ''eng'' (Some 1) ''root.eng'',
     mkOrg 3 7 ''platform'' (Some 2) ''root.eng.platform'', mkOrg 4 7 ''ops'' (Some 1) ''root.ops''}"
  by (simp add: sampleOrgs_def)

section \<open>The check is the parent chain\<close>

text \<open>
  C12: The path-based ancestor check decides the tree. On a well-formed table, for two orgs of one
  tenant, \<open>IsAncestorOrSelf\<close> answers exactly whether the first is the second or one of its
  ancestors along the parent pointers.
\<close>

theorem IsAncestorOrSelf_is_parent_chain:
  assumes tree: "org_tree (os_orgs s)" and a: "a \<in> set (os_orgs s)" and d: "d \<in> set (os_orgs s)"
    and ten: "org_TenantID a = org_TenantID d"
  shows "IsAncestorOrSelf no_faults s (org_ID a) (org_ID d) = Inr (org_above (os_orgs s) a d)"
proof (cases "org_ID a = org_ID d")
  case True
  then have "a = d" using org_tree_id_eq [OF tree a d] by simp
  then show ?thesis using above_self [OF a] by (simp add: IsAncestorOrSelf_def repoIsAncestorOrSelf_def)
next
  case False
  then show ?thesis
    using below_iff_above [OF tree a d ten]
    by (simp add: IsAncestorOrSelf_def repoIsAncestorOrSelf_def no_faults_def liveOrg_in [OF tree] a d)
qed

theorem IsAncestorOrSelf_is_parent_chain_witness:
  "org_above sampleOrgs (mkOrg 1 7 ''root'' None ''root'')
     (mkOrg 3 7 ''platform'' (Some 2) ''root.eng.platform'')"
proof -
  have "IsAncestorOrSelf no_faults sampleState 1 3 =
      Inr (org_above sampleOrgs (mkOrg 1 7 ''root'' None ''root'')
             (mkOrg 3 7 ''platform'' (Some 2) ''root.eng.platform''))"
    using IsAncestorOrSelf_is_parent_chain [of sampleState "mkOrg 1 7 ''root'' None ''root''"
        "mkOrg 3 7 ''platform'' (Some 2) ''root.eng.platform''"] sampleOrgs_tree
    by (simp add: sampleState_def sampleOrgs_set) (simp add: mkOrg_def)
  moreover have "IsAncestorOrSelf no_faults sampleState 1 3 = Inr True"
    by code_simp
  ultimately show ?thesis by simp
qed

text \<open>The contract of the permission engine: no hypothesis on the table is needed for it.\<close>

lemma repoIsAncestorOrSelf_iff:
  "repoIsAncestorOrSelf no_faults orgs a d = Inr True \<longleftrightarrow>
     a = d \<or> (\<exists>x y. liveOrg orgs d = Some x \<and> liveOrg orgs a = Some y \<and> ltree_below (org_Path x) (org_Path y))"
  by (auto simp: repoIsAncestorOrSelf_def no_faults_def split: option.splits)

interpretation org_tree_check: org_ancestry "IsAncestorOrSelf no_faults s" for s
proof
  show "isOk (IsAncestorOrSelf no_faults s a d)" for a d
    by (simp add: IsAncestorOrSelf_def repoIsAncestorOrSelf_def no_faults_def split: option.splits)
  show "IsAncestorOrSelf no_faults s a a = Inr True" for a
    by (simp add: IsAncestorOrSelf_def repoIsAncestorOrSelf_def)
  show "IsAncestorOrSelf no_faults s a d = Inr True"
    if "IsAncestorOrSelf no_faults s a b = Inr True" "IsAncestorOrSelf no_faults s b d = Inr True" for a b d
    using that ltree_below_trans unfolding IsAncestorOrSelf_def repoIsAncestorOrSelf_iff
    by (metis option.inject)
qed


definition sampleService :: "unit authz_service" where
  "sampleService = \<lparr>as_bindings = Some (\<lambda>t u. Inr [\<lparr>eb_RoleID = 5, eb_Permissions = {''user.read''},
       eb_Source = ''user'', eb_SourceID = u, eb_ScopeType = ScopeOrg, eb_ScopeID = 1, eb_ExpiresAt = None\<rparr>]),
     as_orgTree = Some (IsAncestorOrSelf no_faults sampleState), as_casbin = None\<rparr>"


section \<open>Creating, updating and deleting keep the tree\<close>

lemma fetchOrg_ok:
  assumes pin: "pinned_to c t" and f: "fetchOrg flt c orgs i = Inr r"
  shows "r \<in> set orgs \<and> org_ID r = i \<and> org_DeletedAt r = None \<and> org_TenantID r = t"
proof -
  have "scoped_rows orgModel c (filter (\<lambda>r. org_ID r = i \<and> org_DeletedAt r = None) orgs) =
        Inr (filter (\<lambda>r. org_TenantID r = t) (filter (\<lambda>r. org_ID r = i \<and> org_DeletedAt r = None) orgs))"
    using scoped_rows_pinned [OF pin, of orgModel] by (simp add: orgModel_def)
  with f show ?thesis
    by (auto simp: fetchOrg_def repoGetByID_def dbcall_def scopedResult_def bindE_def
        split: option.splits sum.splits list.splits if_splits dest!: filter_eq_ConsD)
qed

lemma fetchOptParent_ok:
  assumes pin: "pinned_to c t" and f: "fetchOptParent flt c orgs p = Inr parent"
  shows "(p = None \<and> parent = None) \<or>
    (\<exists>i r. p = Some i \<and> parent = Some r \<and> r \<in> set orgs \<and> org_ID r = i \<and> org_DeletedAt r = None \<and> org_TenantID r = t)"
proof (cases p)
  case None
  with f show ?thesis by (simp add: fetchOptParent_def)
next
  case (Some i)
  with f obtain r where "parent = Some r" "fetchOrg flt c orgs i = Inr r"
    by (auto simp: fetchOptParent_def fetchParentOrg_def bindE_def split: sum.splits if_splits)
  with fetchOrg_ok [OF pin] Some show ?thesis by blast
qed

lemma parentOkI:
  "q \<in> set orgs \<Longrightarrow> org_ParentID r = Some (org_ID q) \<Longrightarrow> org_TenantID q = org_TenantID r \<Longrightarrow>
     org_Path r = org_Path q @ ''.'' @ org_Code r \<Longrightarrow> parentOk orgs r"
  by (auto simp: parentOk_def)

lemma parentOk_mono: "parentOk orgs r \<Longrightarrow> set orgs \<subseteq> set orgs' \<Longrightarrow> parentOk orgs' r"
  by (auto simp: parentOk_def split: option.splits)

lemma stamp_org: "t \<noteq> 0 \<Longrightarrow> org_TenantID r = t \<Longrightarrow> stamp orgModel c [r] = [r]"
  by (rule stamp_keeps_explicit) (simp add: orgModel_def)

lemma insertOrg_tree:
  assumes "org_tree orgs" and "insertOrg orgs r = Inr orgs'"
    and "orgCodeMatch (org_Code r)" and "org_DeletedAt r = None" and "parentOk orgs r"
  shows "org_tree orgs' \<and> orgs' = orgs @ [r]"
proof -
  have eq: "orgs' = orgs @ [r]" and new: "org_ID r \<notin> org_ID ` set orgs"
    and code: "\<forall>q \<in> set orgs. org_TenantID q = org_TenantID r \<longrightarrow> org_Code q \<noteq> org_Code r"
    using assms(2) by (auto simp: insertOrg_def list_ex_iff split: if_splits option.splits)
  have "parentOk (orgs @ [r]) q" if "q \<in> set orgs" for q
    using assms(1) that parentOk_mono [of orgs q "orgs @ [r]"] by (auto simp: org_tree_def)
  moreover have "parentOk (orgs @ [r]) r" using assms(5) parentOk_mono [of orgs r "orgs @ [r]"] by auto
  ultimately have "org_tree (orgs @ [r])"
    using assms(1,3,4) new code unfolding org_tree_def by (auto; metis)
  with eq show ?thesis by simp
qed

lemma CreateOrg_tree:
  assumes tree: "org_tree (os_orgs s)" and pin: "pinned_to c t"
    and ok: "CreateOrg flt c newID t req s = Inr (r, s')"
  shows "org_tree (os_orgs s') \<and> os_orgs s' = os_orgs s @ [r] \<and> org_TenantID r = t"
proof -
  obtain parent where par: "fetchOptParent flt c (os_orgs s) (co_ParentID req) = Inr parent"
    and code: "orgCodeMatch (co_Code req)"
    using ok by (auto simp: CreateOrg_def bindE_eq_Inr split: if_splits)
  define r0 where "r0 = \<lparr>org_ID = newID, org_TenantID = t, org_Name = co_Name req, org_Code = co_Code req,
                  org_ParentID = co_ParentID req, org_Path = childPath parent (co_Code req),
                  org_SortOrder = co_SortOrder req, org_Status = 1, org_DeletedAt = None\<rparr>"
  have st: "stamp orgModel c [r0] = [r0]"
    using pin by (intro stamp_org) (auto simp: r0_def pinned_to_def)
  have ins: "insertOrg (os_orgs s) r0 = Inr (os_orgs s')" and r: "r = r0"
    using ok par code st
    by (auto simp: CreateOrg_def Let_def repoCreate_def dbcall_def publish_def simp flip: r0_def
        split: sum.splits option.splits if_splits)
  have f: "orgCodeMatch (org_Code r0)" "org_DeletedAt r0 = None" using code by (simp_all add: r0_def)
  have "parentOk (os_orgs s) r0"
    using fetchOptParent_ok [OF pin par] by (auto simp: parentOk_def r0_def childPath_def)
  then have "org_tree (os_orgs s') \<and> os_orgs s' = os_orgs s @ [r0]"
    by (rule insertOrg_tree [OF tree ins f])
  moreover have "org_TenantID r0 = t" by (simp add: r0_def)
  ultimately show ?thesis using r by blast
qed

text \<open>A rewriting of the rows that keeps their identity keeps the tree when it keeps \<open>parentOk\<close>.\<close>

lemma org_tree_map:
  assumes tree: "org_tree orgs"
    and same: "\<And>r. r \<in> set orgs \<Longrightarrow> org_ID (f r) = org_ID r \<and> org_TenantID (f r) = org_TenantID r \<and>
      org_Code (f r) = org_Code r \<and> org_DeletedAt (f r) = org_DeletedAt r"
    and par: "\<And>r. r \<in> set orgs \<Longrightarrow> parentOk (map f orgs) (f r)"
  shows "org_tree (map f orgs)"
proof -
  have "map org_ID (map f orgs) = map org_ID orgs" using same by (simp add: comp_def)
  then have "distinct (map org_ID (map f orgs))" using tree unfolding org_tree_def by metis
  moreover have "f r = f r'" if "r \<in> set orgs" "r' \<in> set orgs"
    "org_TenantID (f r) = org_TenantID (f r')" "org_Code (f r) = org_Code (f r')" for r r'
    using org_tree_code_eq [OF tree] same that by metis
  moreover have "org_DeletedAt (f r) = None \<and> orgCodeMatch (org_Code (f r))" if "r \<in> set orgs" for r
    using tree same [OF that] that by (simp add: org_tree_def)
  ultimately show ?thesis unfolding org_tree_def using par by auto
qed

lemma scoped_update_pinned:
  assumes "pinned_to c t"
  shows "scoped_update orgModel c w f orgs = Inr (map (\<lambda>r. if w r \<and> org_TenantID r = t then f r else r) orgs)"
  using assms by (simp add: scoped_update_def tenant_filter_pinned orgModel_def)

text \<open>In particular when it also keeps parents and paths.\<close>

lemma org_tree_map_same:
  assumes tree: "org_tree orgs"
    and same: "\<And>r. r \<in> set orgs \<Longrightarrow> org_ID (f r) = org_ID r \<and> org_TenantID (f r) = org_TenantID r \<and>
      org_Code (f r) = org_Code r \<and> org_DeletedAt (f r) = org_DeletedAt r \<and>
      org_Path (f r) = org_Path r \<and> org_ParentID (f r) = org_ParentID r"
  shows "org_tree (map f orgs)"
proof (rule org_tree_map [OF tree])
  fix r assume r: "r \<in> set orgs"
  show "parentOk (map f orgs) (f r)"
  proof (cases "org_ParentID r")
    case None
    then show ?thesis using same [OF r] org_tree_root [OF tree r] by (simp add: parentOk_def)
  next
    case (Some p)
    obtain q where q: "q \<in> set orgs" "org_ID q = p" "org_TenantID q = org_TenantID r"
        "org_Path r = org_Path q @ ''.'' @ org_Code r"
      by (rule org_tree_parent [OF tree r Some]) blast
    then show ?thesis using same [OF r] same [OF q(1)] Some by (auto simp: parentOk_def)
  qed
qed (use same in blast)

lemma UpdateOrg_tree:
  assumes tree: "org_tree (os_orgs s)" and pin: "pinned_to c t"
    and ok: "UpdateOrg flt c i req s = Inr (r, s')"
  shows "org_tree (os_orgs s')"
proof -
  obtain o0 where f: "fetchOrg flt c (os_orgs s) i = Inr o0"
    using ok by (auto simp: UpdateOrg_def bindE_eq_Inr)
  define o1 where
    "o1 = o0\<lparr>org_Name := uor_Name req, org_SortOrder := uor_SortOrder req, org_Status := uor_Status req\<rparr>"
  define g where
    "g = (\<lambda>r. if (org_ID r = org_ID o1 \<and> org_DeletedAt r = None) \<and> org_TenantID r = t then o1 else r)"
  have o0: "o0 \<in> set (os_orgs s)" using fetchOrg_ok [OF pin f] by blast
  have eq: "os_orgs s' = map g (os_orgs s)"
    using ok f by (auto simp: UpdateOrg_def repoUpdate_def dbcall_def scopedResult_def publish_def Let_def
        scoped_update_pinned [OF pin] g_def simp flip: o1_def split: option.splits)
  have "org_ID (g r) = org_ID r \<and> org_TenantID (g r) = org_TenantID r \<and>
      org_Code (g r) = org_Code r \<and> org_DeletedAt (g r) = org_DeletedAt r \<and>
      org_Path (g r) = org_Path r \<and> org_ParentID (g r) = org_ParentID r" if "r \<in> set (os_orgs s)" for r
    using org_tree_id_eq [OF tree that o0] by (auto simp: g_def o1_def)
  then show ?thesis unfolding eq by (rule org_tree_map_same [OF tree])
qed

lemma scoped_delete_filter:
  assumes "scoped_delete m c w rows = Inr out"
  obtains keep where "out = filter keep rows" "\<And>r. \<not> keep r \<Longrightarrow> w r"
proof (cases "tenant_filter m c")
  case Unfiltered
  show ?thesis by (rule that [of "\<lambda>r. \<not> w r"]) (use assms Unfiltered in \<open>auto simp: scoped_delete_def\<close>)
next
  case ErrNoTenantScope
  with assms show ?thesis by (simp add: scoped_delete_def)
next
  case (Pinned p)
  show ?thesis
    by (rule that [of "\<lambda>r. \<not> (w r \<and> p (tm_get m r))"]) (use assms Pinned in \<open>auto simp: scoped_delete_def\<close>)
qed

lemma DeleteOrg_tree:
  assumes tree: "org_tree (os_orgs s)" and ok: "DeleteOrg flt c i s = Inr s'"
  shows "org_tree (os_orgs s') \<and> set (os_orgs s') \<subseteq> set (os_orgs s)"
proof -
  obtain ms where del: "repoDelete flt c (os_orgs s) (os_members s) i = Inr (os_orgs s', ms)"
    using ok by (auto simp: DeleteOrg_def publish_def split: if_splits sum.splits)
  show ?thesis
  proof (cases "os_orgs s' = os_orgs s")
    case True
    with tree show ?thesis by simp
  next
    case False
    then have "scoped_delete orgModel c (\<lambda>r. org_ID r = i) (os_orgs s) = Inr (os_orgs s')"
      and nochild: "\<And>r. r \<in> set (os_orgs s') \<Longrightarrow> org_ParentID r \<noteq> Some i"
      using del by (auto simp: repoDelete_def dbcall_def bindE_eq_Inr scopedResult_def list_ex_iff
          split: option.splits sum.splits if_splits)
    then obtain keep where k: "os_orgs s' = filter keep (os_orgs s)"
      and only: "\<And>r. \<not> keep r \<Longrightarrow> org_ID r = i"
      using scoped_delete_filter by blast
    have "parentOk (filter keep (os_orgs s)) r" if "r \<in> set (filter keep (os_orgs s))" for r
    proof (cases "org_ParentID r")
      case None
      with that org_tree_root [OF tree] show ?thesis by (simp add: parentOk_def)
    next
      case (Some p)
      have r: "r \<in> set (os_orgs s)" using that by simp
      obtain q where q: "q \<in> set (os_orgs s)" "org_ID q = p" "org_TenantID q = org_TenantID r"
        "org_Path r = org_Path q @ ''.'' @ org_Code r"
        by (rule org_tree_parent [OF tree r Some]) blast
      moreover have "keep q" using only nochild [of r] that k Some q(2) by auto
      ultimately show ?thesis using Some by (auto simp: parentOk_def)
    qed
    then have "org_tree (filter keep (os_orgs s))"
      using tree unfolding org_tree_def by (simp add: distinct_map_filter)
    with k show ?thesis by simp
  qed
qed

section \<open>Moving a subtree\<close>

lemma moveDescendants_position:
  "moveDescendants ByPosition i old new orgs =
     Inr (map (\<lambda>r. if movesRow i old r then r\<lparr>org_Path := new @ drop (length old) (org_Path r)\<rparr> else r) orgs)"
  by (induction orgs) (auto simp: sql_substring_def)

lemma sql_like_same_prefix:
  "CHR ''%'' \<notin> set p \<Longrightarrow> esc \<notin> set p \<Longrightarrow> sql_like q r \<Longrightarrow> sql_like (p @ q) (p @ r)"
  by (induction p) auto

lemma above_extends:
  assumes tree: "org_tree orgs" and ab: "org_above orgs a d"
  shows "d = a \<or> (\<exists>x. org_Path d = org_Path a @ ''.'' @ x)"
  using ab
proof (induction rule: org_above.induct)
  case (above_self r)
  then show ?case by simp
next
  case (above_up a q r)
  have "org_Path r = org_Path q @ ''.'' @ org_Code r"
    using org_tree_parent_of [OF tree above_up(2) _ above_up(3)] org_above_in [OF above_up(1)] by blast
  then show ?case using above_up.IH by auto
qed

lemma above_parent:
  assumes tree: "org_tree orgs" and ab: "org_above orgs a d" and ne: "d \<noteq> a"
  obtains q where "q \<in> set orgs" "org_ParentID d = Some (org_ID q)" "org_above orgs a q"
  using ab ne by (cases rule: org_above.cases) (auto dest: org_above_in)

text \<open>No row outside the subtree of \<open>o'\<close> has a path text that the pattern of \<open>Move\<close> matches.\<close>

definition no_lookalike :: "organization list \<Rightarrow> organization \<Rightarrow> bool" where
  "no_lookalike orgs o' \<longleftrightarrow>
     (\<forall>r \<in> set orgs. sql_like (org_Path o' @ ''.%'') (org_Path r) \<longrightarrow> org_above orgs o' r)"

lemma movesRow_iff:
  assumes tree: "org_tree orgs" and o': "o' \<in> set orgs" and r: "r \<in> set orgs" and nl: "no_lookalike orgs o'"
  shows "movesRow (org_ID o') (org_Path o') r \<longleftrightarrow> org_above orgs o' r \<and> r \<noteq> o'"
proof
  assume "movesRow (org_ID o') (org_Path o') r"
  then show "org_above orgs o' r \<and> r \<noteq> o'"
    using nl r by (auto simp: movesRow_def no_lookalike_def)
next
  assume ab: "org_above orgs o' r \<and> r \<noteq> o'"
  then obtain x where x: "org_Path r = org_Path o' @ ''.'' @ x" using above_extends [OF tree] by blast
  have "sql_like ''.%'' (''.'' @ x)" by (simp add: sql_like_any)
  then have "sql_like (org_Path o' @ ''.%'') (org_Path r)"
    using sql_like_same_prefix path_shape [OF tree o'] x by metis
  then show "movesRow (org_ID o') (org_Path o') r"
    using ab org_tree_id_eq [OF tree r o'] org_tree_live [OF tree r] by (simp add: movesRow_def)
qed

definition movedRow :: "organization \<Rightarrow> id option \<Rightarrow> string \<Rightarrow> organization list \<Rightarrow> organization \<Rightarrow> organization" where
  "movedRow o' np new orgs r =
     (if r = o' then r\<lparr>org_ParentID := np, org_Path := new\<rparr>
      else if org_above orgs o' r then r\<lparr>org_Path := new @ drop (length (org_Path o')) (org_Path r)\<rparr>
      else r)"

lemma movedRow_same [simp]:
  "org_ID (movedRow o' np new orgs r) = org_ID r"
  "org_TenantID (movedRow o' np new orgs r) = org_TenantID r"
  "org_Code (movedRow o' np new orgs r) = org_Code r"
  "org_DeletedAt (movedRow o' np new orgs r) = org_DeletedAt r"
  by (simp_all add: movedRow_def)

lemma movedRow_parent_kept: "r \<noteq> o' \<Longrightarrow> org_ParentID (movedRow o' np new orgs r) = org_ParentID r"
  by (simp add: movedRow_def)

text \<open>A row other than the moved one still extends the path of its parent.\<close>

lemma movedRow_path:
  assumes tree: "org_tree orgs" and q: "q \<in> set orgs" and r: "r \<in> set orgs"
    and par: "org_ParentID r = Some (org_ID q)" and ne: "r \<noteq> o'"
  shows "org_Path (movedRow o' np new orgs r) = org_Path (movedRow o' np new orgs q) @ ''.'' @ org_Code r"
proof -
  have path: "org_Path r = org_Path q @ ''.'' @ org_Code r"
    using org_tree_parent_of [OF tree r q par] by simp
  have ab: "org_above orgs o' r \<longleftrightarrow> org_above orgs o' q"
  proof
    assume "org_above orgs o' r"
    then obtain q' where "q' \<in> set orgs" "org_ParentID r = Some (org_ID q')" "org_above orgs o' q'"
      by (rule above_parent [OF tree _ ne])
    then show "org_above orgs o' q" using par org_tree_id_eq [OF tree _ q] by auto
  qed (use above_up r par in blast)
  show ?thesis
  proof (cases "org_above orgs o' q")
    case True
    then have "q = o' \<or> (\<exists>x. org_Path q = org_Path o' @ ''.'' @ x)" by (rule above_extends [OF tree])
    then show ?thesis using True ab ne path by (auto simp: movedRow_def)
  next
    case False
    then have "q \<noteq> o'" using above_self [OF q] by blast
    with False ab ne path show ?thesis by (simp add: movedRow_def)
  qed
qed

lemma movedRow_tree:
  assumes tree: "org_tree orgs" and o': "o' \<in> set orgs"
    and parent: "(np = None \<and> new = org_Code o') \<or>
      (\<exists>p \<in> set orgs. np = Some (org_ID p) \<and> org_TenantID p = org_TenantID o' \<and> \<not> org_above orgs o' p \<and>
         new = org_Path p @ ''.'' @ org_Code o')"
  shows "org_tree (map (movedRow o' np new orgs) orgs)"
proof (rule org_tree_map [OF tree])
  fix r assume r: "r \<in> set orgs"
  let ?f = "movedRow o' np new orgs"
  show "parentOk (map ?f orgs) (?f r)"
  proof (cases "r = o'")
    case True
    have "parentOk (map ?f orgs) (o'\<lparr>org_ParentID := np, org_Path := new\<rparr>)"
      using parent
    proof
      assume "\<exists>p \<in> set orgs. np = Some (org_ID p) \<and> org_TenantID p = org_TenantID o' \<and> \<not> org_above orgs o' p \<and>
         new = org_Path p @ ''.'' @ org_Code o'"
      then obtain p where p: "p \<in> set orgs" "np = Some (org_ID p)" "org_TenantID p = org_TenantID o'"
        "\<not> org_above orgs o' p" "new = org_Path p @ ''.'' @ org_Code o'" by blast
      then have "?f p = p" using above_self [OF o'] by (auto simp: movedRow_def)
      then have "p \<in> set (map ?f orgs)" using p(1) by (metis imageI set_map)
      then show ?thesis by (rule parentOkI) (use p in simp_all)
    qed (simp add: parentOk_def)
    with True show ?thesis by (simp add: movedRow_def)
  next
    case False
    note keep = movedRow_parent_kept [OF False]
    show ?thesis
    proof (cases "org_ParentID r")
      case None
      have "\<not> org_above orgs o' r" using above_parent [OF tree _ False] None by (metis option.distinct(1))
      with False None show ?thesis using org_tree_root [OF tree r None] by (simp add: movedRow_def parentOk_def)
    next
      case (Some i)
      obtain q where q: "q \<in> set orgs" "org_ID q = i" "org_TenantID q = org_TenantID r"
        by (rule org_tree_parent [OF tree r Some]) blast
      have "?f q \<in> set (map ?f orgs)" using q(1) by simp
      then show ?thesis
        by (rule parentOkI)
          (use movedRow_path [OF tree q(1) r _ False, of np new] q Some keep in simp_all)
    qed
  qed
qed simp

lemma repoMove_pinned:
  assumes tree: "org_tree orgs" and pin: "pinned_to c t" and nl: "no_lookalike orgs o'"
    and f: "fetchOrg flt c orgs i = Inr o'"
    and ok: "repoMove ByPosition flt c orgs i np new = Inr orgs'"
  shows "orgs' = map (movedRow o' np new orgs) orgs"
proof -
  have o': "o' \<in> set orgs" "org_ID o' = i" "org_TenantID o' = t" using fetchOrg_ok [OF pin f] by simp_all
  have g: "repoGetByID flt c orgs i = Inr o'"
    using f by (auto simp: fetchOrg_def split: sum.splits if_splits)
  define u where
    "u = (\<lambda>r :: organization. if (org_ID r = i \<and> org_DeletedAt r = None) \<and> org_TenantID r = t
               then r\<lparr>org_ParentID := np, org_Path := new\<rparr> else r)"
  define v where
    "v = (\<lambda>r :: organization. if movesRow i (org_Path o') r
               then r\<lparr>org_Path := new @ drop (length (org_Path o')) (org_Path r)\<rparr> else r)"
  have upd: "scoped_update orgModel c (\<lambda>r. org_ID r = i \<and> org_DeletedAt r = None)
      (\<lambda>r. r\<lparr>org_ParentID := np, org_Path := new\<rparr>) orgs = Inr (map u orgs)"
    unfolding u_def by (rule scoped_update_pinned [OF pin])
  have mvd: "moveDescendants ByPosition i (org_Path o') new rs = Inr (map v rs)" for rs
    unfolding v_def by (rule moveDescendants_position)
  have eq: "orgs' = map v (map u orgs)"
    using ok g upd mvd [of "map u orgs"] by (auto simp: repoMove_def dbcall_def scopedResult_def split: option.splits)
  have "v (u r) = movedRow o' np new orgs r" if r: "r \<in> set orgs" for r
  proof (cases "r = o'")
    case True
    have "u o' = o'\<lparr>org_ParentID := np, org_Path := new\<rparr>"
      using o' org_tree_live [OF tree o'(1)] by (simp add: u_def)
    moreover have "\<not> movesRow i (org_Path o') (u o')" using o' by (simp add: movesRow_def u_def)
    ultimately show ?thesis using True by (simp add: v_def movedRow_def)
  next
    case False
    then have "u r = r" using org_tree_id_eq [OF tree r o'(1)] o'(2) by (simp add: u_def)
    then show ?thesis
      using movesRow_iff [OF tree o'(1) r nl] o'(2) False by (simp add: v_def movedRow_def)
  qed
  then show ?thesis unfolding eq by simp
qed

lemma cycle_guard:
  assumes tree: "org_tree orgs" and ab: "org_above orgs o' p"
  shows "moveCycle o' p"
proof -
  have "p = o' \<or> (\<exists>x. org_Path p = org_Path o' @ ''.'' @ x)" using above_extends [OF tree ab] .
  then show ?thesis by (auto simp: moveCycle_def HasPrefix_iff)
qed

lemma MoveOrg_tree:
  assumes tree: "org_tree (os_orgs s)" and pin: "pinned_to c t"
    and f: "fetchOrg flt c (os_orgs s) i = Inr o'" and nl: "no_lookalike (os_orgs s) o'"
    and ok: "MoveOrg ByPosition flt c i np s = Inr s'"
  shows "org_tree (os_orgs s') \<and>
    (\<exists>new. os_orgs s' = map (movedRow o' np new (os_orgs s)) (os_orgs s))"
proof -
  have o': "o' \<in> set (os_orgs s)" "org_TenantID o' = t" using fetchOrg_ok [OF pin f] by simp_all
  obtain parent where par: "fetchOptParent flt c (os_orgs s) np = Inr parent"
    and nocyc: "\<forall>p. parent = Some p \<longrightarrow> \<not> moveCycle o' p"
    and mv: "repoMove ByPosition flt c (os_orgs s) i np (childPath parent (org_Code o')) = Inr (os_orgs s')"
    using ok f by (auto simp: MoveOrg_def bindE_eq_Inr publish_def split: if_splits sum.splits option.splits)
  have eq: "os_orgs s' = map (movedRow o' np (childPath parent (org_Code o')) (os_orgs s)) (os_orgs s)"
    by (rule repoMove_pinned [OF tree pin nl f mv])
  have "org_tree (map (movedRow o' np (childPath parent (org_Code o')) (os_orgs s)) (os_orgs s))"
  proof (rule movedRow_tree [OF tree o'(1)])
    show "(np = None \<and> childPath parent (org_Code o') = org_Code o') \<or>
      (\<exists>p \<in> set (os_orgs s). np = Some (org_ID p) \<and> org_TenantID p = org_TenantID o' \<and>
         \<not> org_above (os_orgs s) o' p \<and> childPath parent (org_Code o') = org_Path p @ ''.'' @ org_Code o')"
      using fetchOptParent_ok [OF pin par] nocyc cycle_guard [OF tree] o'(2)
      by (auto simp: childPath_def)
  qed
  with eq show ?thesis by (auto simp del: map_map)
qed

section \<open>The operations as a transition system\<close>

text \<open>A request of tenant \<open>t\<close>: any operation of the service that succeeds, under any database
  faults, for a move with the positional substring and no look-alike path.\<close>

inductive org_step :: "id \<Rightarrow> org_state \<Rightarrow> org_state \<Rightarrow> bool" for t where
  step_create: "pinned_to c t \<Longrightarrow> CreateOrg flt c newID t req s = Inr (r, s') \<Longrightarrow> org_step t s s'"
| step_update: "pinned_to c t \<Longrightarrow> UpdateOrg flt c i ureq s = Inr (r, s') \<Longrightarrow> org_step t s s'"
| step_delete: "pinned_to c t \<Longrightarrow> DeleteOrg flt c i s = Inr s' \<Longrightarrow> org_step t s s'"
| step_move: "pinned_to c t \<Longrightarrow> fetchOrg flt c (os_orgs s) i = Inr o' \<Longrightarrow> no_lookalike (os_orgs s) o' \<Longrightarrow>
     MoveOrg ByPosition flt c i np s = Inr s' \<Longrightarrow> org_step t s s'"
| step_add: "pinned_to c t \<Longrightarrow> AddMember flt c v newID now i u prim s = Inr s' \<Longrightarrow> org_step t s s'"
| step_remove: "pinned_to c t \<Longrightarrow> RemoveMember flt c u i s = Inr s' \<Longrightarrow> org_step t s s'"

lemma member_ops_orgs:
  "AddMember flt c v newID now i u prim s = Inr s' \<Longrightarrow> os_orgs s' = os_orgs s"
  "RemoveMember flt c u i s = Inr s' \<Longrightarrow> os_orgs s' = os_orgs s"
  by (auto simp: AddMember_def RemoveMember_def publish_def bindE_def split: sum.splits)

lemma org_step_tree: "org_step t s s' \<Longrightarrow> org_tree (os_orgs s) \<Longrightarrow> org_tree (os_orgs s')"
  by (induction rule: org_step.induct)
    (auto dest: CreateOrg_tree UpdateOrg_tree DeleteOrg_tree MoveOrg_tree member_ops_orgs)


definition newTeam :: create_org_request where
  "newTeam = \<lparr>co_Name = ''SRE'', co_Code = ''sre'', co_ParentID = Some 4, co_SortOrder = 0\<rparr>"

definition afterCreate :: org_state where
  "afterCreate = (case CreateOrg no_faults (WithTenant None 7) 9 7 newTeam sampleState of
     Inr (_, s) \<Rightarrow> s | Inl _ \<Rightarrow> sampleState)"

lemma afterCreate_step: "org_step 7 sampleState afterCreate"
proof -
  have "isOk (CreateOrg no_faults (WithTenant None 7) 9 7 newTeam sampleState)" by code_simp
  then have "\<exists>r. CreateOrg no_faults (WithTenant None 7) 9 7 newTeam sampleState = Inr (r, afterCreate)"
    unfolding afterCreate_def isOk_def by (auto split: sum.splits)
  then show ?thesis using step_create [of "WithTenant None 7" 7] by auto
qed



definition engOrg :: organization where
  "engOrg = mkOrg 2 7 ''eng'' (Some 1) ''root.eng''"

definition afterMove :: org_state where
  "afterMove = (case MoveOrg ByPosition no_faults (WithTenant None 7) 2 (Some 4) sampleState of
     Inr s \<Rightarrow> s | Inl _ \<Rightarrow> sampleState)"

lemma sample_above:
  "org_above sampleOrgs engOrg (mkOrg 3 7 ''platform'' (Some 2) ''root.eng.platform'')"
  by (rule above_up [OF above_self]) (simp_all add: engOrg_def sampleOrgs_set mkOrg_def)

lemma sample_no_lookalike: "no_lookalike sampleOrgs engOrg"
  using sample_above
  by (auto simp: no_lookalike_def sampleOrgs_set) (simp_all add: engOrg_def mkOrg_def)


lemma fetchOrg_found:
  assumes tree: "org_tree orgs" and pin: "pinned_to c t" and r: "r \<in> set orgs" and ten: "org_TenantID r = t"
  shows "fetchOrg no_faults c orgs (org_ID r) = Inr r"
proof -
  have "filter (\<lambda>q. org_TenantID q = t) (filter (\<lambda>q. org_ID q = org_ID r \<and> org_DeletedAt q = None) orgs) =
      filter (\<lambda>q. q = r) orgs"
    unfolding filter_filter
    by (rule filter_cong) (use org_tree_id_eq [OF tree _ r] org_tree_live [OF tree r] ten in auto)
  moreover have "distinct orgs" using tree by (auto simp: org_tree_def distinct_map)
  then have "filter (\<lambda>q. q = r) orgs = [r]" using r by (simp add: distinct_filter_eq_one)
  ultimately have "scoped_rows orgModel c (filter (\<lambda>q. org_ID q = org_ID r \<and> org_DeletedAt q = None) orgs) = Inr [r]"
    using scoped_rows_pinned [OF pin, of orgModel] by (simp add: orgModel_def)
  then show ?thesis
    by (simp add: fetchOrg_def repoGetByID_def dbcall_def no_faults_def scopedResult_def)
qed

text \<open>
  C15: No cycles. Moving an org under itself or under one of its descendants is refused with
  \<open>ErrOrgCycle\<close>, for every reading of the path-rewriting statement.
\<close>

theorem MoveOrg_refuses_cycle:
  assumes tree: "org_tree (os_orgs s)" and pin: "pinned_to c (org_TenantID o')"
    and ab: "org_above (os_orgs s) o' p"
  shows "MoveOrg ov no_faults c (org_ID o') (Some (org_ID p)) s = Inl ErrOrgCycle"
proof -
  have "o' \<in> set (os_orgs s)" "p \<in> set (os_orgs s)" using org_above_in [OF ab] by simp_all
  then have "fetchOrg no_faults c (os_orgs s) (org_ID o') = Inr o'"
    "fetchOrg no_faults c (os_orgs s) (org_ID p) = Inr p"
    using fetchOrg_found [OF tree pin] above_path [OF tree ab] by simp_all
  then show ?thesis
    using cycle_guard [OF tree ab] by (simp add: MoveOrg_def fetchOptParent_def fetchParentOrg_def)
qed

theorem MoveOrg_refuses_cycle_witness:
  "MoveOrg ByPosition no_faults (WithTenant None 7) 2 (Some 3) sampleState = Inl ErrOrgCycle"
  using MoveOrg_refuses_cycle [of sampleState "WithTenant None 7" engOrg
      "mkOrg 3 7 ''platform'' (Some 2) ''root.eng.platform''" ByPosition] sampleOrgs_tree sample_above
  by (simp add: sampleState_def engOrg_def mkOrg_def)

section \<open>Where the operations go wrong\<close>

text \<open>The pattern of \<open>Move\<close> is built from the raw path. An underscore in a code is a wildcard, so
  moving \<open>root.a_b\<close> also rewrites the subtree of its sibling \<open>root.axb\<close>.\<close>

definition lookalikeState :: org_state where
  "lookalikeState = \<lparr>os_orgs = [mkOrg 1 7 ''root'' None ''root'', mkOrg 2 7 ''a_b'' (Some 1) ''root.a_b'',
     mkOrg 3 7 ''axb'' (Some 1) ''root.axb'', mkOrg 4 7 ''kid'' (Some 3) ''root.axb.kid'',
     mkOrg 5 7 ''ops'' (Some 1) ''root.ops''], os_members = [], os_events = []\<rparr>"

definition lookalikeMoved :: "organization list" where
  "lookalikeMoved = [mkOrg 1 7 ''root'' None ''root'', mkOrg 2 7 ''a_b'' (Some 5) ''root.ops.a_b'',
     mkOrg 3 7 ''axb'' (Some 1) ''root.axb'', mkOrg 4 7 ''kid'' (Some 3) ''root.ops.a_b.kid'',
     mkOrg 5 7 ''ops'' (Some 1) ''root.ops'']"


text \<open>The offset is sent as text. Under the pattern overload of \<open>SUBSTRING\<close> it is searched for in
  the path, so a descendant whose path does not contain that number makes the whole move fail.\<close>

lemma moveDescendants_pattern_fails:
  assumes "r \<in> set orgs" and "movesRow i old r" and "\<not> Contains (org_Path r) (nat_dec (length old + 1))"
  shows "moveDescendants ByPattern i old new orgs = Inl (PgError ''23502'' ''path'')"
  using assms
proof (induction orgs)
  case (Cons q orgs)
  show ?case
  proof (cases "r \<in> set orgs")
    case True
    with Cons show ?thesis by (auto simp: sql_substring_def)
  next
    case False
    with Cons.prems show ?thesis by (simp add: sql_substring_def)
  qed
qed simp

lemma MoveOrg_pattern_overload_fails:
  "MoveOrg ByPattern no_faults (WithTenant None 7) 2 (Some 4) sampleState = Inl (ErrOrgDb (PgError ''23502'' ''path''))"
  by code_simp

text \<open>
  C16: \<open>Delete\<close> never looks the org up: for an id the tenant does not own, the scoped statements match
  nothing, no row changes, and \<open>Delete\<close> succeeds and publishes \<open>OrgDeleted\<close> all the same.
\<close>

theorem DeleteOrg_foreign_publishes:
  assumes pin: "pinned_to c t" and i: "i \<noteq> RootOrgID"
    and foreign: "\<forall>r \<in> set (os_orgs s). org_ID r = i \<or> org_ParentID r = Some i \<longrightarrow> org_TenantID r \<noteq> t"
  shows "DeleteOrg no_faults c i s = Inr (s\<lparr>os_events := os_events s @ [OrgDeleted i]\<rparr>)"
proof -
  have "filter (\<lambda>r. org_TenantID r = t) (filter (\<lambda>r. org_ParentID r = Some i \<and> org_DeletedAt r = None) (os_orgs s)) = []"
    using foreign by (auto simp: filter_empty_conv)
  then have kids: "repoGetChildren no_faults c (os_orgs s) i = Inr []"
    using scoped_rows_pinned [OF pin, of orgModel]
    by (simp add: repoGetChildren_def dbcall_def no_faults_def scopedResult_def orgModel_def)
  have "filter (\<lambda>r. \<not> (org_ID r = i \<and> org_TenantID r = t)) (os_orgs s) = os_orgs s"
    using foreign by (auto simp: filter_id_conv)
  then have "scoped_delete orgModel c (\<lambda>r. org_ID r = i) (os_orgs s) = Inr (os_orgs s)"
    using tenant_filter_pinned [OF pin, of orgModel] by (simp add: scoped_delete_def orgModel_def)
  then have "repoDelete no_faults c (os_orgs s) (os_members s) i = Inr (os_orgs s, os_members s)"
    by (simp add: repoDelete_def dbcall_def no_faults_def scopedResult_def)
  with kids i show ?thesis by (simp add: DeleteOrg_def publish_def)
qed

theorem DeleteOrg_foreign_publishes_witness:
  "DeleteOrg no_faults (WithTenant None 8) 3 sampleState = Inr (sampleState\<lparr>os_events := [OrgDeleted 3]\<rparr>)"
  using DeleteOrg_foreign_publishes [of "WithTenant None 8" 8 3 sampleState]
  by (simp add: sampleState_def sampleOrgs_set RootOrgID_def) (simp add: mkOrg_def)

end
