(* ===== verification/Gateway.thy ===== *)
theory Gateway
  imports Authz TenantScope
begin

text \<open>
  The request path in front of the console handlers: the deny-by-default gateway with its route
  registry (\<open>pkg/authz/gateway.go\<close>), the permission middlewares \<open>Require\<close> and \<open>RequireAny\<close>
  (\<open>pkg/authz/middleware.go\<close>) and the tenant override \<open>TenantContext\<close>
  (\<open>internal/middleware/tenant.go\<close>). A middleware maps the registry and the request to the new
  registry and either a response that aborts the chain or the request passed on.
\<close>

section \<open>The route registry\<close>

record route_registry =
  rr_protected :: "string \<rightharpoonup> string"
  rr_allow :: "string \<Rightarrow> bool"
  rr_allowPfx :: "string list"

definition emptyRegistry :: route_registry where
  "emptyRegistry = \<lparr>rr_protected = Map.empty, rr_allow = (\<lambda>_. False), rr_allowPfx = []\<rparr>"

definition routeKey :: "string \<Rightarrow> string \<Rightarrow> string" where
  "routeKey method fullPath = method @ '' '' @ fullPath"

definition Protect :: "string \<Rightarrow> string \<Rightarrow> string \<Rightarrow> route_registry \<Rightarrow> route_registry" where
  "Protect method fullPath perm r = r\<lparr>rr_protected := (rr_protected r)(routeKey method fullPath \<mapsto> perm)\<rparr>"

definition AllowPublic :: "string \<Rightarrow> string \<Rightarrow> route_registry \<Rightarrow> route_registry" where
  "AllowPublic method fullPath r = r\<lparr>rr_allow := (rr_allow r)(routeKey method fullPath := True)\<rparr>"

definition AllowPublicPrefix :: "string \<Rightarrow> route_registry \<Rightarrow> route_registry" where
  "AllowPublicPrefix prefix r = r\<lparr>rr_allowPfx := rr_allowPfx r @ [prefix]\<rparr>"

definition requestRegister :: "string \<Rightarrow> string \<Rightarrow> string \<Rightarrow> route_registry \<Rightarrow> route_registry" where
  "requestRegister method fullPath perm r =
     (if fullPath = [] then r
      else case rr_protected r (routeKey method fullPath) of
        Some _ \<Rightarrow> r
      | None \<Rightarrow> r\<lparr>rr_protected := (rr_protected r)(routeKey method fullPath \<mapsto> perm)\<rparr>)"

definition isAllowed :: "route_registry \<Rightarrow> string \<Rightarrow> string \<Rightarrow> bool" where
  "isAllowed r method fullPath =
     (if rr_allow r (routeKey method fullPath) then True
      else list_ex (\<lambda>p. HasPrefix fullPath p) (rr_allowPfx r))"

definition isProtected :: "route_registry \<Rightarrow> string \<Rightarrow> string \<Rightarrow> bool" where
  "isProtected r method fullPath = (rr_protected r (routeKey method fullPath) \<noteq> None)"

definition IsRegistered :: "route_registry \<Rightarrow> string \<Rightarrow> string \<Rightarrow> bool" where
  "IsRegistered r method fullPath = (isAllowed r method fullPath \<or> isProtected r method fullPath)"

section \<open>Requests and responses\<close>

text \<open>What the middlewares read of a request: the route, the \<open>X-Tenant-ID\<close> header already parsed
  (\<open>None\<close> absent, \<open>Some None\<close> not a number), the context keys and the isolation scope. The authz
  service stored under \<open>CtxAuthzKey\<close> may be nil or missing.\<close>

record 'e request =
  rq_method :: string
  rq_fullPath :: string
  rq_tenantHeader :: "id option option"
  rq_userID :: "id option"
  rq_tenantID :: "id option"
  rq_sessionTenantID :: "id option"
  rq_svc :: "'e authz_service option"
  rq_ctx :: ctx

datatype abort = Forbidden403 | Unauthorized401 | Internal500 | BadRequest400

type_synonym 'e outcome = "abort + 'e request"

section \<open>The gateway\<close>

record gateway_config =
  gc_AuditOnly :: bool

definition Gateway :: "gateway_config \<Rightarrow> route_registry \<Rightarrow> 'e request \<Rightarrow> 'e outcome" where
  "Gateway cfg r rq =
     (let fp = rq_fullPath rq; method = rq_method rq in
      if fp = [] then Inr rq
      else if isAllowed r method fp then Inr rq
      else if isProtected r method fp then Inr rq
      else if gc_AuditOnly cfg then Inr rq
      else Inl Forbidden403)"

section \<open>Permission middlewares\<close>

definition FromContext :: "'e request \<Rightarrow> 'e authz_service option" where
  "FromContext rq = rq_svc rq"

definition tenantIDFromCtx :: "'e request \<Rightarrow> id" where
  "tenantIDFromCtx rq = (case rq_tenantID rq of None \<Rightarrow> 0 | Some i \<Rightarrow> i)"

definition userIDFromCtx :: "'e request \<Rightarrow> id" where
  "userIDFromCtx rq = (case rq_userID rq of None \<Rightarrow> 0 | Some i \<Rightarrow> i)"

type_synonym 'e scope_fn = "'e request \<Rightarrow> scope_target option"

definition scopeOf :: "'e scope_fn option \<Rightarrow> 'e request \<Rightarrow> scope_target option" where
  "scopeOf scopeFn rq = (case scopeFn of None \<Rightarrow> None | Some f \<Rightarrow> f rq)"

definition Require ::
  "'e casbin_lib \<Rightarrow> time \<Rightarrow> string \<Rightarrow> 'e scope_fn option \<Rightarrow> route_registry \<Rightarrow> 'e request \<Rightarrow>
   route_registry \<times> 'e outcome" where
  "Require lib now perm scopeFn r rq =
     (requestRegister (rq_method rq) (rq_fullPath rq) perm r,
      case FromContext rq of
        None \<Rightarrow> Inl Internal500
      | Some svc \<Rightarrow>
          (if userIDFromCtx rq = 0 then Inl Unauthorized401
           else case Check lib svc now (tenantIDFromCtx rq) (userIDFromCtx rq) perm (scopeOf scopeFn rq) of
             Inl _ \<Rightarrow> Inl Internal500
           | Inr ok \<Rightarrow> if \<not> ok then Inl Forbidden403 else Inr rq))"

fun anyLoop ::
  "'e casbin_lib \<Rightarrow> 'e authz_service \<Rightarrow> time \<Rightarrow> id \<Rightarrow> id \<Rightarrow> scope_target option \<Rightarrow> 'e request \<Rightarrow>
   string list \<Rightarrow> 'e outcome" where
  "anyLoop lib svc now tid uid target rq [] = Inl Forbidden403"
| "anyLoop lib svc now tid uid target rq (p # ps) =
     (case Check lib svc now tid uid p target of
        Inl _ \<Rightarrow> Inl Internal500
      | Inr ok \<Rightarrow> if ok then Inr rq else anyLoop lib svc now tid uid target rq ps)"

definition RequireAny ::
  "'e casbin_lib \<Rightarrow> time \<Rightarrow> string list \<Rightarrow> 'e scope_fn option \<Rightarrow> route_registry \<Rightarrow> 'e request \<Rightarrow>
   route_registry \<times> 'e outcome" where
  "RequireAny lib now perms scopeFn r rq =
     (requestRegister (rq_method rq) (rq_fullPath rq) [] r,
      case FromContext rq of
        None \<Rightarrow> Inl Internal500
      | Some svc \<Rightarrow>
          (if userIDFromCtx rq = 0 then Inl Unauthorized401
           else anyLoop lib svc now (tenantIDFromCtx rq) (userIDFromCtx rq) (scopeOf scopeFn rq) rq perms))"

section \<open>The tenant override\<close>

text \<open>The header is empty (absent), not a positive number, or a tenant id.\<close>

definition TenantContext :: "'e casbin_lib \<Rightarrow> time \<Rightarrow> 'e request \<Rightarrow> 'e outcome" where
  "TenantContext lib now rq0 =
     (let rq = (case rq_tenantID rq0 of
                  Some v \<Rightarrow> rq0\<lparr>rq_sessionTenantID := Some v\<rparr> | None \<Rightarrow> rq0) in
      case rq_tenantHeader rq of
        None \<Rightarrow> Inr rq
      | Some None \<Rightarrow> Inl BadRequest400
      | Some (Some tid) \<Rightarrow>
          if tid \<le> 0 then Inl BadRequest400
          else case FromContext rq of
            None \<Rightarrow> Inl Internal500
          | Some svc \<Rightarrow>
              (let stid = (case rq_sessionTenantID rq of None \<Rightarrow> 0 | Some i \<Rightarrow> i) in
               case Check lib svc now stid (userIDFromCtx rq) ''*'' None of
                 Inl _ \<Rightarrow> Inl Forbidden403
               | Inr ok \<Rightarrow>
                   if \<not> ok then Inl Forbidden403
                   else Inr (rq\<lparr>rq_tenantID := Some tid, rq_ctx := WithTenant (rq_ctx rq) tid\<rparr>)))"

section \<open>What passes\<close>

lemma anyLoop_passes:
  "anyLoop lib svc now tid uid target rq ps = Inr rq' \<Longrightarrow>
     rq' = rq \<and> (\<exists>p \<in> set ps. Check lib svc now tid uid p target = Inr True)"
  by (induction ps) (auto split: sum.splits if_splits)

lemma requestRegister_keeps:
  "rr_protected r k = Some p \<Longrightarrow> rr_protected (requestRegister m fp perm r) k = Some p"
  by (auto simp: requestRegister_def split: option.splits)

lemma requestRegister_protects: "fp \<noteq> [] \<Longrightarrow> isProtected (requestRegister m fp perm r) m fp"
  by (auto simp: requestRegister_def isProtected_def split: option.splits)

lemma requestRegister_allow [simp]:
  "isAllowed (requestRegister m fp perm r) m' fp' = isAllowed r m' fp'"
  by (simp add: isAllowed_def requestRegister_def split: option.split)

lemma requestRegister_other:
  "routeKey m' fp' \<noteq> routeKey m fp \<Longrightarrow>
     isProtected (requestRegister m fp perm r) m' fp' = isProtected r m' fp'"
  by (auto simp: requestRegister_def isProtected_def split: option.splits)

text \<open>Two routes have the same key only when method and path agree, as a method has no space.\<close>

lemma routeKey_inject:
  "CHR '' '' \<notin> set m \<Longrightarrow> CHR '' '' \<notin> set m' \<Longrightarrow> routeKey m fp = routeKey m' fp' \<longleftrightarrow> m = m' \<and> fp = fp'"
  using split_at_separator [of m "CHR '' ''" fp m' fp'] by (auto simp: routeKey_def)

lemma Gateway_passes_iff:
  "Gateway cfg r rq = Inr rq' \<longleftrightarrow>
     rq' = rq \<and> (rq_fullPath rq = [] \<or> IsRegistered r (rq_method rq) (rq_fullPath rq) \<or> gc_AuditOnly cfg)"
  by (auto simp: Gateway_def IsRegistered_def Let_def)

lemma Require_passes:
  "snd (Require lib now perm scopeFn r rq) = Inr rq' \<longleftrightarrow>
     rq' = rq \<and> (\<exists>svc. rq_svc rq = Some svc \<and> userIDFromCtx rq \<noteq> 0 \<and>
       Check lib svc now (tenantIDFromCtx rq) (userIDFromCtx rq) perm (scopeOf scopeFn rq) = Inr True)"
  by (auto simp: Require_def FromContext_def split: option.splits sum.splits)

text \<open>A console request: the gateway, then the route's own \<open>Require\<close>.\<close>

definition consoleRoute ::
  "gateway_config \<Rightarrow> 'e casbin_lib \<Rightarrow> time \<Rightarrow> string \<Rightarrow> 'e scope_fn option \<Rightarrow> route_registry \<Rightarrow> 'e request \<Rightarrow>
   route_registry \<times> 'e outcome" where
  "consoleRoute cfg lib now perm scopeFn r rq =
     (case Gateway cfg r rq of
        Inl a \<Rightarrow> (r, Inl a)
      | Inr rq1 \<Rightarrow> Require lib now perm scopeFn r rq1)"


text \<open>
  C7: A gated handler runs only for an authorised caller. If the middlewares \<open>Gateway\<close> and \<open>Require\<close>
  hand a request to the handler, the caller is authenticated and \<open>Check\<close> answered "allow" for the
  declared permission on the target of the request, in the caller's tenant; a missing service, a
  missing user, a failing check and a denial all abort.
\<close>

theorem consoleRoute_authorised:
  "snd (consoleRoute cfg lib now perm scopeFn r rq) = Inr rq' \<longleftrightarrow>
     rq' = rq \<and>
     (rq_fullPath rq = [] \<or> IsRegistered r (rq_method rq) (rq_fullPath rq) \<or> gc_AuditOnly cfg) \<and>
     (\<exists>svc uid. rq_svc rq = Some svc \<and> rq_userID rq = Some uid \<and> uid \<noteq> 0 \<and>
        Check lib svc now (case rq_tenantID rq of None \<Rightarrow> 0 | Some t \<Rightarrow> t) uid perm
          (case scopeFn of None \<Rightarrow> None | Some f \<Rightarrow> f rq) = Inr True)"
proof (cases "Gateway cfg r rq")
  case (Inl a)
  then show ?thesis using Gateway_passes_iff [of cfg r rq rq] by (auto simp: consoleRoute_def)
next
  case (Inr rq1)
  then have g: "rq1 = rq"
    "rq_fullPath rq = [] \<or> IsRegistered r (rq_method rq) (rq_fullPath rq) \<or> gc_AuditOnly cfg"
    unfolding Gateway_passes_iff by blast+
  have eq: "snd (consoleRoute cfg lib now perm scopeFn r rq) = snd (Require lib now perm scopeFn r rq)"
    using Inr g by (simp add: consoleRoute_def)
  show ?thesis
    unfolding eq Require_passes tenantIDFromCtx_def userIDFromCtx_def scopeOf_def
    using g(2) by (cases "rq_userID rq") auto
qed

text \<open>
  C9: \<open>RequireAny\<close> never widens access: it passes a request only if one of the listed permissions is
  allowed, and with an empty list nobody passes.
\<close>

theorem RequireAny_passes_only_allowed:
  assumes "snd (RequireAny lib now perms scopeFn r rq) = Inr rq'"
  shows "rq' = rq \<and> (\<exists>svc p. rq_svc rq = Some svc \<and> userIDFromCtx rq \<noteq> 0 \<and> p \<in> set perms \<and>
    Check lib svc now (tenantIDFromCtx rq) (userIDFromCtx rq) p (scopeOf scopeFn rq) = Inr True)"
  using assms
  by (auto simp: RequireAny_def FromContext_def split: option.splits if_splits dest: anyLoop_passes)

text \<open>A concrete request of an administrator of tenant 7 who holds \<open>user.read\<close>.\<close>

definition wildcardService :: "string set \<Rightarrow> unit authz_service" where
  "wildcardService perms = \<lparr>as_bindings = Some (\<lambda>t u. Inr (if t = 7 \<and> u = 9 then
       [\<lparr>eb_RoleID = 5, eb_Permissions = perms, eb_Source = ''direct'', eb_SourceID = u,
         eb_ScopeType = ScopeGlobal, eb_ScopeID = 0, eb_ExpiresAt = None\<rparr>] else [])),
     as_orgTree = None, as_casbin = None\<rparr>"

definition sampleRequest :: "string set \<Rightarrow> unit request" where
  "sampleRequest perms = \<lparr>rq_method = ''GET'', rq_fullPath = ''/users'', rq_tenantHeader = Some (Some 8),
     rq_userID = Some 9, rq_tenantID = Some 7, rq_sessionTenantID = None,
     rq_svc = Some (wildcardService perms), rq_ctx = WithTenant None 7\<rparr>"

lemmas sample_check = sampleRequest_def wildcardService_def Check_def bindingExpired_def
  bindingGrantsPerm_def hasPermission_def scopeCovers_def userIDFromCtx_def tenantIDFromCtx_def

theorem RequireAny_passes_only_allowed_witness:
  "\<forall>lib. \<exists>svc p. rq_svc (sampleRequest {''user.read''}) = Some svc \<and> p \<in> {''user.write'', ''user.read''} \<and>
     Check lib svc 0 7 9 p None = Inr True"
proof
  fix lib
  have "snd (RequireAny lib 0 [''user.write'', ''user.read''] None emptyRegistry (sampleRequest {''user.read''}))
      = Inr (sampleRequest {''user.read''})"
    by (simp add: RequireAny_def FromContext_def sample_check scopeOf_def)
  from RequireAny_passes_only_allowed [OF this]
  show "\<exists>svc p. rq_svc (sampleRequest {''user.read''}) = Some svc \<and> p \<in> {''user.write'', ''user.read''} \<and>
     Check lib svc 0 7 9 p None = Inr True"
    by (auto simp: sampleRequest_def userIDFromCtx_def tenantIDFromCtx_def scopeOf_def)
qed

text \<open>
  C10: Escaping the own tenant needs the wildcard. If \<open>TenantContext\<close> hands a request on with a tenant
  other than the session's, the header named that positive tenant and the caller holds the wildcard
  permission in the session's tenant; the data layer is then pinned to the named tenant. Without
  the header tenant and scope stay as they are.
\<close>

theorem TenantContext_override:
  "TenantContext lib now rq = Inr rq' \<longleftrightarrow>
     (let home = (case rq_tenantID rq of None \<Rightarrow> rq_sessionTenantID rq | Some t \<Rightarrow> Some t) in
      (rq_tenantHeader rq = None \<and> rq' = rq\<lparr>rq_sessionTenantID := home\<rparr>) \<or>
      (\<exists>tid svc. rq_tenantHeader rq = Some (Some tid) \<and> 0 < tid \<and> rq_svc rq = Some svc \<and>
         Check lib svc now (case home of None \<Rightarrow> 0 | Some t \<Rightarrow> t) (userIDFromCtx rq) ''*'' None = Inr True \<and>
         pinned_to (rq_ctx rq') tid \<and>
         rq' = rq\<lparr>rq_sessionTenantID := home, rq_tenantID := Some tid, rq_ctx := WithTenant (rq_ctx rq) tid\<rparr>))"
proof -
  have keep: "rq\<lparr>rq_sessionTenantID := rq_sessionTenantID rq\<rparr> = rq" by simp
  have uid: "userIDFromCtx (rq\<lparr>rq_sessionTenantID := x\<rparr>) = userIDFromCtx rq" for x
    by (simp add: userIDFromCtx_def)
  show ?thesis
    by (cases "rq_tenantID rq"; cases "rq_tenantHeader rq")
      (auto simp: TenantContext_def Let_def FromContext_def uid split: option.splits sum.splits if_splits)
qed

end
