(* ===== verification/AuthzBindings.thy ===== *)
theory AuthzBindings
  imports OrgTree Gateway
begin

text \<open>
  The adapters that feed the permission engine from the database (\<open>app/adapters_authz.go\<close>): the
  effective bindings of a user, resolved over direct, group and org bindings, the policy loader of
  the Casbin engine, and which domain events invalidate the cache or rebuild the policies. The
  tables are lists of rows with the columns the queries use; a query that fails is named in the
  fault predicate.
\<close>

section \<open>Tables\<close>

record user_row =
  ur_ID :: id
  ur_TenantID :: id
  ur_IsSuperAdmin :: bool
  ur_Deleted :: bool

record role_row =
  rr_ID :: id
  rr_TenantID :: id
  rr_Deleted :: bool

record role_binding_row =
  rb_RoleID :: id
  rb_SubjectType :: string
  rb_SubjectID :: id
  rb_ScopeType :: "string option"
  rb_ScopeID :: "id option"
  rb_Status :: int
  rb_ExpiresAt :: "time option"

record group_row =
  gr_ID :: id
  gr_TenantID :: id
  gr_Deleted :: bool

record authz_db =
  db_users :: "user_row list"
  db_roles :: "role_row list"
  db_bindings :: "role_binding_row list"
  db_rolePerms :: "(id \<times> id) list"
  db_permissions :: "(id \<times> string) list"
  db_groups :: "group_row list"
  db_groupMembers :: "(id \<times> id) list"
  db_orgs :: org_state

text \<open>The queries that fail.\<close>

type_synonym query_faults = "string \<Rightarrow> bool"

section \<open>Effective bindings\<close>

definition groupListByUserID :: "query_faults \<Rightarrow> authz_db \<Rightarrow> id \<Rightarrow> id \<Rightarrow> unit + id list" where
  "groupListByUserID fl db tenantID userID =
     (if fl ''groups'' then Inl ()
      else Inr [gr_ID g. g \<leftarrow> db_groups db, (gid, uid) \<leftarrow> db_groupMembers db,
                  gid = gr_ID g \<and> uid = userID \<and> gr_TenantID g = tenantID \<and> \<not> gr_Deleted g])"

definition GroupIDsForUser :: "query_faults \<Rightarrow> authz_db \<Rightarrow> id \<Rightarrow> id \<Rightarrow> unit + id list" where
  "GroupIDsForUser = groupListByUserID"

text \<open>\<open>v, _ := f()\<close> on a list: the error is dropped and the slice is nil.\<close>

definition orEmpty :: "unit + 'a list \<Rightarrow> 'a list" where
  "orEmpty r = (case r of Inl _ \<Rightarrow> [] | Inr xs \<Rightarrow> xs)"

definition isSuperAdminRow :: "authz_db \<Rightarrow> id \<Rightarrow> id \<Rightarrow> bool" where
  "isSuperAdminRow db tenantID userID =
     list_ex (\<lambda>u. ur_ID u = userID \<and> ur_TenantID u = tenantID \<and> \<not> ur_Deleted u \<and> ur_IsSuperAdmin u) (db_users db)"

definition subjectMatches :: "id \<Rightarrow> id list \<Rightarrow> id list \<Rightarrow> role_binding_row \<Rightarrow> bool" where
  "subjectMatches userID groupIDs orgIDs b =
     (rb_SubjectType b = ''user'' \<and> rb_SubjectID b = userID
      \<or> 0 < length groupIDs \<and> rb_SubjectType b = ''group'' \<and> rb_SubjectID b \<in> set groupIDs
      \<or> 0 < length orgIDs \<and> rb_SubjectType b = ''org'' \<and> rb_SubjectID b \<in> set orgIDs)"

definition bindingLive :: "time \<Rightarrow> role_binding_row \<Rightarrow> bool" where
  "bindingLive now b =
     (rb_Status b = 1 \<and> (case rb_ExpiresAt b of None \<Rightarrow> True | Some e \<Rightarrow> now < e))"

definition sourceOf :: "string \<Rightarrow> string" where
  "sourceOf subjectType =
     (if subjectType = ''user'' then ''direct'' else if subjectType = ''group'' then ''group''
      else if subjectType = ''org'' then ''org'' else ''direct'')"

record binding_query_row =
  bq_RoleID :: id
  bq_ScopeType :: "string option"
  bq_ScopeID :: "id option"
  bq_Source :: string
  bq_SourceID :: id
  bq_ExpiresAt :: "time option"

definition selectRow :: "role_binding_row \<Rightarrow> binding_query_row" where
  "selectRow b =
     \<lparr>bq_RoleID = rb_RoleID b, bq_ScopeType = rb_ScopeType b, bq_ScopeID = rb_ScopeID b,
      bq_Source = sourceOf (rb_SubjectType b), bq_SourceID = rb_SubjectID b,
      bq_ExpiresAt = rb_ExpiresAt b\<rparr>"

definition bindingRows :: "time \<Rightarrow> id \<Rightarrow> id \<Rightarrow> id list \<Rightarrow> id list \<Rightarrow> authz_db \<Rightarrow> binding_query_row list" where
  "bindingRows now tenantID userID groupIDs orgIDs db =
     remdups [selectRow b.
        b \<leftarrow> db_bindings db,
        r \<leftarrow> db_roles db,
        rr_ID r = rb_RoleID b \<and> rr_TenantID r = tenantID \<and> \<not> rr_Deleted r,
        bindingLive now b \<and> subjectMatches userID groupIDs orgIDs b]"

text \<open>The codes of a role, from the query whose error is dropped.\<close>

definition codesByRole :: "query_faults \<Rightarrow> authz_db \<Rightarrow> id \<Rightarrow> string set" where
  "codesByRole fl db roleID =
     (if fl ''permRows'' then {}
      else {code. \<exists>pid. (roleID, pid) \<in> set (db_rolePerms db) \<and> (pid, code) \<in> set (db_permissions db)})"

definition toBinding :: "query_faults \<Rightarrow> authz_db \<Rightarrow> binding_query_row \<Rightarrow> effective_binding" where
  "toBinding fl db r =
     \<lparr>eb_RoleID = bq_RoleID r, eb_Permissions = codesByRole fl db (bq_RoleID r),
      eb_Source = bq_Source r, eb_SourceID = bq_SourceID r,
      eb_ScopeType = (case bq_ScopeType r of None \<Rightarrow> [] | Some s \<Rightarrow> s),
      eb_ScopeID = (case bq_ScopeID r of None \<Rightarrow> 0 | Some i \<Rightarrow> i),
      eb_ExpiresAt = bq_ExpiresAt r\<rparr>"

definition EffectiveBindingsForUser ::
  "query_faults \<Rightarrow> org_faults \<Rightarrow> time \<Rightarrow> authz_db \<Rightarrow> binding_provider" where
  "EffectiveBindingsForUser fl oflt now db tenantID userID =
     (if fl ''superAdmin'' then Inl ()
      else if isSuperAdminRow db tenantID userID then
        Inr [\<lparr>eb_RoleID = 0, eb_Permissions = {''*''}, eb_Source = ''super_admin'', eb_SourceID = userID,
              eb_ScopeType = [], eb_ScopeID = 0, eb_ExpiresAt = None\<rparr>]
      else
        let groupIDs = orEmpty (groupListByUserID fl db tenantID userID);
            orgIDs = orEmpty (AncestorIDsForUser oflt (db_orgs db) tenantID userID)
        in if fl ''bindings'' then Inl ()
           else Inr (map (toBinding fl db) (bindingRows now tenantID userID groupIDs orgIDs db)))"

section \<open>The policy loader\<close>

definition LoadPolicies :: "query_faults \<Rightarrow> authz_db \<Rightarrow> unit + role_policy list \<times> id list" where
  "LoadPolicies fl db =
     (if fl ''grants'' then Inl ()
      else
        let policies = [\<lparr>rp_TenantID = rr_TenantID r, rp_RoleID = rid, rp_Permission = code\<rparr>.
              (rid, pid) \<leftarrow> db_rolePerms db,
              r \<leftarrow> db_roles db, rr_ID r = rid \<and> \<not> rr_Deleted r,
              (pid', code) \<leftarrow> db_permissions db, pid' = pid]
        in if fl ''superTenants'' then Inl ()
           else Inr (policies, remdups (map ur_TenantID
                  (filter (\<lambda>u. ur_IsSuperAdmin u \<and> \<not> ur_Deleted u) (db_users db)))))"

section \<open>Event wiring\<close>

text \<open>The payload of an event as the handlers read it: the ids under \<open>tenant_id\<close>, \<open>user_id\<close> and
  \<open>target_id\<close> (0 when absent or of another type), or \<open>None\<close> when it is not a map.\<close>

record event_payload =
  ep_tenant :: id
  ep_user :: id
  ep_target :: id

datatype cache_action = ActNone | ActInvalidateAll | ActInvalidate id id

definition invalidateUserFromPayload :: "event_payload option \<Rightarrow> cache_action" where
  "invalidateUserFromPayload p =
     (case p of
        None \<Rightarrow> ActInvalidateAll
      | Some m \<Rightarrow> if ep_user m = 0 then ActInvalidateAll else ActInvalidate (ep_tenant m) (ep_user m))"

definition invalidateTargetFromPayload :: "event_payload option \<Rightarrow> cache_action" where
  "invalidateTargetFromPayload p =
     (case p of
        None \<Rightarrow> ActInvalidateAll
      | Some m \<Rightarrow> if ep_target m = 0 then ActInvalidateAll else ActInvalidate (ep_tenant m) (ep_target m))"

datatype domain_event =
    RoleCreated | RoleUpdated | RoleDeleted | RolePermissionsSet | RoleMemberAdded | RoleMemberRemoved
  | GroupMemberAddedE | GroupMemberRemovedE | OrgMemberAddedE | OrgMemberRemovedE
  | UserSuperAdminGrant | UserSuperAdminRevoke | UserUpdated | UserLocked | UserUnlocked | UserDeleted
  | OrgCreatedE | OrgUpdatedE | OrgDeletedE | OrgMovedE

definition wireAuthzCacheInvalidation :: "domain_event \<Rightarrow> event_payload option \<Rightarrow> cache_action" where
  "wireAuthzCacheInvalidation e p =
     (if e \<in> {RoleCreated, RoleUpdated, RoleDeleted, RolePermissionsSet} then ActInvalidateAll
      else if e \<in> {RoleMemberAdded, RoleMemberRemoved, GroupMemberAddedE, GroupMemberRemovedE,
                   OrgMemberAddedE, OrgMemberRemovedE} then invalidateUserFromPayload p
      else if e \<in> {UserSuperAdminGrant, UserSuperAdminRevoke} then invalidateTargetFromPayload p
      else if e \<in> {UserUpdated, UserLocked, UserUnlocked, UserDeleted} then invalidateUserFromPayload p
      else if e \<in> {OrgUpdatedE, OrgDeletedE} then ActInvalidateAll
      else ActNone)"

definition wireCasbinSync :: "domain_event \<Rightarrow> bool" where
  "wireCasbinSync e =
     (e \<in> {RoleCreated, RoleUpdated, RoleDeleted, RolePermissionsSet, UserSuperAdminGrant,
           UserSuperAdminRevoke, UserDeleted})"

section \<open>The enforcer and the inline check agree\<close>

text \<open>No role has id 0, the id of the synthesized super-admin binding.\<close>

definition role_keys :: "authz_db \<Rightarrow> bool" where
  "role_keys db \<longleftrightarrow> list_all (\<lambda>r. rr_ID r \<noteq> 0) (db_roles db)"

lemma LoadPolicies_mem:
  assumes "LoadPolicies fl db = Inr (ps, ts)"
  shows "\<lparr>rp_TenantID = t, rp_RoleID = rid, rp_Permission = code\<rparr> \<in> set ps \<longleftrightarrow>
    (\<exists>r pid. r \<in> set (db_roles db) \<and> rr_ID r = rid \<and> rr_TenantID r = t \<and> \<not> rr_Deleted r \<and>
       (rid, pid) \<in> set (db_rolePerms db) \<and> (pid, code) \<in> set (db_permissions db))"
proof -
  have "ps = [\<lparr>rp_TenantID = rr_TenantID r, rp_RoleID = rid, rp_Permission = code\<rparr>.
              (rid, pid) \<leftarrow> db_rolePerms db,
              r \<leftarrow> db_roles db, rr_ID r = rid \<and> \<not> rr_Deleted r,
              (pid', code) \<leftarrow> db_permissions db, pid' = pid]"
    using assms by (simp add: LoadPolicies_def Let_def split: if_splits)
  then show ?thesis by (auto simp: Bex_def split: if_splits)
qed

lemma LoadPolicies_policy:
  assumes "LoadPolicies fl db = Inr (ps, ts)"
  shows "(\<exists>p \<in> set ps. rp_TenantID p = t \<and> rp_RoleID p = rid \<and> rp_Permission p = code) \<longleftrightarrow>
    (\<exists>r pid. r \<in> set (db_roles db) \<and> rr_ID r = rid \<and> rr_TenantID r = t \<and> \<not> rr_Deleted r \<and>
       (rid, pid) \<in> set (db_rolePerms db) \<and> (pid, code) \<in> set (db_permissions db))"
proof -
  have "(\<exists>p \<in> set ps. rp_TenantID p = t \<and> rp_RoleID p = rid \<and> rp_Permission p = code) \<longleftrightarrow>
      \<lparr>rp_TenantID = t, rp_RoleID = rid, rp_Permission = code\<rparr> \<in> set ps"
  proof
    assume "\<exists>p \<in> set ps. rp_TenantID p = t \<and> rp_RoleID p = rid \<and> rp_Permission p = code"
    then obtain p where p: "p \<in> set ps" "rp_TenantID p = t" "rp_RoleID p = rid" "rp_Permission p = code" by blast
    have "p = \<lparr>rp_TenantID = t, rp_RoleID = rid, rp_Permission = code\<rparr>" using p(2-4) by (cases p) simp
    with p(1) show "\<lparr>rp_TenantID = t, rp_RoleID = rid, rp_Permission = code\<rparr> \<in> set ps" by simp
  next
    assume "\<lparr>rp_TenantID = t, rp_RoleID = rid, rp_Permission = code\<rparr> \<in> set ps"
    then show "\<exists>p \<in> set ps. rp_TenantID p = t \<and> rp_RoleID p = rid \<and> rp_Permission p = code"
      by (rule bexI [rotated]) simp
  qed
  then show ?thesis unfolding LoadPolicies_mem [OF assms] .
qed

lemma LoadPolicies_super:
  assumes "LoadPolicies fl db = Inr (ps, ts)"
  shows "t \<in> set ts \<longleftrightarrow> (\<exists>u \<in> set (db_users db). ur_TenantID u = t \<and> ur_IsSuperAdmin u \<and> \<not> ur_Deleted u)"
  using assms by (auto simp: LoadPolicies_def Let_def split: if_splits)

definition roleLive :: "authz_db \<Rightarrow> id \<Rightarrow> id \<Rightarrow> bool" where
  "roleLive db t rid \<longleftrightarrow> list_ex (\<lambda>r. rr_ID r = rid \<and> rr_TenantID r = t \<and> \<not> rr_Deleted r) (db_roles db)"

lemma bindingRows_set:
  "set (bindingRows now t u gs os db) =
     selectRow ` {b \<in> set (db_bindings db). bindingLive now b \<and> roleLive db t (rb_RoleID b) \<and> subjectMatches u gs os b}"
  by (auto simp: bindingRows_def roleLive_def list_ex_iff image_iff split: if_splits)

lemma bindingRows_role:
  assumes "q \<in> set (bindingRows now t u gs os db)"
  shows "roleLive db t (bq_RoleID q)"
  using assms by (auto simp: bindingRows_set selectRow_def)

lemma effective_cases:
  assumes "EffectiveBindingsForUser fl oflt now db t u = Inr binds" and "b \<in> set binds"
  shows "(isSuperAdminRow db t u \<and> eb_RoleID b = 0 \<and> eb_Permissions b = {''*''} \<and> eb_ScopeType b = []) \<or>
    (\<exists>q. \<not> isSuperAdminRow db t u \<and> b = toBinding fl db q \<and>
      q \<in> set (bindingRows now t u (orEmpty (groupListByUserID fl db t u))
          (orEmpty (AncestorIDsForUser oflt (db_orgs db) t u)) db))"
proof (cases "isSuperAdminRow db t u")
  case True
  with assms show ?thesis by (auto simp: EffectiveBindingsForUser_def split: if_splits)
next
  case False
  then have "binds = map (toBinding fl db) (bindingRows now t u (orEmpty (groupListByUserID fl db t u))
      (orEmpty (AncestorIDsForUser oflt (db_orgs db) t u)) db)"
    using assms(1) by (simp add: EffectiveBindingsForUser_def Let_def split: if_splits)
  with False assms(2) show ?thesis by auto
qed

text \<open>
  C3: Casbin and the inline check agree. When the enforcer was rebuilt from the same database, then for
  every binding the provider returns for a user and every permission, asking the enforcer for the
  binding's role gives the same answer as looking the permission up in the binding's own set, super
  administrators included.
\<close>

theorem casbin_agrees_with_inline:
  assumes rb: "casbin_rbac lib grp pol" and tot: "\<forall>e s d v. isOk (enforce lib e s d v)"
    and keys: "role_keys db"
    and sync: "Sync lib c (LoadPolicies fl db) = (None, c')"
    and binds: "EffectiveBindingsForUser fl oflt now db t u = Inr binds" and noerr: "\<not> fl ''permRows''"
    and b: "b \<in> set binds" and perm: "perm \<noteq> []"
  shows "RoleHasPermission lib c' t (bindingRoleSubject b) perm = hasPermission (eb_Permissions b) perm"
proof -
  obtain ps ts where load: "LoadPolicies fl db = Inr (ps, ts)" and rep: "ReplacePolicies lib c ps ts = (None, c')"
    using sync by (auto simp: Sync_def split: sum.splits)
  from effective_cases [OF binds b] show ?thesis
  proof
    assume super: "isSuperAdminRow db t u \<and> eb_RoleID b = 0 \<and> eb_Permissions b = {''*''} \<and> eb_ScopeType b = []"
    then have "t \<in> set ts"
      using LoadPolicies_super [OF load] by (auto simp: isSuperAdminRow_def list_ex_iff)
    then show ?thesis
      using super ReplacePolicies_super [OF rb tot rep] by (simp add: bindingRoleSubject_def hasPermission_def)
  next
    assume "\<exists>q. \<not> isSuperAdminRow db t u \<and> b = toBinding fl db q \<and>
      q \<in> set (bindingRows now t u (orEmpty (groupListByUserID fl db t u))
          (orEmpty (AncestorIDsForUser oflt (db_orgs db) t u)) db)"
    then obtain q where bound: "b = toBinding fl db q" "q \<in> set (bindingRows now t u
        (orEmpty (groupListByUserID fl db t u)) (orEmpty (AncestorIDsForUser oflt (db_orgs db) t u)) db)" by blast
    obtain r where r: "r \<in> set (db_roles db)" "rr_ID r = bq_RoleID q" "rr_TenantID r = t" "\<not> rr_Deleted r"
      using bindingRows_role [OF bound(2)] unfolding roleLive_def list_ex_iff by blast
    have id: "eb_RoleID b = rr_ID r" "eb_Permissions b = codesByRole fl db (rr_ID r)"
      using bound(1) r(2) by (simp_all add: toBinding_def)
    have "eb_RoleID b \<noteq> 0" using keys r(1) id by (simp add: role_keys_def list_all_iff)
    then have sub: "bindingRoleSubject b = roleSubject (rr_ID r)" using id by (simp add: bindingRoleSubject_def)
    have code: "(\<exists>p \<in> set ps. rp_TenantID p = t \<and> rp_RoleID p = rr_ID r \<and> rp_Permission p = v) \<longleftrightarrow>
        v \<in> eb_Permissions b" for v
      unfolding LoadPolicies_policy [OF load] id(2) codesByRole_def using r noerr by simp blast
    have "RoleHasPermission lib c' t (roleSubject (rr_ID r)) perm \<longleftrightarrow> perm \<in> eb_Permissions b \<or> ''*'' \<in> eb_Permissions b"
      unfolding ReplacePolicies_role [OF rb tot rep perm] using code [of perm] code [of "''*''"] by auto
    then show ?thesis unfolding sub by (auto simp: hasPermission_def)
  qed
qed

definition sampleAuthzDb :: authz_db where
  "sampleAuthzDb = \<lparr>
     db_users = [\<lparr>ur_ID = 9, ur_TenantID = 7, ur_IsSuperAdmin = False, ur_Deleted = False\<rparr>,
                 \<lparr>ur_ID = 10, ur_TenantID = 7, ur_IsSuperAdmin = True, ur_Deleted = False\<rparr>],
     db_roles = [\<lparr>rr_ID = 5, rr_TenantID = 7, rr_Deleted = False\<rparr>],
     db_bindings = [\<lparr>rb_RoleID = 5, rb_SubjectType = ''org'', rb_SubjectID = 1, rb_ScopeType = None,
                     rb_ScopeID = None, rb_Status = 1, rb_ExpiresAt = None\<rparr>],
     db_rolePerms = [(5, 1)], db_permissions = [(1, ''user.read'')],
     db_groups = [], db_groupMembers = [],
     db_orgs = sampleState\<lparr>os_members := [\<lparr>uo_ID = 1, uo_UserID = 9, uo_OrgID = 3, uo_IsPrimary = True,
       uo_CreatedAt = 0\<rparr>]\<rparr>\<rparr>"

definition engineStart :: "list_enforcer casbin_engine" where
  "engineStart = \<lparr>ce_e = None, ce_adapter = False, ce_saved = None\<rparr>"

definition engineSynced :: "list_enforcer casbin_engine" where
  "engineSynced = snd (Sync list_casbin engineStart (LoadPolicies (\<lambda>_. False) sampleAuthzDb))"

lemma engineSynced_ok: "Sync list_casbin engineStart (LoadPolicies (\<lambda>_. False) sampleAuthzDb) = (None, engineSynced)"
proof -
  have "fst (Sync list_casbin engineStart (LoadPolicies (\<lambda>_. False) sampleAuthzDb)) = None"
    by (simp add: Sync_def LoadPolicies_def sampleAuthzDb_def ReplacePolicies_def newSyncedEnforcer_def
        list_casbin_def addSelf_def engineStart_def Let_def)
  then show ?thesis unfolding engineSynced_def by (metis prod.collapse)
qed

definition sampleBinding :: effective_binding where
  "sampleBinding = \<lparr>eb_RoleID = 5, eb_Permissions = {''user.read''}, eb_Source = ''org'', eb_SourceID = 1,
     eb_ScopeType = [], eb_ScopeID = 0, eb_ExpiresAt = None\<rparr>"

lemma sample_ancestors: "AncestorIDsForUser no_faults (db_orgs sampleAuthzDb) 7 9 = Inr [1, 2, 3]"
  by code_simp

lemma sample_bindings:
  "EffectiveBindingsForUser (\<lambda>_. False) no_faults 0 sampleAuthzDb 7 9 = Inr [sampleBinding]"
proof -
  have "isSuperAdminRow sampleAuthzDb 7 9 = False" by (simp add: isSuperAdminRow_def sampleAuthzDb_def)
  moreover have "bindingRows 0 7 9 [] [1, 2, 3] sampleAuthzDb =
      [\<lparr>bq_RoleID = 5, bq_ScopeType = None, bq_ScopeID = None, bq_Source = ''org'', bq_SourceID = 1, bq_ExpiresAt = None\<rparr>]"
    by (simp add: bindingRows_def sampleAuthzDb_def selectRow_def bindingLive_def subjectMatches_def sourceOf_def)
  moreover have "orEmpty (groupListByUserID (\<lambda>_. False) sampleAuthzDb 7 9) = []"
    by (simp add: orEmpty_def groupListByUserID_def sampleAuthzDb_def)
  moreover have "codesByRole (\<lambda>_. False) sampleAuthzDb 5 = {''user.read''}"
    by (auto simp: codesByRole_def sampleAuthzDb_def)
  ultimately show ?thesis
    by (simp add: EffectiveBindingsForUser_def sample_ancestors orEmpty_def toBinding_def sampleBinding_def)
qed

theorem casbin_agrees_with_inline_witness:
  "RoleHasPermission list_casbin engineSynced 7 (bindingRoleSubject sampleBinding) ''user.read'' \<and>
   \<not> RoleHasPermission list_casbin engineSynced 7 (bindingRoleSubject sampleBinding) ''user.write''"
proof -
  have "role_keys sampleAuthzDb" by (simp add: role_keys_def sampleAuthzDb_def)
  note agree = casbin_agrees_with_inline [OF list_casbin_rbac list_casbin_total this engineSynced_ok sample_bindings,
      of sampleBinding]
  show ?thesis using agree [of "''user.read''"] agree [of "''user.write''"]
    by (simp add: sampleBinding_def hasPermission_def)
qed

section \<open>Where bindings come from\<close>

text \<open>The user's memberships are in orgs of the tenant.\<close>

definition members_in_tenant :: "org_state \<Rightarrow> id \<Rightarrow> id \<Rightarrow> bool" where
  "members_in_tenant s t u \<longleftrightarrow>
     list_all (\<lambda>m. uo_UserID m \<noteq> u \<or> list_all (\<lambda>r. org_ID r \<noteq> uo_OrgID m \<or> org_TenantID r = t) (os_orgs s)) (os_members s)"

lemma AncestorIDs_mem:
  assumes "AncestorIDsForUser no_faults s t u = Inr ids"
  shows "i \<in> set ids \<longleftrightarrow> (\<exists>m \<in> set (os_members s). \<exists>d \<in> set (os_orgs s). \<exists>a \<in> set (os_orgs s).
    uo_UserID m = u \<and> org_ID d = uo_OrgID m \<and> org_DeletedAt d = None \<and> ltree_below (org_Path d) (org_Path a) \<and>
    org_DeletedAt a = None \<and> org_TenantID a = t \<and> org_ID a = i)"
proof -
  have "ids = remdups [org_ID o2. m \<leftarrow> os_members s, uo_UserID m = u,
             o1 \<leftarrow> os_orgs s, org_ID o1 = uo_OrgID m \<and> org_DeletedAt o1 = None,
             o2 \<leftarrow> os_orgs s, ltree_below (org_Path o1) (org_Path o2) \<and> org_DeletedAt o2 = None
                        \<and> org_TenantID o2 = t]"
    using assms by (simp add: AncestorIDsForUser_def repoAncestorIDsForUser_def no_faults_def)
  then have "set ids = (\<Union>m \<in> {m \<in> set (os_members s). uo_UserID m = u}.
      \<Union>d \<in> {d \<in> set (os_orgs s). org_ID d = uo_OrgID m \<and> org_DeletedAt d = None}.
        org_ID ` {a \<in> set (os_orgs s). ltree_below (org_Path d) (org_Path a) \<and> org_DeletedAt a = None \<and> org_TenantID a = t})"
    by (auto split: if_splits)
  then show ?thesis by (simp only: UN_iff image_iff mem_Collect_eq Bex_def) fast
qed

lemma AncestorIDs_parent_chain:
  assumes tree: "org_tree (os_orgs s)" and mem: "members_in_tenant s t u"
    and ids: "AncestorIDsForUser no_faults s t u = Inr ids"
  shows "i \<in> set ids \<longleftrightarrow> (\<exists>m \<in> set (os_members s). \<exists>d a. uo_UserID m = u \<and> org_ID d = uo_OrgID m \<and>
    org_above (os_orgs s) a d \<and> org_ID a = i)"
proof -
  have "i \<in> set ids \<longleftrightarrow> (\<exists>m \<in> set (os_members s). \<exists>d \<in> set (os_orgs s). \<exists>a \<in> set (os_orgs s).
      uo_UserID m = u \<and> org_ID d = uo_OrgID m \<and> ltree_below (org_Path d) (org_Path a) \<and> org_TenantID a = t \<and> org_ID a = i)"
    using AncestorIDs_mem [OF ids] org_tree_live [OF tree] by metis
  also have "\<dots> \<longleftrightarrow> (\<exists>m \<in> set (os_members s). \<exists>d a. uo_UserID m = u \<and> org_ID d = uo_OrgID m \<and>
      org_above (os_orgs s) a d \<and> org_ID a = i)"
  proof -
    have "(d \<in> set (os_orgs s) \<and> a \<in> set (os_orgs s) \<and> ltree_below (org_Path d) (org_Path a) \<and> org_TenantID a = t)
        \<longleftrightarrow> org_above (os_orgs s) a d" if "m \<in> set (os_members s)" "uo_UserID m = u" "org_ID d = uo_OrgID m" for m d a
    proof -
      have ten: "org_TenantID d = t" if "d \<in> set (os_orgs s)"
        using mem that \<open>m \<in> set (os_members s)\<close> \<open>uo_UserID m = u\<close> \<open>org_ID d = uo_OrgID m\<close>
        by (auto simp: members_in_tenant_def list_all_iff)
      show ?thesis
        using below_iff_above [OF tree] above_path [OF tree] org_above_in ten by metis
    qed
    then show ?thesis by metis
  qed
  finally show ?thesis .
qed

text \<open>The subjects whose bindings a user inherits: the user, a live group of the tenant they are in, an
  org at or above one they are a member of.\<close>

definition inherits :: "authz_db \<Rightarrow> id \<Rightarrow> id \<Rightarrow> role_binding_row \<Rightarrow> bool" where
  "inherits db t u b \<longleftrightarrow>
     (rb_SubjectType b = ''user'' \<and> rb_SubjectID b = u) \<or>
     (rb_SubjectType b = ''group'' \<and> (\<exists>g \<in> set (db_groups db). gr_ID g = rb_SubjectID b \<and> gr_TenantID g = t \<and>
        \<not> gr_Deleted g \<and> (gr_ID g, u) \<in> set (db_groupMembers db))) \<or>
     (rb_SubjectType b = ''org'' \<and> (\<exists>m \<in> set (os_members (db_orgs db)). \<exists>d a. uo_UserID m = u \<and>
        org_ID d = uo_OrgID m \<and> org_above (os_orgs (db_orgs db)) a d \<and> org_ID a = rb_SubjectID b))"

lemma subjectMatches_inherits:
  assumes tree: "org_tree (os_orgs (db_orgs db))" and mem: "members_in_tenant (db_orgs db) t u"
  shows "subjectMatches u (orEmpty (groupListByUserID (\<lambda>_. False) db t u))
    (orEmpty (AncestorIDsForUser no_faults (db_orgs db) t u)) b \<longleftrightarrow> inherits db t u b"
proof -
  obtain ids where ids: "AncestorIDsForUser no_faults (db_orgs db) t u = Inr ids"
    by (simp add: AncestorIDsForUser_def repoAncestorIDsForUser_def no_faults_def)
  have ne: "0 < length xs \<and> P \<and> i \<in> set xs \<longleftrightarrow> P \<and> i \<in> set xs" for P i and xs :: "id list" by auto
  have grp: "i \<in> set (orEmpty (groupListByUserID (\<lambda>_. False) db t u)) \<longleftrightarrow> (\<exists>g \<in> set (db_groups db). gr_ID g = i \<and>
      gr_TenantID g = t \<and> \<not> gr_Deleted g \<and> (gr_ID g, u) \<in> set (db_groupMembers db))" for i
    by (force simp: orEmpty_def groupListByUserID_def)
  show ?thesis
    unfolding subjectMatches_def inherits_def ne
    unfolding grp
    unfolding ids orEmpty_def sum.case AncestorIDs_parent_chain [OF tree mem ids] by blast
qed

text \<open>
  C4: The effective bindings of a user are exactly the inherited ones. For a user who is not a super
  administrator, over a well-formed org tree and working queries, the provider returns the live bindings
  of live roles of the tenant whose subject is the user, a group of the tenant they belong to, or an org
  at or above one they belong to, and nothing else.
\<close>

theorem effective_bindings_exact:
  assumes tree: "org_tree (os_orgs (db_orgs db))" and mem: "members_in_tenant (db_orgs db) t u"
    and ns: "\<not> isSuperAdminRow db t u"
  shows "\<exists>binds. EffectiveBindingsForUser (\<lambda>_. False) no_faults now db t u = Inr binds \<and>
    set binds = (\<lambda>b. toBinding (\<lambda>_. False) db (selectRow b)) ` {b \<in> set (db_bindings db).
      rb_Status b = 1 \<and> (case rb_ExpiresAt b of None \<Rightarrow> True | Some e \<Rightarrow> now < e) \<and> roleLive db t (rb_RoleID b) \<and> inherits db t u b}"
  using ns
  by (simp add: EffectiveBindingsForUser_def Let_def bindingRows_set subjectMatches_inherits [OF tree mem] image_image bindingLive_def conj_assoc)

theorem effective_bindings_exact_witness:
  "\<exists>binds. EffectiveBindingsForUser (\<lambda>_. False) no_faults 0 sampleAuthzDb 7 9 = Inr binds \<and>
    set binds = (\<lambda>b. toBinding (\<lambda>_. False) sampleAuthzDb (selectRow b)) ` {b \<in> set (db_bindings sampleAuthzDb).
      rb_Status b = 1 \<and> (case rb_ExpiresAt b of None \<Rightarrow> True | Some e \<Rightarrow> 0 < e) \<and> roleLive sampleAuthzDb 7 (rb_RoleID b) \<and> inherits sampleAuthzDb 7 9 b} \<and>
    binds \<noteq> []"
proof -
  have "org_tree (os_orgs (db_orgs sampleAuthzDb))"
    using sampleOrgs_tree by (simp add: sampleAuthzDb_def sampleState_def)
  moreover have "members_in_tenant (db_orgs sampleAuthzDb) 7 9" by code_simp
  moreover have "\<not> isSuperAdminRow sampleAuthzDb 7 9" by code_simp
  ultimately show ?thesis
    using effective_bindings_exact [of sampleAuthzDb 7 9 0] sample_bindings by auto
qed

section \<open>The tenant override locks the super administrator out\<close>

text \<open>
  C18: After a tenant override the super-admin flag no longer counts. The flag is read from the user row of
  the tenant asked about; a user without a row in the override tenant and without bindings there is
  answered 403 by every \<open>Require\<close> of the request that \<open>TenantContext\<close> let through.
\<close>

theorem override_then_denied:
  assumes svc: "as_bindings svc = Some (EffectiveBindingsForUser (\<lambda>_. False) oflt now db)"
    and rq: "rq_svc rq = Some svc" "rq_tenantID rq = Some tid" "rq_userID rq = Some uid" "uid \<noteq> 0" "perm \<noteq> []"
    and home: "list_all (\<lambda>r. ur_ID r \<noteq> uid \<or> ur_TenantID r \<noteq> tid) (db_users db)"
    and none: "list_all (\<lambda>b. \<not> subjectMatches uid (orEmpty (groupListByUserID (\<lambda>_. False) db tid uid))
        (orEmpty (AncestorIDsForUser oflt (db_orgs db) tid uid)) b) (db_bindings db)"
  shows "snd (Require lib now perm scopeFn reg rq) = Inl Forbidden403"
proof -
  have "\<not> isSuperAdminRow db tid uid" using home by (auto simp: isSuperAdminRow_def list_ex_iff list_all_iff)
  moreover have "set (bindingRows now tid uid (orEmpty (groupListByUserID (\<lambda>_. False) db tid uid))
      (orEmpty (AncestorIDsForUser oflt (db_orgs db) tid uid)) db) = {}"
    using none by (auto simp: bindingRows_set list_all_iff)
  ultimately have "EffectiveBindingsForUser (\<lambda>_. False) oflt now db tid uid = Inr []"
    by (simp add: EffectiveBindingsForUser_def Let_def)
  then show ?thesis
    using svc rq by (simp add: Require_def FromContext_def Check_def userIDFromCtx_def tenantIDFromCtx_def)
qed

definition overrideService :: "unit authz_service" where
  "overrideService = \<lparr>as_bindings = Some (EffectiveBindingsForUser (\<lambda>_. False) no_faults 0 sampleAuthzDb),
     as_orgTree = None, as_casbin = None\<rparr>"

definition overrideRequest :: "unit request" where
  "overrideRequest = \<lparr>rq_method = ''GET'', rq_fullPath = ''/users'', rq_tenantHeader = Some (Some 8),
     rq_userID = Some 10, rq_tenantID = Some 7, rq_sessionTenantID = None,
     rq_svc = Some overrideService, rq_ctx = WithTenant None 7\<rparr>"

theorem override_then_denied_witness:
  "\<forall>lib. \<exists>rq. TenantContext lib 0 overrideRequest = Inr rq \<and> rq_tenantID rq = Some 8 \<and>
     snd (Require lib 0 ''user.read'' None emptyRegistry rq) = Inl Forbidden403"
proof
  fix lib
  let ?rq = "overrideRequest\<lparr>rq_sessionTenantID := Some 7, rq_tenantID := Some 8, rq_ctx := WithTenant (WithTenant None 7) 8\<rparr>"
  have "isSuperAdminRow sampleAuthzDb 7 10" by code_simp
  then have "TenantContext lib 0 overrideRequest = Inr ?rq"
    by (simp add: TenantContext_def overrideRequest_def overrideService_def FromContext_def Check_def
        EffectiveBindingsForUser_def userIDFromCtx_def bindingExpired_def bindingGrantsPerm_def hasPermission_def
        scopeCovers_def)
  moreover have "snd (Require lib 0 ''user.read'' None emptyRegistry ?rq) = Inl Forbidden403"
  proof (rule override_then_denied)
    show "as_bindings overrideService = Some (EffectiveBindingsForUser (\<lambda>_. False) no_faults 0 sampleAuthzDb)"
      by (simp add: overrideService_def)
    show "list_all (\<lambda>r. ur_ID r \<noteq> 10 \<or> ur_TenantID r \<noteq> 8) (db_users sampleAuthzDb)" by (simp add: sampleAuthzDb_def)
    show "list_all (\<lambda>b. \<not> subjectMatches 10 (orEmpty (groupListByUserID (\<lambda>_. False) sampleAuthzDb 8 10))
        (orEmpty (AncestorIDsForUser no_faults (db_orgs sampleAuthzDb) 8 10)) b) (db_bindings sampleAuthzDb)"
      by code_simp
  qed (simp_all add: overrideRequest_def)
  ultimately show "\<exists>rq. TenantContext lib 0 overrideRequest = Inr rq \<and> rq_tenantID rq = Some 8 \<and>
     snd (Require lib 0 ''user.read'' None emptyRegistry rq) = Inl Forbidden403" by auto
qed

end
