(* ===== verification/Redis.thy ===== *)
theory Redis
  imports Prelude
begin

text \<open>
  The Redis server as the sources see it. The server is not part of the repository: its commands
  are the fields of a record the components take as an argument, and what they rely on are the law
  predicates below, the documented effect of each command. A law speaks of the content of the
  server through \<open>rd_view\<close>, the stored entries with their expiry deadline. A command may fail; a
  failed write may or may not have taken effect. Instants and TTLs are nanoseconds.
\<close>

section \<open>Commands\<close>

type_synonym 'v store = "string \<rightharpoonup> 'v \<times> time option"

definition live :: "'v store \<Rightarrow> time \<Rightarrow> string \<Rightarrow> 'v option" where
  "live m now k =
     (case m k of
        None \<Rightarrow> None
      | Some (v, None) \<Rightarrow> Some v
      | Some (v, Some e) \<Rightarrow> if now < e then Some v else None)"

text \<open>The time an entry has left: \<open>None\<close> when absent, \<open>Some None\<close> when it does not expire.\<close>

definition remaining :: "'v store \<Rightarrow> time \<Rightarrow> string \<Rightarrow> dur option option" where
  "remaining m now k =
     (case m k of
        None \<Rightarrow> None
      | Some (v, None) \<Rightarrow> Some None
      | Some (v, Some e) \<Rightarrow> if now < e then Some (Some (e - now)) else None)"

record ('r, 'v) redis =
  rd_view :: "'r \<Rightarrow> 'v store"
  rd_get :: "'r \<Rightarrow> time \<Rightarrow> string \<Rightarrow> unit + 'v option"
  rd_set :: "'r \<Rightarrow> time \<Rightarrow> string \<Rightarrow> 'v \<Rightarrow> dur \<Rightarrow> bool \<times> 'r"
  rd_del :: "'r \<Rightarrow> time \<Rightarrow> string list \<Rightarrow> bool \<times> 'r"

text \<open>Values that are counters: \<open>INCR\<close>, \<open>(P)EXPIRE\<close>, \<open>SET NX PX\<close>, \<open>TTL\<close> and \<open>PTTL\<close>. The last two
  answer \<open>-2\<close> for an absent key and \<open>-1\<close> for a key without expiry.\<close>

record 'r redis_counters = "('r, int) redis" +
  rd_incr :: "'r \<Rightarrow> time \<Rightarrow> string \<Rightarrow> (unit + int) \<times> 'r"
  rd_expire :: "'r \<Rightarrow> time \<Rightarrow> string \<Rightarrow> dur \<Rightarrow> bool \<times> 'r"
  rd_setnx :: "'r \<Rightarrow> time \<Rightarrow> string \<Rightarrow> int \<Rightarrow> dur \<Rightarrow> bool \<times> 'r"
  rd_ttl :: "'r \<Rightarrow> time \<Rightarrow> string \<Rightarrow> unit + dur"
  rd_pttl :: "'r \<Rightarrow> time \<Rightarrow> string \<Rightarrow> unit + int"

text \<open>Per-user index sets: \<open>SADD\<close>, \<open>SREM\<close>, \<open>SMEMBERS\<close>, \<open>EXPIRE\<close> and \<open>DEL\<close> on set keys.\<close>

record ('r, 'v) redis_sets = "('r, 'v) redis" +
  rd_sets :: "'r \<Rightarrow> string list store"
  rd_sadd :: "'r \<Rightarrow> time \<Rightarrow> string \<Rightarrow> string \<Rightarrow> bool \<times> 'r"
  rd_srem :: "'r \<Rightarrow> time \<Rightarrow> string \<Rightarrow> string \<Rightarrow> bool \<times> 'r"
  rd_smembers :: "'r \<Rightarrow> time \<Rightarrow> string \<Rightarrow> unit + string list"
  rd_sexpire :: "'r \<Rightarrow> time \<Rightarrow> string \<Rightarrow> dur \<Rightarrow> bool \<times> 'r"
  rd_sdel :: "'r \<Rightarrow> time \<Rightarrow> string \<Rightarrow> bool \<times> 'r"

section \<open>Effects\<close>

text \<open>The effect of a write: done when acknowledged, done or not when it failed.\<close>

definition effect :: "bool \<Rightarrow> 'm \<Rightarrow> 'm \<Rightarrow> 'm \<Rightarrow> bool" where
  "effect ok before after result \<longleftrightarrow> result = after \<or> (\<not> ok \<and> result = before)"

definition redis_laws :: "('r, 'v, 'z) redis_scheme \<Rightarrow> bool" where
  "redis_laws rd \<longleftrightarrow>
     (\<forall>r now k x. rd_get rd r now k = Inr x \<longrightarrow> x = live (rd_view rd r) now k) \<and>
     (\<forall>r now k v ttl ok r'. rd_set rd r now k v ttl = (ok, r') \<longrightarrow>
        effect ok (rd_view rd r) ((rd_view rd r)(k \<mapsto> (v, Some (now + ttl)))) (rd_view rd r')) \<and>
     (\<forall>r now ks ok r'. rd_del rd r now ks = (ok, r') \<longrightarrow>
        effect ok (rd_view rd r) (rd_view rd r |` (- set ks)) (rd_view rd r'))"

definition incr_value :: "int store \<Rightarrow> time \<Rightarrow> string \<Rightarrow> int" where
  "incr_value m now k = (case live m now k of None \<Rightarrow> 1 | Some n \<Rightarrow> n + 1)"

definition incr_store :: "int store \<Rightarrow> time \<Rightarrow> string \<Rightarrow> int store" where
  "incr_store m now k =
     m(k \<mapsto> (incr_value m now k, case remaining m now k of Some (Some d) \<Rightarrow> Some (now + d) | _ \<Rightarrow> None))"

definition expire_store :: "'v store \<Rightarrow> time \<Rightarrow> string \<Rightarrow> dur \<Rightarrow> 'v store" where
  "expire_store m now k d = (case live m now k of None \<Rightarrow> m | Some v \<Rightarrow> m(k \<mapsto> (v, Some (now + d))))"

definition setnx_store :: "'v store \<Rightarrow> time \<Rightarrow> string \<Rightarrow> 'v \<Rightarrow> dur \<Rightarrow> 'v store" where
  "setnx_store m now k v d = (case live m now k of None \<Rightarrow> m(k \<mapsto> (v, Some (now + d))) | Some _ \<Rightarrow> m)"

text \<open>\<open>TTL\<close> answers in whole seconds, less than a second off; \<open>PTTL\<close> in milliseconds, less than one
  off.\<close>

definition ttl_answer :: "dur \<Rightarrow> 'v store \<Rightarrow> time \<Rightarrow> string \<Rightarrow> int \<Rightarrow> bool" where
  "ttl_answer unit_len m now k t \<longleftrightarrow>
     (case remaining m now k of
        None \<Rightarrow> t = - 2
      | Some None \<Rightarrow> t = - 1
      | Some (Some d) \<Rightarrow> 0 \<le> t \<and> abs (t * unit_len - d) < unit_len)"

definition redis_counter_laws :: "('r, 'z) redis_counters_scheme \<Rightarrow> bool" where
  "redis_counter_laws rd \<longleftrightarrow>
     (\<forall>r now k res r'. rd_incr rd r now k = (res, r') \<longrightarrow>
        effect (isOk res) (rd_view rd r) (incr_store (rd_view rd r) now k) (rd_view rd r') \<and>
        (\<forall>n. res = Inr n \<longrightarrow> n = incr_value (rd_view rd r) now k)) \<and>
     (\<forall>r now k d ok r'. rd_expire rd r now k d = (ok, r') \<longrightarrow>
        effect ok (rd_view rd r) (expire_store (rd_view rd r) now k d) (rd_view rd r')) \<and>
     (\<forall>r now k v d ok r'. rd_setnx rd r now k v d = (ok, r') \<longrightarrow>
        effect ok (rd_view rd r) (setnx_store (rd_view rd r) now k v d) (rd_view rd r')) \<and>
     (\<forall>r now k t. rd_ttl rd r now k = Inr t \<longrightarrow>
        (\<exists>n. ttl_answer Second (rd_view rd r) now k n \<and> t = (if 0 \<le> n then n * Second else n))) \<and>
     (\<forall>r now k t. rd_pttl rd r now k = Inr t \<longrightarrow> ttl_answer Millisecond (rd_view rd r) now k t)"

definition sadd_store :: "string list store \<Rightarrow> time \<Rightarrow> string \<Rightarrow> string \<Rightarrow> string list store" where
  "sadd_store m now k x =
     (case live m now k of
        None \<Rightarrow> m(k \<mapsto> ([x], None))
      | Some xs \<Rightarrow> m(k \<mapsto> (List.insert x xs, snd (the (m k)))))"

definition srem_store :: "string list store \<Rightarrow> time \<Rightarrow> string \<Rightarrow> string \<Rightarrow> string list store" where
  "srem_store m now k x =
     (case live m now k of None \<Rightarrow> m | Some xs \<Rightarrow> m(k \<mapsto> (filter (\<lambda>y. y \<noteq> x) xs, snd (the (m k)))))"

text \<open>Set keys and value keys are different keys, so neither kind of command changes the other.\<close>

definition redis_set_laws :: "('r, 'v, 'z) redis_sets_scheme \<Rightarrow> bool" where
  "redis_set_laws rd \<longleftrightarrow>
     (\<forall>r now k v ttl. rd_sets rd (snd (rd_set rd r now k v ttl)) = rd_sets rd r) \<and>
     (\<forall>r now ks. rd_sets rd (snd (rd_del rd r now ks)) = rd_sets rd r) \<and>
     (\<forall>r now k x ok r'. rd_sadd rd r now k x = (ok, r') \<longrightarrow> rd_view rd r' = rd_view rd r \<and>
        effect ok (rd_sets rd r) (sadd_store (rd_sets rd r) now k x) (rd_sets rd r')) \<and>
     (\<forall>r now k x ok r'. rd_srem rd r now k x = (ok, r') \<longrightarrow> rd_view rd r' = rd_view rd r \<and>
        effect ok (rd_sets rd r) (srem_store (rd_sets rd r) now k x) (rd_sets rd r')) \<and>
     (\<forall>r now k xs. rd_smembers rd r now k = Inr xs \<longrightarrow>
        set xs = (case live (rd_sets rd r) now k of None \<Rightarrow> {} | Some ys \<Rightarrow> set ys)) \<and>
     (\<forall>r now k d ok r'. rd_sexpire rd r now k d = (ok, r') \<longrightarrow> rd_view rd r' = rd_view rd r \<and>
        effect ok (rd_sets rd r) (expire_store (rd_sets rd r) now k d) (rd_sets rd r')) \<and>
     (\<forall>r now k ok r'. rd_sdel rd r now k = (ok, r') \<longrightarrow> rd_view rd r' = rd_view rd r \<and>
        effect ok (rd_sets rd r) ((rd_sets rd r)(k := None)) (rd_sets rd r'))"

section \<open>Consequences\<close>

lemma live_update [simp]:
  "live (m(k \<mapsto> (v, None))) now k' = (if k' = k then Some v else live m now k')"
  "live (m(k \<mapsto> (v, Some e))) now k' = (if k' = k then if now < e then Some v else None else live m now k')"
  by (simp_all add: live_def)

lemma live_restrict [simp]: "live (m |` A) now k = (if k \<in> A then live m now k else None)"
  by (simp add: live_def restrict_map_def)

lemma live_fun_upd_None [simp]: "live (m(k := None)) now k' = (if k' = k then None else live m now k')"
  by (simp add: live_def)

lemma live_empty [simp]: "live Map.empty now k = None"
  by (simp add: live_def)

lemma live_remaining: "live m now k = None \<longleftrightarrow> remaining m now k = None"
  by (auto simp: live_def remaining_def split: option.splits)

lemma live_mono: "live m now k = Some v \<Longrightarrow> t \<le> now \<Longrightarrow> live m t k = Some v"
  by (auto simp: live_def split: option.splits if_splits)

lemma effect_ok [simp]: "effect True before after result \<longleftrightarrow> result = after"
  by (simp add: effect_def)

lemma effect_cases: "effect ok before after result \<Longrightarrow> result = before \<or> result = after"
  by (auto simp: effect_def)

lemma redis_getD: "redis_laws rd \<Longrightarrow> rd_get rd r now k = Inr x \<Longrightarrow> x = live (rd_view rd r) now k"
  by (simp add: redis_laws_def)

lemma redis_setD:
  "redis_laws rd \<Longrightarrow> rd_set rd r now k v ttl = (ok, r') \<Longrightarrow>
     effect ok (rd_view rd r) ((rd_view rd r)(k \<mapsto> (v, Some (now + ttl)))) (rd_view rd r')"
  by (simp add: redis_laws_def)

lemma redis_delD:
  "redis_laws rd \<Longrightarrow> rd_del rd r now ks = (ok, r') \<Longrightarrow>
     effect ok (rd_view rd r) (rd_view rd r |` (- set ks)) (rd_view rd r')"
  by (simp add: redis_laws_def)

lemma redis_incrD:
  "redis_counter_laws rd \<Longrightarrow> rd_incr rd r now k = (res, r') \<Longrightarrow>
     effect (isOk res) (rd_view rd r) (incr_store (rd_view rd r) now k) (rd_view rd r') \<and>
     (\<forall>n. res = Inr n \<longrightarrow> n = incr_value (rd_view rd r) now k)"
  by (simp add: redis_counter_laws_def)

lemma redis_expireD:
  "redis_counter_laws rd \<Longrightarrow> rd_expire rd r now k d = (ok, r') \<Longrightarrow>
     effect ok (rd_view rd r) (expire_store (rd_view rd r) now k d) (rd_view rd r')"
  by (simp add: redis_counter_laws_def)

lemma redis_setnxD:
  "redis_counter_laws rd \<Longrightarrow> rd_setnx rd r now k v d = (ok, r') \<Longrightarrow>
     effect ok (rd_view rd r) (setnx_store (rd_view rd r) now k v d) (rd_view rd r')"
  by (simp add: redis_counter_laws_def)

lemma redis_ttlD:
  "redis_counter_laws rd \<Longrightarrow> rd_ttl rd r now k = Inr t \<Longrightarrow>
     \<exists>n. ttl_answer Second (rd_view rd r) now k n \<and> t = (if 0 \<le> n then n * Second else n)"
  by (simp add: redis_counter_laws_def)

lemma redis_pttlD:
  "redis_counter_laws rd \<Longrightarrow> rd_pttl rd r now k = Inr t \<Longrightarrow> ttl_answer Millisecond (rd_view rd r) now k t"
  by (simp add: redis_counter_laws_def)

lemma redis_saddD:
  "redis_set_laws rd \<Longrightarrow> rd_sadd rd r now k x = (ok, r') \<Longrightarrow> rd_view rd r' = rd_view rd r \<and>
     effect ok (rd_sets rd r) (sadd_store (rd_sets rd r) now k x) (rd_sets rd r')"
  by (simp add: redis_set_laws_def)

lemma redis_sremD:
  "redis_set_laws rd \<Longrightarrow> rd_srem rd r now k x = (ok, r') \<Longrightarrow> rd_view rd r' = rd_view rd r \<and>
     effect ok (rd_sets rd r) (srem_store (rd_sets rd r) now k x) (rd_sets rd r')"
  by (simp add: redis_set_laws_def)

lemma redis_smembersD:
  "redis_set_laws rd \<Longrightarrow> rd_smembers rd r now k = Inr xs \<Longrightarrow>
     set xs = (case live (rd_sets rd r) now k of None \<Rightarrow> {} | Some ys \<Rightarrow> set ys)"
  by (simp add: redis_set_laws_def)

lemma redis_sexpireD:
  "redis_set_laws rd \<Longrightarrow> rd_sexpire rd r now k d = (ok, r') \<Longrightarrow> rd_view rd r' = rd_view rd r \<and>
     effect ok (rd_sets rd r) (expire_store (rd_sets rd r) now k d) (rd_sets rd r')"
  by (simp add: redis_set_laws_def)

lemma redis_sdelD:
  "redis_set_laws rd \<Longrightarrow> rd_sdel rd r now k = (ok, r') \<Longrightarrow> rd_view rd r' = rd_view rd r \<and>
     effect ok (rd_sets rd r) ((rd_sets rd r)(k := None)) (rd_sets rd r')"
  by (simp add: redis_set_laws_def)

lemma redis_value_keeps_sets:
  "redis_set_laws rd \<Longrightarrow> rd_sets rd (snd (rd_set rd r now k v ttl)) = rd_sets rd r"
  "redis_set_laws rd \<Longrightarrow> rd_sets rd (snd (rd_del rd r now ks)) = rd_sets rd r"
  by (simp_all add: redis_set_laws_def)

section \<open>A server in memory\<close>

text \<open>An instance of every law: the entries themselves, never failing.\<close>

definition mem_redis :: "('v store, 'v) redis" where
  "mem_redis = \<lparr>rd_view = (\<lambda>m. m), rd_get = (\<lambda>m now k. Inr (live m now k)),
     rd_set = (\<lambda>m now k v ttl. (True, m(k \<mapsto> (v, Some (now + ttl))))),
     rd_del = (\<lambda>m now ks. (True, m |` (- set ks)))\<rparr>"

definition mem_ttl :: "dur \<Rightarrow> 'v store \<Rightarrow> time \<Rightarrow> string \<Rightarrow> int" where
  "mem_ttl unit_len m now k =
     (case remaining m now k of None \<Rightarrow> - 2 | Some None \<Rightarrow> - 1 | Some (Some d) \<Rightarrow> d div unit_len)"

definition mem_counters :: "int store redis_counters" where
  "mem_counters = redis.extend mem_redis
     \<lparr>rd_incr = (\<lambda>m now k. (Inr (incr_value m now k), incr_store m now k)),
      rd_expire = (\<lambda>m now k d. (True, expire_store m now k d)),
      rd_setnx = (\<lambda>m now k v d. (True, setnx_store m now k v d)),
      rd_ttl = (\<lambda>m now k. Inr (let n = mem_ttl Second m now k in if 0 \<le> n then n * Second else n)),
      rd_pttl = (\<lambda>m now k. Inr (mem_ttl Millisecond m now k))\<rparr>"

definition mem_sets :: "('v store \<times> string list store, 'v) redis_sets" where
  "mem_sets = \<lparr>rd_view = fst, rd_get = (\<lambda>m now k. Inr (live (fst m) now k)),
     rd_set = (\<lambda>m now k v ttl. (True, ((fst m)(k \<mapsto> (v, Some (now + ttl))), snd m))),
     rd_del = (\<lambda>m now ks. (True, (fst m |` (- set ks), snd m))),
     rd_sets = snd,
     rd_sadd = (\<lambda>m now k x. (True, (fst m, sadd_store (snd m) now k x))),
     rd_srem = (\<lambda>m now k x. (True, (fst m, srem_store (snd m) now k x))),
     rd_smembers = (\<lambda>m now k. Inr (case live (snd m) now k of None \<Rightarrow> [] | Some xs \<Rightarrow> xs)),
     rd_sexpire = (\<lambda>m now k d. (True, (fst m, expire_store (snd m) now k d))),
     rd_sdel = (\<lambda>m now k. (True, (fst m, (snd m)(k := None))))\<rparr>"

lemma mem_redis_laws: "redis_laws mem_redis"
  by (simp add: redis_laws_def mem_redis_def)

lemma mem_counters_base: "redis_laws mem_counters"
  by (simp add: redis_laws_def mem_counters_def mem_redis_def redis.defs)

lemma mem_ttl_answer: "0 < l \<Longrightarrow> ttl_answer l m now k (mem_ttl l m now k)"
proof -
  assume l: "0 < l"
  have "0 \<le> d div l \<and> abs (d div l * l - d) < l" if "0 < d" for d
  proof -
    have "d div l * l - d = - (d mod l)" by (simp add: minus_mod_eq_div_mult [symmetric])
    then show ?thesis using l that by (simp add: pos_imp_zdiv_nonneg_iff)
  qed
  then show ?thesis
    by (auto simp: ttl_answer_def mem_ttl_def remaining_def split: option.splits if_splits)
qed

lemma mem_counters_laws: "redis_counter_laws mem_counters"
  using mem_ttl_answer [of Second] mem_ttl_answer [of Millisecond]
  by (auto simp: redis_counter_laws_def mem_counters_def mem_redis_def redis.defs Let_def)

lemma mem_sets_base: "redis_laws mem_sets"
  by (simp add: redis_laws_def mem_sets_def)

lemma mem_sets_laws: "redis_set_laws mem_sets"
  by (auto simp: redis_set_laws_def mem_sets_def split: option.splits)

end
