(* ===== verification/AuthzCache.thy ===== *)
theory AuthzCache
  imports Authz Redis "HOL-Library.List_Lexorder" "HOL-Library.Char_ord"
begin

text \<open>
  The two-level cache in front of the binding provider (\<open>pkg/authz/cache.go\<close>): a map per pod (L1)
  and Redis (L2), filled on a miss, cleared by \<open>Invalidate\<close>, \<open>InvalidateAll\<close> and the broadcasts of
  other pods. An operation runs at one instant \<open>now\<close>. The iteration order of a Go map is the argument
  \<open>ord\<close>, which lists the elements of a set.
\<close>

section \<open>Keys and entries\<close>

definition defaultL1TTL :: dur where "defaultL1TTL = 60 * Second"
definition defaultL2TTL :: dur where "defaultL2TTL = 5 * Minute"

definition cacheKeyPrefix :: string where "cacheKeyPrefix = ''authz:bindings:''"
definition invalidateAllSentinel :: string where "invalidateAllSentinel = ''*''"

definition cacheKey :: "id \<Rightarrow> id \<Rightarrow> string" where
  "cacheKey tenantID userID = cacheKeyPrefix @ FormatInt tenantID @ '':'' @ FormatInt userID"

record l1_entry =
  l1_bindings :: "effective_binding list"
  l1_expireAt :: time

record cached_provider =
  cp_l1TTL :: dur
  cp_l2TTL :: dur
  cp_l1 :: "string \<rightharpoonup> l1_entry"

definition NewCachedBindingProvider :: "dur \<Rightarrow> dur \<Rightarrow> cached_provider" where
  "NewCachedBindingProvider optL1 optL2 =
     \<lparr>cp_l1TTL = (if optL1 \<le> 0 then defaultL1TTL else optL1),
      cp_l2TTL = (if optL2 \<le> 0 then defaultL2TTL else optL2),
      cp_l1 = Map.empty\<rparr>"

definition l1Get :: "time \<Rightarrow> string \<Rightarrow> cached_provider \<Rightarrow> effective_binding list option" where
  "l1Get now key c =
     (case cp_l1 c key of
        None \<Rightarrow> None
      | Some e \<Rightarrow> if l1_expireAt e < now then None else Some (l1_bindings e))"

definition l1Set :: "time \<Rightarrow> string \<Rightarrow> effective_binding list \<Rightarrow> cached_provider \<Rightarrow> cached_provider" where
  "l1Set now key bs c =
     c\<lparr>cp_l1 := (cp_l1 c)(key \<mapsto> \<lparr>l1_bindings = bs, l1_expireAt = now + cp_l1TTL c\<rparr>)\<rparr>"

definition l1Delete :: "string \<Rightarrow> cached_provider \<Rightarrow> cached_provider" where
  "l1Delete key c = c\<lparr>cp_l1 := (cp_l1 c)(key := None)\<rparr>"

definition l1Clear :: "cached_provider \<Rightarrow> cached_provider" where
  "l1Clear c = c\<lparr>cp_l1 := Map.empty\<rparr>"

section \<open>The wire form\<close>

record serialized_binding =
  sb_RoleID :: id
  sb_Permissions :: "string list"
  sb_Source :: string
  sb_SourceID :: id
  sb_ScopeType :: string
  sb_ScopeID :: id
  sb_ExpiresAt :: "int option"

definition serializeBinding :: "(string set \<Rightarrow> string list) \<Rightarrow> effective_binding \<Rightarrow> serialized_binding" where
  "serializeBinding ord b =
     \<lparr>sb_RoleID = eb_RoleID b, sb_Permissions = ord (eb_Permissions b), sb_Source = eb_Source b,
      sb_SourceID = eb_SourceID b, sb_ScopeType = eb_ScopeType b, sb_ScopeID = eb_ScopeID b,
      sb_ExpiresAt = map_option (\<lambda>t. t div Second) (eb_ExpiresAt b)\<rparr>"

definition deserializeBinding :: "serialized_binding \<Rightarrow> effective_binding" where
  "deserializeBinding s =
     \<lparr>eb_RoleID = sb_RoleID s, eb_Permissions = set (sb_Permissions s), eb_Source = sb_Source s,
      eb_SourceID = sb_SourceID s, eb_ScopeType = sb_ScopeType s, eb_ScopeID = sb_ScopeID s,
      eb_ExpiresAt = map_option (\<lambda>u. u * Second) (sb_ExpiresAt s)\<rparr>"

type_synonym l2_value = "serialized_binding list json"

definition l2Get :: "('r, l2_value) redis \<Rightarrow> 'r \<Rightarrow> time \<Rightarrow> string \<Rightarrow> effective_binding list option" where
  "l2Get rd r now key =
     (case rd_get rd r now key of
        Inl _ \<Rightarrow> None
      | Inr None \<Rightarrow> None
      | Inr (Some raw) \<Rightarrow>
          (case Unmarshal raw of None \<Rightarrow> None | Some ss \<Rightarrow> Some (map deserializeBinding ss)))"

definition l2Set ::
  "('r, l2_value) redis \<Rightarrow> (string set \<Rightarrow> string list) \<Rightarrow> dur \<Rightarrow> 'r \<Rightarrow> time \<Rightarrow> string \<Rightarrow> effective_binding list \<Rightarrow> 'r" where
  "l2Set rd ord l2TTL r now key bs = snd (rd_set rd r now key (Json (map (serializeBinding ord) bs)) l2TTL)"

section \<open>Lookup and invalidation\<close>

text \<open>The client is \<open>None\<close> when Redis is not configured.\<close>

definition cachedBindings ::
  "('r, l2_value) redis option \<Rightarrow> (string set \<Rightarrow> string list) \<Rightarrow> binding_provider \<Rightarrow> time \<Rightarrow> id \<Rightarrow> id \<Rightarrow>
   cached_provider \<Rightarrow> 'r \<Rightarrow> (unit + effective_binding list) \<times> cached_provider \<times> 'r" where
  "cachedBindings rdb ord inner now tenantID userID c r =
     (let key = cacheKey tenantID userID in
      case l1Get now key c of
        Some v \<Rightarrow> (Inr v, c, r)
      | None \<Rightarrow>
          (case (case rdb of None \<Rightarrow> None | Some rd \<Rightarrow> l2Get rd r now key) of
             Some v \<Rightarrow> (Inr v, l1Set now key v c, r)
           | None \<Rightarrow>
               (case inner tenantID userID of
                  Inl e \<Rightarrow> (Inl e, c, r)
                | Inr v \<Rightarrow>
                    (Inr v, l1Set now key v c,
                     case rdb of None \<Rightarrow> r | Some rd \<Rightarrow> l2Set rd ord (cp_l2TTL c) r now key v))))"

text \<open>The error of \<open>Invalidate\<close> is \<open>False\<close>; the message it publishes is the key.\<close>

definition Invalidate ::
  "('r, l2_value) redis option \<Rightarrow> (string \<Rightarrow> bool) \<Rightarrow> time \<Rightarrow> id \<Rightarrow> id \<Rightarrow> cached_provider \<Rightarrow> 'r \<Rightarrow>
   bool \<times> cached_provider \<times> 'r \<times> string list" where
  "Invalidate rdb publish now tenantID userID c r =
     (let key = cacheKey tenantID userID; c' = l1Delete key c in
      case rdb of
        None \<Rightarrow> (True, c', r, [])
      | Some rd \<Rightarrow>
          (case rd_del rd r now [key] of
             (ok, r') \<Rightarrow>
               if \<not> ok then (False, c', r', [])
               else if publish key then (True, c', r', [key]) else (False, c', r', [])))"

text \<open>\<open>InvalidateAll\<close> returns before the purge it starts has run.\<close>

definition InvalidateAll ::
  "('r, l2_value) redis option \<Rightarrow> (string \<Rightarrow> bool) \<Rightarrow> cached_provider \<Rightarrow> bool \<times> cached_provider \<times> string list" where
  "InvalidateAll rdb publish c =
     (case rdb of
        None \<Rightarrow> (True, l1Clear c, [])
      | Some rd \<Rightarrow>
          if publish invalidateAllSentinel then (True, l1Clear c, [invalidateAllSentinel])
          else (False, l1Clear c, []))"

text \<open>The loop of \<open>purgeL2\<close> over the replies of \<open>SCAN\<close>, which the server ends with cursor 0: a page
  of keys, or an error.\<close>

fun purgeL2 :: "('r, l2_value) redis \<Rightarrow> time \<Rightarrow> (unit + string list) list \<Rightarrow> 'r \<Rightarrow> 'r" where
  "purgeL2 rd now [] r = r"
| "purgeL2 rd now (Inl e # pages) r = r"
| "purgeL2 rd now (Inr keys # pages) r =
     purgeL2 rd now pages (if 0 < length keys then snd (rd_del rd r now keys) else r)"

text \<open>The subscriber's handling of one message.\<close>

definition onInvalidateMessage :: "string \<Rightarrow> cached_provider \<Rightarrow> cached_provider" where
  "onInvalidateMessage payload c =
     (if payload = invalidateAllSentinel then l1Clear c else l1Delete payload c)"

section \<open>Facts\<close>

lemma cacheKey_inject [simp]: "cacheKey t u = cacheKey t' u' \<longleftrightarrow> t = t' \<and> u = u'"
  using split_at_separator [of "FormatInt t" "CHR '':''" "FormatInt u" "FormatInt t'" "FormatInt u'"]
  by (auto simp: cacheKey_def)

lemma cacheKey_not_sentinel: "cacheKey t u \<noteq> invalidateAllSentinel"
  by (simp add: cacheKey_def cacheKeyPrefix_def invalidateAllSentinel_def)

text \<open>\<open>ord\<close> lists a finite set.\<close>

definition lists_sets :: "(string set \<Rightarrow> string list) \<Rightarrow> bool" where
  "lists_sets ord \<longleftrightarrow> (\<forall>A. finite A \<longrightarrow> set (ord A) = A)"

text \<open>What Redis gives back of a binding: the expiry cut to the second.\<close>

definition truncated :: "effective_binding \<Rightarrow> effective_binding" where
  "truncated b = b\<lparr>eb_ExpiresAt := map_option (\<lambda>t. t div Second * Second) (eb_ExpiresAt b)\<rparr>"

lemma wire_round_trip:
  "lists_sets ord \<Longrightarrow> finite (eb_Permissions b) \<Longrightarrow> deserializeBinding (serializeBinding ord b) = truncated b"
  by (auto simp: lists_sets_def deserializeBinding_def serializeBinding_def truncated_def
      option.map_comp comp_def)

lemma truncated_idem [simp]: "truncated (truncated b) = truncated b"
  by (simp add: truncated_def option.map_comp comp_def)

lemma truncated_fields [simp]:
  "eb_RoleID (truncated b) = eb_RoleID b" "eb_Permissions (truncated b) = eb_Permissions b"
  "eb_ScopeType (truncated b) = eb_ScopeType b" "eb_ScopeID (truncated b) = eb_ScopeID b"
  by (simp_all add: truncated_def)

lemma truncated_expires_earlier: "bindingExpired now b \<Longrightarrow> bindingExpired now (truncated b)"
proof -
  have "t div Second * Second \<le> t" for t :: int
    using mult_div_mod_eq [of Second t] pos_mod_sign [of Second t] by simp
  then show "bindingExpired now b \<Longrightarrow> bindingExpired now (truncated b)"
    by (auto simp: bindingExpired_def truncated_def split: option.splits intro: le_less_trans)
qed

lemma truncated_allows:
  assumes "binding_allows lib s now t perm tgt (truncated b)"
  shows "binding_allows lib s now t perm tgt b"
proof -
  have "bindingRoleSubject (truncated b) = bindingRoleSubject b" by (simp add: bindingRoleSubject_def)
  moreover have "scopeCovers s (truncated b) tgt = scopeCovers s b tgt"
    unfolding scopeCovers_def truncated_fields ..
  ultimately show ?thesis
    using assms truncated_expires_earlier by (auto simp: binding_allows_def bindingGrantsPerm_def split: option.splits)
qed

section \<open>Pods sharing one Redis\<close>

text \<open>The database answers \<open>inner t\<close> at instant \<open>t\<close>. Any number of pods look up, invalidate, purge and
  receive broadcasts, in any order, while time passes.\<close>

record 'r cache_world =
  w_pods :: "nat \<Rightarrow> cached_provider"
  w_redis :: 'r
  w_now :: time

inductive cache_step ::
  "('r, l2_value) redis \<Rightarrow> (string set \<Rightarrow> string list) \<Rightarrow> (time \<Rightarrow> binding_provider) \<Rightarrow>
   'r cache_world \<Rightarrow> 'r cache_world \<Rightarrow> bool" for rd ord inner where
  cache_tick: "w_now w \<le> n \<Longrightarrow> cache_step rd ord inner w (w\<lparr>w_now := n\<rparr>)"
| cache_lookup:
    "cachedBindings (Some rd) ord (inner (w_now w)) (w_now w) t u (w_pods w p) (w_redis w) = (res, c', r') \<Longrightarrow>
     cache_step rd ord inner w (w\<lparr>w_pods := (w_pods w)(p := c'), w_redis := r'\<rparr>)"
| cache_invalidate:
    "Invalidate (Some rd) pub (w_now w) t u (w_pods w p) (w_redis w) = (ok, c', r', msgs) \<Longrightarrow>
     cache_step rd ord inner w (w\<lparr>w_pods := (w_pods w)(p := c'), w_redis := r'\<rparr>)"
| cache_invalidate_all:
    "InvalidateAll (Some rd) pub (w_pods w p) = (ok, c', msgs) \<Longrightarrow>
     cache_step rd ord inner w (w\<lparr>w_pods := (w_pods w)(p := c')\<rparr>)"
| cache_purge: "cache_step rd ord inner w (w\<lparr>w_redis := purgeL2 rd (w_now w) pages (w_redis w)\<rparr>)"
| cache_message:
    "cache_step rd ord inner w (w\<lparr>w_pods := (w_pods w)(p := onInvalidateMessage m (w_pods w p))\<rparr>)"

definition from_db ::
  "(time \<Rightarrow> binding_provider) \<Rightarrow> time \<Rightarrow> id \<Rightarrow> id \<Rightarrow> effective_binding list \<Rightarrow> bool" where
  "from_db inner t0 t u v \<longleftrightarrow> (\<exists>bs. inner t0 t u = Inr bs \<and> (v = bs \<or> v = map truncated bs))"

definition finite_perms :: "(time \<Rightarrow> binding_provider) \<Rightarrow> bool" where
  "finite_perms inner \<longleftrightarrow>
     (\<forall>t0 t u bs. inner t0 t u = Inr bs \<longrightarrow> (\<forall>b \<in> set bs. finite (eb_Permissions b)))"

definition l1_fresh ::
  "(time \<Rightarrow> binding_provider) \<Rightarrow> dur \<Rightarrow> dur \<Rightarrow> time \<Rightarrow> cached_provider \<Rightarrow> bool" where
  "l1_fresh inner a b now c \<longleftrightarrow> cp_l1TTL c = a \<and> cp_l2TTL c = b \<and>
     (\<forall>k e. cp_l1 c k = Some e \<longrightarrow> (\<exists>t u t0. k = cacheKey t u \<and> t0 \<le> now \<and>
        l1_expireAt e \<le> t0 + a + b \<and> from_db inner t0 t u (l1_bindings e)))"

definition l2_fresh ::
  "(string set \<Rightarrow> string list) \<Rightarrow> (time \<Rightarrow> binding_provider) \<Rightarrow> dur \<Rightarrow> time \<Rightarrow> l2_value store \<Rightarrow> bool" where
  "l2_fresh ord inner b now m \<longleftrightarrow>
     (\<forall>k v d. m k = Some (v, d) \<longrightarrow> (\<exists>t u t0 bs. k = cacheKey t u \<and> t0 \<le> now \<and> d = Some (t0 + b) \<and>
        v = Json (map (serializeBinding ord) bs) \<and> inner t0 t u = Inr bs))"

lemma l1_fresh_weaken:
  "l1_fresh inner a b now c \<Longrightarrow> cp_l1 c' \<subseteq>\<^sub>m cp_l1 c \<Longrightarrow> cp_l1TTL c' = cp_l1TTL c \<Longrightarrow> cp_l2TTL c' = cp_l2TTL c \<Longrightarrow>
     l1_fresh inner a b now c'"
  unfolding l1_fresh_def by (metis domI map_le_def)

lemma l1_fresh_later: "l1_fresh inner a b now c \<Longrightarrow> now \<le> n \<Longrightarrow> l1_fresh inner a b n c"
  unfolding l1_fresh_def by (meson order_trans)

lemma l2_fresh_later: "l2_fresh ord inner b now m \<Longrightarrow> now \<le> n \<Longrightarrow> l2_fresh ord inner b n m"
  unfolding l2_fresh_def by (meson order_trans)

lemma l2_fresh_restrict: "l2_fresh ord inner b now m \<Longrightarrow> l2_fresh ord inner b now (m |` A)"
  by (auto simp: l2_fresh_def restrict_map_def split: if_splits)

lemma l1_fresh_set:
  assumes "l1_fresh inner a b now c" and "t0 \<le> now" and "now \<le> t0 + b" and "from_db inner t0 t u v"
  shows "l1_fresh inner a b now (l1Set now (cacheKey t u) v c)"
  using assms unfolding l1_fresh_def l1Set_def by force

lemma l2_fresh_set:
  assumes fresh: "l2_fresh ord inner b now m" and db: "inner now t u = Inr bs"
  shows "l2_fresh ord inner b now (m(cacheKey t u \<mapsto> (Json (map (serializeBinding ord) bs), Some (now + b))))"
  unfolding l2_fresh_def
proof (intro allI impI)
  fix k v d
  assume e: "(m(cacheKey t u \<mapsto> (Json (map (serializeBinding ord) bs), Some (now + b)))) k = Some (v, d)"
  show "\<exists>t u t0 bs. k = cacheKey t u \<and> t0 \<le> now \<and> d = Some (t0 + b) \<and>
      v = Json (map (serializeBinding ord) bs) \<and> inner t0 t u = Inr bs"
  proof (cases "k = cacheKey t u")
    case True
    with e db show ?thesis by auto
  next
    case False
    with e have "m k = Some (v, d)" by simp
    with fresh show ?thesis unfolding l2_fresh_def by blast
  qed
qed

lemma l1_removals:
  "cp_l1 (l1Delete k c) \<subseteq>\<^sub>m cp_l1 c" "cp_l1 (l1Clear c) \<subseteq>\<^sub>m cp_l1 c"
  "cp_l1 (onInvalidateMessage k c) \<subseteq>\<^sub>m cp_l1 c"
  by (auto simp: l1Delete_def l1Clear_def onInvalidateMessage_def map_le_def)

lemma l1_removals_ttl [simp]:
  "cp_l1TTL (l1Delete k c) = cp_l1TTL c" "cp_l1TTL (l1Clear c) = cp_l1TTL c"
  "cp_l1TTL (onInvalidateMessage k c) = cp_l1TTL c"
  "cp_l2TTL (l1Delete k c) = cp_l2TTL c" "cp_l2TTL (l1Clear c) = cp_l2TTL c"
  "cp_l2TTL (onInvalidateMessage k c) = cp_l2TTL c"
  by (simp_all add: l1Delete_def l1Clear_def onInvalidateMessage_def)

lemma l2_hit:
  assumes laws: "redis_laws rd" and ord: "lists_sets ord" and fin: "finite_perms inner"
    and fresh: "l2_fresh ord inner b now (rd_view rd r)" and hit: "l2Get rd r now (cacheKey t u) = Some v"
  obtains t0 where "t0 \<le> now" "now < t0 + b" "from_db inner t0 t u v"
proof -
  obtain ss where g: "live (rd_view rd r) now (cacheKey t u) = Some (Json ss)" and v: "v = map deserializeBinding ss"
    using hit redis_getD [OF laws, of r now "cacheKey t u"]
    by (auto simp: l2Get_def Unmarshal_def split: sum.splits option.splits json.splits)
  obtain d where d: "rd_view rd r (cacheKey t u) = Some (Json ss, d)" "\<forall>e. d = Some e \<longrightarrow> now < e"
    using g by (auto simp: live_def split: option.splits if_splits)
  then obtain t0 bs where t0: "t0 \<le> now" "d = Some (t0 + b)" "ss = map (serializeBinding ord) bs" "inner t0 t u = Inr bs"
    using fresh unfolding l2_fresh_def by fastforce
  have "v = map truncated bs"
    unfolding v t0(3) using wire_round_trip [OF ord] fin t0(4) by (auto simp: finite_perms_def)
  then show thesis using that [of t0] t0 d(2) by (auto simp: from_db_def)
qed

lemma lookup_fresh:
  assumes laws: "redis_laws rd" and ord: "lists_sets ord" and fin: "finite_perms inner" and pos: "0 \<le> a" "0 \<le> b"
    and l1: "l1_fresh inner a b now c" and l2: "l2_fresh ord inner b now (rd_view rd r)"
    and look: "cachedBindings (Some rd) ord (inner now) now t u c r = (res, c', r')"
  shows "l1_fresh inner a b now c' \<and> l2_fresh ord inner b now (rd_view rd r') \<and>
    (\<forall>v. res = Inr v \<longrightarrow> (\<exists>t0. now - (a + b) \<le> t0 \<and> t0 \<le> now \<and> from_db inner t0 t u v))"
proof (cases "l1Get now (cacheKey t u) c")
  case (Some v)
  then obtain e where e: "cp_l1 c (cacheKey t u) = Some e" "now \<le> l1_expireAt e" "v = l1_bindings e"
    by (auto simp: l1Get_def split: option.splits if_splits)
  then obtain t0 where "t0 \<le> now" "l1_expireAt e \<le> t0 + a + b" "from_db inner t0 t u v"
    using l1 unfolding l1_fresh_def by fastforce
  moreover have "res = Inr v" "c' = c" "r' = r" using look Some by (simp_all add: cachedBindings_def Let_def)
  ultimately show ?thesis using l1 l2 e(2) by (auto intro!: exI [of _ t0])
next
  case None
  note miss1 = None
  show ?thesis
  proof (cases "l2Get rd r now (cacheKey t u)")
    case (Some v)
    obtain t0 where t0: "t0 \<le> now" "now < t0 + b" "from_db inner t0 t u v"
      by (rule l2_hit [OF laws ord fin l2 Some])
    have eq: "res = Inr v" "c' = l1Set now (cacheKey t u) v c" "r' = r"
      using look miss1 Some by (simp_all add: cachedBindings_def Let_def)
    show ?thesis unfolding eq using l1_fresh_set [OF l1 t0(1) _ t0(3)] t0 l2 pos by (auto intro!: exI [of _ t0])
  next
    case None
    show ?thesis
    proof (cases "inner now t u")
      case (Inl e)
      then have "res = Inl e" "c' = c" "r' = r" using look miss1 None by (simp_all add: cachedBindings_def Let_def)
      then show ?thesis using l1 l2 by simp
    next
      case (Inr v)
      have eq: "res = Inr v" "c' = l1Set now (cacheKey t u) v c"
        "r' = l2Set rd ord (cp_l2TTL c) r now (cacheKey t u) v"
        using look miss1 None Inr by (simp_all add: cachedBindings_def Let_def)
      have db: "from_db inner now t u v" using Inr by (simp add: from_db_def)
      have "rd_view rd r' = rd_view rd r \<or>
          rd_view rd r' = (rd_view rd r)(cacheKey t u \<mapsto> (Json (map (serializeBinding ord) v), Some (now + b)))"
        using redis_setD [OF laws] l1 unfolding eq(3) l2Set_def l1_fresh_def
        by (metis effect_cases prod.collapse)
      then have "l2_fresh ord inner b now (rd_view rd r')" using l2 l2_fresh_set [OF l2 Inr] by auto
      then show ?thesis
        unfolding eq(1,2) using l1_fresh_set [OF l1 _ _ db] db pos by (auto intro!: exI [of _ now])
    qed
  qed
qed

lemma purge_fresh:
  "redis_laws rd \<Longrightarrow> l2_fresh ord inner b now (rd_view rd r) \<Longrightarrow> l2_fresh ord inner b now (rd_view rd (purgeL2 rd t pages r))"
proof (induction rd t pages r rule: purgeL2.induct)
  case (3 rd t keys pages r)
  have "l2_fresh ord inner b now (rd_view rd (snd (rd_del rd r t keys)))"
    using redis_delD [OF 3(2), of r t keys] 3(3) l2_fresh_restrict by (metis effect_cases prod.collapse)
  with 3 show ?case by simp
qed simp_all

definition world_fresh ::
  "('r, l2_value) redis \<Rightarrow> (string set \<Rightarrow> string list) \<Rightarrow> (time \<Rightarrow> binding_provider) \<Rightarrow> dur \<Rightarrow> dur \<Rightarrow> 'r cache_world \<Rightarrow> bool" where
  "world_fresh rd ord inner a b w \<longleftrightarrow>
     (\<forall>p. l1_fresh inner a b (w_now w) (w_pods w p)) \<and> l2_fresh ord inner b (w_now w) (rd_view rd (w_redis w))"

lemma cache_step_fresh:
  assumes "cache_step rd ord inner w w'"
    and laws: "redis_laws rd" and ord: "lists_sets ord" and fin: "finite_perms inner" and pos: "0 \<le> a" "0 \<le> b"
    and fresh: "world_fresh rd ord inner a b w"
  shows "world_fresh rd ord inner a b w'"
  using assms(1)
proof (cases rule: cache_step.cases)
  case (cache_tick n)
  then show ?thesis using fresh by (auto simp: world_fresh_def intro: l1_fresh_later l2_fresh_later)
next
  case (cache_lookup t u p res c' r')
  then show ?thesis
    using fresh lookup_fresh [OF laws ord fin pos _ _ cache_lookup(2)] by (auto simp: world_fresh_def)
next
  case (cache_invalidate pub t u p ok c' r' msgs)
  have "c' = l1Delete (cacheKey t u) (w_pods w p)"
    "r' = snd (rd_del rd (w_redis w) (w_now w) [cacheKey t u])"
    using cache_invalidate(2) by (auto simp: Invalidate_def Let_def split: prod.splits if_splits)
  moreover have "l2_fresh ord inner b (w_now w) (rd_view rd (snd (rd_del rd (w_redis w) (w_now w) [cacheKey t u])))"
    using redis_delD [OF laws, of "w_redis w" "w_now w" "[cacheKey t u]"] fresh l2_fresh_restrict
    unfolding world_fresh_def by (metis effect_cases prod.collapse)
  ultimately show ?thesis
    using fresh cache_invalidate(1) l1_fresh_weaken [OF _ l1_removals(1)] by (auto simp: world_fresh_def)
next
  case (cache_invalidate_all pub p ok c' msgs)
  have "c' = l1Clear (w_pods w p)"
    using cache_invalidate_all(2) by (auto simp: InvalidateAll_def split: if_splits)
  then show ?thesis
    using fresh cache_invalidate_all(1) l1_fresh_weaken [OF _ l1_removals(2)] by (auto simp: world_fresh_def)
next
  case (cache_purge pages)
  then show ?thesis using fresh purge_fresh [OF laws] by (auto simp: world_fresh_def)
next
  case (cache_message p m)
  then show ?thesis using fresh l1_fresh_weaken [OF _ l1_removals(3)] by (auto simp: world_fresh_def)
qed

definition cold_world :: "('r, l2_value) redis \<Rightarrow> dur \<Rightarrow> dur \<Rightarrow> 'r cache_world \<Rightarrow> bool" where
  "cold_world rd optL1 optL2 w \<longleftrightarrow>
     (\<forall>p. w_pods w p = NewCachedBindingProvider optL1 optL2) \<and> rd_view rd (w_redis w) = Map.empty"

lemma cold_fresh:
  "cold_world rd optL1 optL2 w \<Longrightarrow>
     world_fresh rd ord inner (cp_l1TTL (NewCachedBindingProvider optL1 optL2))
       (cp_l2TTL (NewCachedBindingProvider optL1 optL2)) w"
  by (simp add: cold_world_def world_fresh_def l1_fresh_def l2_fresh_def NewCachedBindingProvider_def)

lemma provider_ttl_pos:
  "0 < cp_l1TTL (NewCachedBindingProvider a b)" "0 < cp_l2TTL (NewCachedBindingProvider a b)"
  by (simp_all add: NewCachedBindingProvider_def defaultL1TTL_def defaultL2TTL_def)

lemma cache_reachable_fresh:
  assumes "(cache_step rd ord inner)\<^sup>*\<^sup>* w w'" and laws: "redis_laws rd" and ord: "lists_sets ord"
    and fin: "finite_perms inner" and pos: "0 \<le> a" "0 \<le> b" and fresh: "world_fresh rd ord inner a b w"
  shows "world_fresh rd ord inner a b w'"
  using assms(1)
  by (induction rule: rtranclp_induct) (use fresh cache_step_fresh [OF _ laws ord fin pos] in blast)+


text \<open>
  C6: A successful \<open>Invalidate\<close> takes effect at once. After it returns without error, the next lookup of
  that user on the same pod answers from the database, whether or not Redis fails in between; with a
  failing database it is an error, never a stale answer.
\<close>

theorem Invalidate_then_fresh:
  assumes laws: "redis_laws rd"
    and inv: "Invalidate (Some rd) pub now t u c r = (True, c', r', msgs)"
  shows "fst (cachedBindings (Some rd) ord inner later t u c' r') = inner t u"
proof -
  have c': "c' = l1Delete (cacheKey t u) c" and d: "rd_del rd r now [cacheKey t u] = (True, r')"
    using inv by (auto simp: Invalidate_def Let_def split: prod.splits if_splits)
  have "l1Get later (cacheKey t u) c' = None" by (simp add: c' l1Get_def l1Delete_def)
  moreover have "rd_view rd r' = rd_view rd r |` (- {cacheKey t u})" using redis_delD [OF laws d] by simp
  then have "l2Get rd r' later (cacheKey t u) = None"
    using redis_getD [OF laws, of r' later "cacheKey t u"]
    by (auto simp: l2Get_def split: sum.splits option.splits)
  ultimately show ?thesis by (simp add: cachedBindings_def Let_def split: sum.splits)
qed

text \<open>A database that grants until instant 10 and nothing after.\<close>

definition revoking_db :: "time \<Rightarrow> binding_provider" where
  "revoking_db t0 t u = Inr (if t0 \<le> 10 then
     [\<lparr>eb_RoleID = 5, eb_Permissions = {''user.read''}, eb_Source = ''direct'', eb_SourceID = u,
       eb_ScopeType = [], eb_ScopeID = 0, eb_ExpiresAt = None\<rparr>] else [])"

definition sorted_perms :: "string set \<Rightarrow> string list" where
  "sorted_perms A = sorted_list_of_set A"

lemma sorted_perms_lists: "lists_sets sorted_perms"
  by (simp add: lists_sets_def sorted_perms_def)

lemma revoking_db_finite: "finite_perms revoking_db"
  by (auto simp: finite_perms_def revoking_db_def)

definition startWorld :: "l2_value store cache_world" where
  "startWorld = \<lparr>w_pods = (\<lambda>_. NewCachedBindingProvider 0 0), w_redis = Map.empty, w_now = 10\<rparr>"

definition filledPod :: cached_provider where
  "filledPod = fst (snd (cachedBindings (Some mem_redis) sorted_perms (revoking_db 10) 10 1 2
     (NewCachedBindingProvider 0 0) Map.empty))"

definition filledRedis :: "l2_value store" where
  "filledRedis = snd (snd (cachedBindings (Some mem_redis) sorted_perms (revoking_db 10) 10 1 2
     (NewCachedBindingProvider 0 0) Map.empty))"

lemmas cache_eval = cachedBindings_def Let_def l1Get_def l1Set_def l2Get_def l2Set_def mem_redis_def
  NewCachedBindingProvider_def defaultL1TTL_def defaultL2TTL_def revoking_db_def sorted_perms_def
  serializeBinding_def deserializeBinding_def


theorem Invalidate_then_fresh_witness:
  "\<exists>c' r' msgs. Invalidate (Some mem_redis) (\<lambda>_. True) 20 1 2 filledPod filledRedis = (True, c', r', msgs) \<and>
     fst (cachedBindings (Some mem_redis) sorted_perms (revoking_db 20) 20 1 2 c' r') = Inr []"
proof -
  obtain c' r' msgs where
    i: "Invalidate (Some mem_redis) (\<lambda>_. True) 20 1 2 filledPod filledRedis = (True, c', r', msgs)"
    by (simp add: Invalidate_def mem_redis_def Let_def)
  then show ?thesis
    using Invalidate_then_fresh [OF mem_redis_laws i, of sorted_perms "revoking_db 20" 20]
    by (simp add: revoking_db_def)
qed


end
