(* ===== verification/Access.thy ===== *)
theory Access
  imports Prelude
begin

text \<open>
  Just-in-time access (\<open>internal/domain/access\<close>): eligibility rules, requests, their approval into
  time-bound role bindings, and the end of a grant by revocation or by the sweeper. The tables are
  lists of rows; every statement filters on \<open>tenant_id\<close> itself, and the tenant plugin adds the same
  condition. A handler that reads first and writes later is composed of its two halves, so that what
  happens in between can be put between them. A failing database call is named in \<open>flt\<close>; a transaction
  leaves the tables as they were when it fails. Ids, the clock and the collaborators (subject matcher,
  super-admin check) are arguments; what a handler publishes, invalidates or terminates is logged.
\<close>

section \<open>Data\<close>

definition TargetConsole :: string where "TargetConsole = ''console''"
definition TargetApp :: string where "TargetApp = ''app''"

definition StatusPending :: string where "StatusPending = ''pending''"
definition StatusApproved :: string where "StatusApproved = ''approved''"
definition StatusRejected :: string where "StatusRejected = ''rejected''"
definition StatusCancelled :: string where "StatusCancelled = ''cancelled''"
definition StatusExpired :: string where "StatusExpired = ''expired''"
definition StatusRevoked :: string where "StatusRevoked = ''revoked''"

definition ApproverRole :: string where "ApproverRole = ''role''"
definition ApproverGroup :: string where "ApproverGroup = ''group''"
definition ApproverUser :: string where "ApproverUser = ''user''"
definition ApproverAuto :: string where "ApproverAuto = ''auto''"

lemmas access_consts = TargetConsole_def TargetApp_def StatusPending_def StatusApproved_def
  StatusRejected_def StatusCancelled_def StatusExpired_def StatusRevoked_def
  ApproverRole_def ApproverGroup_def ApproverUser_def ApproverAuto_def

record eligibility =
  el_ID :: id
  el_TenantID :: id
  el_TargetKind :: string
  el_RoleID :: id
  el_ScopeType :: "string option"
  el_ScopeID :: "id option"
  el_AppID :: "id option"
  el_RequesterSubjectType :: string
  el_RequesterSubjectID :: id
  el_AllowedDurations :: "int list"
  el_MaxDurationSeconds :: int
  el_ApproverSubjectType :: string
  el_ApproverSubjectID :: id
  el_RequireJustification :: bool
  el_RequireStepUp :: bool
  el_Status :: int
  el_CreatedBy :: "id option"

record access_request =
  ar_ID :: id
  ar_TenantID :: id
  ar_RequesterID :: id
  ar_EligibilityID :: id
  ar_TargetKind :: string
  ar_RoleID :: id
  ar_ScopeType :: "string option"
  ar_ScopeID :: "id option"
  ar_AppID :: "id option"
  ar_RequestedSeconds :: int
  ar_Justification :: string
  ar_Status :: string
  ar_ApproverID :: "id option"
  ar_DecidedAt :: "time option"
  ar_DecisionReason :: string
  ar_ActivatedAt :: "time option"
  ar_ExpiresAt :: "time option"
  ar_BindingID :: "id option"

text \<open>Rows of \<open>mxid_role_binding\<close> and \<open>mxid_app_role_binding\<close>; an administrator's own binding has no
  grant id and usually no expiry.\<close>

record console_binding =
  cb_ID :: id
  cb_RoleID :: id
  cb_SubjectType :: string
  cb_SubjectID :: id
  cb_ScopeType :: "string option"
  cb_ScopeID :: "id option"
  cb_GrantID :: "id option"
  cb_ExpiresAt :: "time option"
  cb_Status :: int

record app_binding =
  ab_ID :: id
  ab_AppID :: id
  ab_TenantID :: id
  ab_RoleID :: id
  ab_SubjectType :: string
  ab_SubjectID :: id
  ab_AppGroupID :: "id option"
  ab_GrantID :: "id option"
  ab_ExpiresAt :: "time option"
  ab_Status :: int

datatype access_event =
    EventEligibilityCreated | EventEligibilityUpdated | EventEligibilityDeleted
  | EventRequestCreated | EventRequestApproved | EventRequestRejected | EventRequestCancelled
  | EventGrantActivated id | EventGrantRevoked | EventGrantExpired

datatype access_log = Published access_event id | Invalidated id id | Terminated id id id

record access_state =
  ac_eligs :: "eligibility list"
  ac_reqs :: "access_request list"
  ac_console :: "console_binding list"
  ac_app :: "app_binding list"
  ac_log :: "access_log list"

datatype access_error =
    ErrSelfApproval | ErrApproverNotEligible | ErrRequestNotPending | ErrInvalidEligibility
  | ErrRequestNotAllowed | ErrRequestNotCancellable | ErrGrantNotRevocable | ErrRequestNotFound
  | ErrEligibilityNotFound | ErrAppIDRequired | ErrUnknownTargetKind | ErrAccessDb

record create_eligibility_request =
  ce_TargetKind :: string
  ce_RoleID :: id
  ce_ScopeType :: "string option"
  ce_ScopeID :: "id option"
  ce_AppID :: "id option"
  ce_RequesterSubjectType :: string
  ce_RequesterSubjectID :: id
  ce_AllowedDurations :: "int list"
  ce_MaxDurationSeconds :: int
  ce_ApproverSubjectType :: string
  ce_ApproverSubjectID :: id
  ce_RequireJustification :: "bool option"
  ce_RequireStepUp :: "bool option"

record create_access_request =
  ca_EligibilityID :: id
  ca_RequestedSeconds :: int
  ca_Justification :: string

text \<open>\<open>SubjectMatcher\<close> and the optional \<open>SuperAdminChecker\<close>.\<close>

record access_deps =
  sm_UserInGroup :: "id \<Rightarrow> id \<Rightarrow> id \<Rightarrow> bool"
  sm_UserInOrg :: "id \<Rightarrow> id \<Rightarrow> id \<Rightarrow> bool"
  sm_UserHasRole :: "id \<Rightarrow> id \<Rightarrow> id \<Rightarrow> bool"
  sm_superAdmin :: "(id \<Rightarrow> bool) option"

type_synonym access_faults = "string \<Rightarrow> bool"

definition no_access_faults :: access_faults where
  "no_access_faults = (\<lambda>_. False)"

section \<open>Small functions\<close>

definition maxEligibilityTTL :: int where "maxEligibilityTTL = 604800"

definition orDefault :: "string \<Rightarrow> string \<Rightarrow> string" where
  "orDefault v d = (if v = [] then d else v)"

definition boolOrDefault :: "bool option \<Rightarrow> bool \<Rightarrow> bool" where
  "boolOrDefault p d = (case p of None \<Rightarrow> d | Some b \<Rightarrow> b)"

definition DurationAllowed :: "eligibility \<Rightarrow> int \<Rightarrow> bool" where
  "DurationAllowed e seconds = List.member (el_AllowedDurations e) seconds"

definition ClampDuration :: "eligibility \<Rightarrow> int \<Rightarrow> int" where
  "ClampDuration e seconds =
     (if 0 < el_MaxDurationSeconds e \<and> el_MaxDurationSeconds e < seconds then el_MaxDurationSeconds e else seconds)"

definition validateEligibilityRequest :: "create_eligibility_request \<Rightarrow> access_error option" where
  "validateEligibilityRequest req =
     (if ce_TargetKind req \<noteq> TargetConsole \<and> ce_TargetKind req \<noteq> TargetApp then Some ErrInvalidEligibility
      else if ce_TargetKind req = TargetApp \<and> ce_AppID req = None then Some ErrInvalidEligibility
      else if length (ce_AllowedDurations req) = 0 then Some ErrInvalidEligibility
      else if ce_MaxDurationSeconds req \<le> 0 \<or> maxEligibilityTTL < ce_MaxDurationSeconds req then Some ErrInvalidEligibility
      else if list_ex (\<lambda>d. d \<le> 0 \<or> ce_MaxDurationSeconds req < d) (ce_AllowedDurations req) then Some ErrInvalidEligibility
      else None)"

definition logged :: "access_log \<Rightarrow> access_state \<Rightarrow> access_state" where
  "logged l s = s\<lparr>ac_log := ac_log s @ [l]\<rparr>"

definition requesterEligible :: "access_deps \<Rightarrow> id \<Rightarrow> id \<Rightarrow> eligibility \<Rightarrow> bool" where
  "requesterEligible d tenantID userID e =
     (if el_RequesterSubjectType e = ''any'' then True
      else if el_RequesterSubjectType e = ''user'' then el_RequesterSubjectID e = userID
      else if el_RequesterSubjectType e = ''group'' then sm_UserInGroup d tenantID userID (el_RequesterSubjectID e)
      else if el_RequesterSubjectType e = ''org'' then sm_UserInOrg d tenantID userID (el_RequesterSubjectID e)
      else False)"

definition approverAllowed :: "access_deps \<Rightarrow> id \<Rightarrow> id \<Rightarrow> eligibility \<Rightarrow> bool" where
  "approverAllowed d tenantID approverID e =
     (if (case sm_superAdmin d of None \<Rightarrow> False | Some f \<Rightarrow> f approverID) then True
      else if el_ApproverSubjectType e = ApproverAuto then True
      else if el_ApproverSubjectType e = ApproverUser then el_ApproverSubjectID e = approverID
      else if el_ApproverSubjectType e = ApproverRole then sm_UserHasRole d tenantID approverID (el_ApproverSubjectID e)
      else if el_ApproverSubjectType e = ApproverGroup then sm_UserInGroup d tenantID approverID (el_ApproverSubjectID e)
      else False)"

section \<open>The repository\<close>

definition GetEligibility :: "access_faults \<Rightarrow> id \<Rightarrow> id \<Rightarrow> access_state \<Rightarrow> access_error + eligibility" where
  "GetEligibility flt i tenantID s =
     (if flt ''GetEligibility'' then Inl ErrAccessDb
      else case find (\<lambda>e. el_ID e = i \<and> el_TenantID e = tenantID) (ac_eligs s) of
        None \<Rightarrow> Inl ErrEligibilityNotFound
      | Some e \<Rightarrow> Inr e)"

definition ListEligibility :: "access_faults \<Rightarrow> id \<Rightarrow> access_state \<Rightarrow> access_error + eligibility list" where
  "ListEligibility flt tenantID s =
     (if flt ''ListEligibility'' then Inl ErrAccessDb
      else Inr (filter (\<lambda>e. el_TenantID e = tenantID) (ac_eligs s)))"

text \<open>\<open>UpdateEligibility\<close> writes the selected columns, not the status, owner or tenant.\<close>

definition repoUpdateEligibility :: "access_faults \<Rightarrow> eligibility \<Rightarrow> access_state \<Rightarrow> access_error + access_state" where
  "repoUpdateEligibility flt e s =
     (if flt ''UpdateEligibility'' then Inl ErrAccessDb
      else Inr (s\<lparr>ac_eligs := map (\<lambda>r. if el_ID r = el_ID e \<and> el_TenantID r = el_TenantID e
          then e\<lparr>el_Status := el_Status r, el_CreatedBy := el_CreatedBy r\<rparr> else r) (ac_eligs s)\<rparr>))"

definition repoDeleteEligibility :: "access_faults \<Rightarrow> id \<Rightarrow> id \<Rightarrow> access_state \<Rightarrow> access_error + access_state" where
  "repoDeleteEligibility flt i tenantID s =
     (if flt ''DeleteEligibility'' then Inl ErrAccessDb
      else Inr (s\<lparr>ac_eligs := filter (\<lambda>r. \<not> (el_ID r = i \<and> el_TenantID r = tenantID)) (ac_eligs s)\<rparr>))"

definition GetRequest :: "access_faults \<Rightarrow> id \<Rightarrow> id \<Rightarrow> access_state \<Rightarrow> access_error + access_request" where
  "GetRequest flt i tenantID s =
     (if flt ''GetRequest'' then Inl ErrAccessDb
      else case find (\<lambda>r. ar_ID r = i \<and> ar_TenantID r = tenantID) (ac_reqs s) of
        None \<Rightarrow> Inl ErrRequestNotFound
      | Some r \<Rightarrow> Inr r)"

text \<open>\<open>COALESCE(a, d) = COALESCE(b, d)\<close>\<close>

definition coalesce :: "'a option \<Rightarrow> 'a \<Rightarrow> 'a" where
  "coalesce a d = (case a of None \<Rightarrow> d | Some x \<Rightarrow> x)"

definition insertBindingTx ::
  "access_faults \<Rightarrow> access_request \<Rightarrow> id \<Rightarrow> time \<Rightarrow> access_state \<Rightarrow> access_error + access_state" where
  "insertBindingTx flt req bindingID expiresAt s =
     (if ar_TargetKind req = TargetConsole then
        (if flt ''deleteConsoleBinding'' \<or> flt ''insertConsoleBinding'' then Inl ErrAccessDb
         else Inr (s\<lparr>ac_console :=
           filter (\<lambda>b. \<not> (cb_RoleID b = ar_RoleID req \<and> cb_SubjectType b = ''user'' \<and>
                          cb_SubjectID b = ar_RequesterID req \<and>
                          coalesce (cb_ScopeType b) [] = coalesce (ar_ScopeType req) [] \<and>
                          coalesce (cb_ScopeID b) 0 = coalesce (ar_ScopeID req) 0)) (ac_console s)
           @ [\<lparr>cb_ID = bindingID, cb_RoleID = ar_RoleID req, cb_SubjectType = ''user'',
               cb_SubjectID = ar_RequesterID req, cb_ScopeType = ar_ScopeType req,
               cb_ScopeID = ar_ScopeID req, cb_GrantID = Some (ar_ID req),
               cb_ExpiresAt = Some expiresAt, cb_Status = 1\<rparr>]\<rparr>))
      else if ar_TargetKind req = TargetApp then
        (case ar_AppID req of
           None \<Rightarrow> Inl ErrAppIDRequired
         | Some app \<Rightarrow>
             if flt ''deleteAppBinding'' \<or> flt ''insertAppBinding'' then Inl ErrAccessDb
             else Inr (s\<lparr>ac_app :=
               filter (\<lambda>b. \<not> (ab_AppID b = app \<and> ab_TenantID b = ar_TenantID req \<and>
                              ab_RoleID b = ar_RoleID req \<and> ab_SubjectType b = ''user'' \<and>
                              ab_SubjectID b = ar_RequesterID req \<and> ab_AppGroupID b = None)) (ac_app s)
               @ [\<lparr>ab_ID = bindingID, ab_AppID = app, ab_TenantID = ar_TenantID req, ab_RoleID = ar_RoleID req,
                   ab_SubjectType = ''user'', ab_SubjectID = ar_RequesterID req, ab_AppGroupID = None,
                   ab_GrantID = Some (ar_ID req), ab_ExpiresAt = Some expiresAt, ab_Status = 1\<rparr>]\<rparr>))
      else Inl ErrUnknownTargetKind)"

text \<open>The guarded update of \<open>ApproveAndGrant\<close>: the rows still pending.\<close>

definition pendingRow :: "access_request \<Rightarrow> access_request \<Rightarrow> bool" where
  "pendingRow req r \<longleftrightarrow> ar_ID r = ar_ID req \<and> ar_TenantID r = ar_TenantID req \<and> ar_Status r = StatusPending"

definition ApproveAndGrant ::
  "access_faults \<Rightarrow> time \<Rightarrow> access_request \<Rightarrow> id \<Rightarrow> time \<Rightarrow> id \<Rightarrow> access_state \<Rightarrow> access_error + access_state" where
  "ApproveAndGrant flt now req approverID expiresAt newBindingID s =
     bindE (insertBindingTx flt req newBindingID expiresAt s) (\<lambda>s1.
       if flt ''approveUpdate'' then Inl ErrAccessDb
       else if \<not> list_ex (pendingRow req) (ac_reqs s1) then Inl ErrRequestNotPending
       else Inr (s1\<lparr>ac_reqs := map (\<lambda>r. if pendingRow req r
              then r\<lparr>ar_Status := StatusApproved, ar_ApproverID := Some approverID, ar_DecidedAt := Some now,
                     ar_ActivatedAt := Some now, ar_ExpiresAt := Some expiresAt, ar_BindingID := Some newBindingID\<rparr>
              else r) (ac_reqs s1)\<rparr>))"

definition UpdateRequestStatus ::
  "access_faults \<Rightarrow> time \<Rightarrow> id \<Rightarrow> id \<Rightarrow> string \<Rightarrow> string \<Rightarrow> id option \<Rightarrow> access_state \<Rightarrow> access_error + access_state" where
  "UpdateRequestStatus flt now i tenantID status reason approverID s =
     (if flt ''UpdateRequestStatus'' then Inl ErrAccessDb
      else Inr (s\<lparr>ac_reqs := map (\<lambda>r. if ar_ID r = i \<and> ar_TenantID r = tenantID
             then r\<lparr>ar_Status := status, ar_DecisionReason := reason,
                    ar_ApproverID := (case approverID of None \<Rightarrow> ar_ApproverID r | Some a \<Rightarrow> Some a),
                    ar_DecidedAt := Some now\<rparr>
             else r) (ac_reqs s)\<rparr>))"

definition EndGrant ::
  "access_faults \<Rightarrow> access_request \<Rightarrow> string \<Rightarrow> access_state \<Rightarrow> access_error + access_state" where
  "EndGrant flt req finalStatus s =
     (if ar_BindingID req \<noteq> None \<and> flt ''deleteBinding'' \<or> flt ''endGrantUpdate'' then Inl ErrAccessDb
      else
        let s1 = (case ar_BindingID req of
                    None \<Rightarrow> s
                  | Some b \<Rightarrow>
                      if ar_TargetKind req = TargetApp then s\<lparr>ac_app := filter (\<lambda>x. ab_ID x \<noteq> b) (ac_app s)\<rparr>
                      else s\<lparr>ac_console := filter (\<lambda>x. cb_ID x \<noteq> b) (ac_console s)\<rparr>)
        in Inr (s1\<lparr>ac_reqs := map (\<lambda>r. if ar_ID r = ar_ID req \<and> ar_TenantID r = ar_TenantID req
               then r\<lparr>ar_Status := finalStatus\<rparr> else r) (ac_reqs s1)\<rparr>))"

definition ListDueGrants :: "access_faults \<Rightarrow> time \<Rightarrow> access_state \<Rightarrow> access_error + access_request list" where
  "ListDueGrants flt now s =
     (if flt ''ListDueGrants'' then Inl ErrAccessDb
      else Inr (filter (\<lambda>r. ar_Status r = StatusApproved \<and>
             (case ar_ExpiresAt r of None \<Rightarrow> False | Some e \<Rightarrow> e \<le> now)) (ac_reqs s)))"

section \<open>The service\<close>

type_synonym 'a handler_result = "(access_error + 'a) \<times> access_state"

text \<open>A write that fails leaves the state as it was.\<close>

definition onState :: "access_state \<Rightarrow> access_error + access_state \<Rightarrow> (access_state \<Rightarrow> 'a handler_result) \<Rightarrow> 'a handler_result" where
  "onState s w k = (case w of Inl e \<Rightarrow> (Inl e, s) | Inr s' \<Rightarrow> k s')"

definition CreateEligibility ::
  "access_faults \<Rightarrow> id \<Rightarrow> id \<Rightarrow> id option \<Rightarrow> create_eligibility_request \<Rightarrow> access_state \<Rightarrow> eligibility handler_result" where
  "CreateEligibility flt newID tenantID createdBy req s =
     (case validateEligibilityRequest req of
        Some e \<Rightarrow> (Inl e, s)
      | None \<Rightarrow>
          let e = \<lparr>el_ID = newID, el_TenantID = tenantID, el_TargetKind = ce_TargetKind req, el_RoleID = ce_RoleID req,
                   el_ScopeType = ce_ScopeType req, el_ScopeID = ce_ScopeID req, el_AppID = ce_AppID req,
                   el_RequesterSubjectType = ce_RequesterSubjectType req,
                   el_RequesterSubjectID = ce_RequesterSubjectID req,
                   el_AllowedDurations = ce_AllowedDurations req, el_MaxDurationSeconds = ce_MaxDurationSeconds req,
                   el_ApproverSubjectType = orDefault (ce_ApproverSubjectType req) ApproverRole,
                   el_ApproverSubjectID = ce_ApproverSubjectID req,
                   el_RequireJustification = boolOrDefault (ce_RequireJustification req) True,
                   el_RequireStepUp = boolOrDefault (ce_RequireStepUp req) True,
                   el_Status = 1, el_CreatedBy = createdBy\<rparr>
          in if flt ''CreateEligibility'' then (Inl ErrAccessDb, s)
             else (Inr e, logged (Published EventEligibilityCreated newID) (s\<lparr>ac_eligs := ac_eligs s @ [e]\<rparr>)))"

definition UpdateEligibility ::
  "access_faults \<Rightarrow> id \<Rightarrow> id \<Rightarrow> create_eligibility_request \<Rightarrow> access_state \<Rightarrow> eligibility handler_result" where
  "UpdateEligibility flt tenantID i req s =
     (case validateEligibilityRequest req of
        Some e \<Rightarrow> (Inl e, s)
      | None \<Rightarrow>
          (case GetEligibility flt i tenantID s of
             Inl e \<Rightarrow> (Inl e, s)
           | Inr existing \<Rightarrow>
               let e = existing\<lparr>el_TargetKind := ce_TargetKind req, el_RoleID := ce_RoleID req,
                     el_ScopeType := ce_ScopeType req, el_ScopeID := ce_ScopeID req, el_AppID := ce_AppID req,
                     el_RequesterSubjectType := ce_RequesterSubjectType req,
                     el_RequesterSubjectID := ce_RequesterSubjectID req,
                     el_AllowedDurations := ce_AllowedDurations req,
                     el_MaxDurationSeconds := ce_MaxDurationSeconds req,
                     el_ApproverSubjectType := orDefault (ce_ApproverSubjectType req) ApproverRole,
                     el_ApproverSubjectID := ce_ApproverSubjectID req,
                     el_RequireJustification := boolOrDefault (ce_RequireJustification req) (el_RequireJustification existing),
                     el_RequireStepUp := boolOrDefault (ce_RequireStepUp req) (el_RequireStepUp existing)\<rparr>
               in onState s (repoUpdateEligibility flt e s) (\<lambda>s'.
                    (Inr e, logged (Published EventEligibilityUpdated i) s'))))"

definition DeleteEligibility :: "access_faults \<Rightarrow> id \<Rightarrow> id \<Rightarrow> access_state \<Rightarrow> unit handler_result" where
  "DeleteEligibility flt i tenantID s =
     (case GetEligibility flt i tenantID s of
        Inl e \<Rightarrow> (Inl e, s)
      | Inr existing \<Rightarrow>
          onState s (repoDeleteEligibility flt i tenantID s) (\<lambda>s'.
            (Inr (), logged (Published EventEligibilityDeleted (el_ID existing)) s')))"

definition ListEligibilityForRequester ::
  "access_faults \<Rightarrow> access_deps \<Rightarrow> id \<Rightarrow> id \<Rightarrow> access_state \<Rightarrow> access_error + eligibility list" where
  "ListEligibilityForRequester flt d tenantID userID s =
     bindE (ListEligibility flt tenantID s)
       (\<lambda>rows. Inr (filter (\<lambda>e. el_Status e = 1 \<and> requesterEligible d tenantID userID e) rows))"

text \<open>\<open>Approve\<close>: what it decides on the rows it read, and the write with what follows it. The clock is read
  twice: \<open>now\<close> in the service for the expiry, then \<open>now1\<close> in the repository for the row.\<close>

definition approveCheck ::
  "access_faults \<Rightarrow> access_deps \<Rightarrow> id \<Rightarrow> id \<Rightarrow> id \<Rightarrow> access_state \<Rightarrow> access_error + access_request" where
  "approveCheck flt d tenantID requestID approverID s =
     bindE (GetRequest flt requestID tenantID s) (\<lambda>req.
       if ar_Status req \<noteq> StatusPending then Inl ErrRequestNotPending
       else if approverID = ar_RequesterID req then Inl ErrSelfApproval
       else bindE (GetEligibility flt (ar_EligibilityID req) tenantID s) (\<lambda>elig.
         if \<not> approverAllowed d tenantID approverID elig then Inl ErrApproverNotEligible else Inr req))"

definition approveWrite ::
  "access_faults \<Rightarrow> time \<Rightarrow> time \<Rightarrow> id \<Rightarrow> id \<Rightarrow> id \<Rightarrow> access_request \<Rightarrow> access_state \<Rightarrow> access_request handler_result" where
  "approveWrite flt now now1 bindingID tenantID approverID req s =
     (let expiresAt = now + wrap64 (ar_RequestedSeconds req * Second) in
      onState s (ApproveAndGrant flt now1 req approverID expiresAt bindingID s) (\<lambda>s1.
        let req' = req\<lparr>ar_Status := StatusApproved, ar_ExpiresAt := Some expiresAt, ar_BindingID := Some bindingID\<rparr>
        in (Inr req',
            logged (Published (EventGrantActivated approverID) (ar_ID req))
              (logged (Published EventRequestApproved (ar_ID req))
                (logged (Invalidated tenantID (ar_RequesterID req)) s1)))))"

definition Approve ::
  "access_faults \<Rightarrow> access_deps \<Rightarrow> time \<Rightarrow> time \<Rightarrow> id \<Rightarrow> id \<Rightarrow> id \<Rightarrow> id \<Rightarrow> access_state \<Rightarrow> access_request handler_result" where
  "Approve flt d now now1 bindingID tenantID requestID approverID s =
     (case approveCheck flt d tenantID requestID approverID s of
        Inl e \<Rightarrow> (Inl e, s)
      | Inr req \<Rightarrow> approveWrite flt now now1 bindingID tenantID approverID req s)"

definition CreateRequest ::
  "access_faults \<Rightarrow> access_deps \<Rightarrow> time \<Rightarrow> time \<Rightarrow> id \<Rightarrow> id \<Rightarrow> id \<Rightarrow> id \<Rightarrow> create_access_request \<Rightarrow> access_state \<Rightarrow>
   access_request handler_result" where
  "CreateRequest flt d now now1 newID bindingID tenantID requesterID inp s =
     (case GetEligibility flt (ca_EligibilityID inp) tenantID s of
        Inl e \<Rightarrow> (Inl e, s)
      | Inr elig \<Rightarrow>
          if el_Status elig \<noteq> 1 then (Inl ErrRequestNotAllowed, s)
          else if \<not> requesterEligible d tenantID requesterID elig then (Inl ErrRequestNotAllowed, s)
          else if \<not> DurationAllowed elig (ca_RequestedSeconds inp) then (Inl ErrRequestNotAllowed, s)
          else if el_RequireJustification elig \<and> ca_Justification inp = [] then (Inl ErrRequestNotAllowed, s)
          else
            let req = \<lparr>ar_ID = newID, ar_TenantID = tenantID, ar_RequesterID = requesterID,
                  ar_EligibilityID = el_ID elig, ar_TargetKind = el_TargetKind elig, ar_RoleID = el_RoleID elig,
                  ar_ScopeType = el_ScopeType elig, ar_ScopeID = el_ScopeID elig, ar_AppID = el_AppID elig,
                  ar_RequestedSeconds = ClampDuration elig (ca_RequestedSeconds inp),
                  ar_Justification = ca_Justification inp, ar_Status = StatusPending, ar_ApproverID = None,
                  ar_DecidedAt = None, ar_DecisionReason = [], ar_ActivatedAt = None, ar_ExpiresAt = None,
                  ar_BindingID = None\<rparr>
            in if flt ''CreateRequest'' then (Inl ErrAccessDb, s)
               else
                 let s1 = logged (Published EventRequestCreated newID) (s\<lparr>ac_reqs := ac_reqs s @ [req]\<rparr>)
                 in if el_ApproverSubjectType elig = ApproverAuto
                    then Approve flt d now now1 bindingID tenantID newID 0 s1
                    else (Inr req, s1))"

definition rejectCheck :: "access_faults \<Rightarrow> id \<Rightarrow> id \<Rightarrow> access_state \<Rightarrow> access_error + access_request" where
  "rejectCheck flt tenantID requestID s =
     bindE (GetRequest flt requestID tenantID s) (\<lambda>req.
       if ar_Status req \<noteq> StatusPending then Inl ErrRequestNotPending else Inr req)"

definition rejectWrite ::
  "access_faults \<Rightarrow> time \<Rightarrow> id \<Rightarrow> id \<Rightarrow> string \<Rightarrow> access_request \<Rightarrow> access_state \<Rightarrow> unit handler_result" where
  "rejectWrite flt now tenantID approverID reason req s =
     onState s (UpdateRequestStatus flt now (ar_ID req) tenantID StatusRejected reason (Some approverID) s) (\<lambda>s'.
       (Inr (), logged (Published EventRequestRejected (ar_ID req)) s'))"

definition Reject ::
  "access_faults \<Rightarrow> time \<Rightarrow> id \<Rightarrow> id \<Rightarrow> id \<Rightarrow> string \<Rightarrow> access_state \<Rightarrow> unit handler_result" where
  "Reject flt now tenantID requestID approverID reason s =
     (case rejectCheck flt tenantID requestID s of
        Inl e \<Rightarrow> (Inl e, s)
      | Inr req \<Rightarrow> rejectWrite flt now tenantID approverID reason req s)"

definition Cancel ::
  "access_faults \<Rightarrow> time \<Rightarrow> id \<Rightarrow> id \<Rightarrow> id \<Rightarrow> access_state \<Rightarrow> unit handler_result" where
  "Cancel flt now tenantID requestID requesterID s =
     (case GetRequest flt requestID tenantID s of
        Inl e \<Rightarrow> (Inl e, s)
      | Inr req \<Rightarrow>
          if ar_RequesterID req \<noteq> requesterID then (Inl ErrRequestNotCancellable, s)
          else if ar_Status req \<noteq> StatusPending then (Inl ErrRequestNotCancellable, s)
          else onState s (UpdateRequestStatus flt now requestID tenantID StatusCancelled [] None s) (\<lambda>s'.
            (Inr (), logged (Published EventRequestCancelled (ar_ID req)) s')))"

definition terminateIfApp :: "access_request \<Rightarrow> access_state \<Rightarrow> access_state" where
  "terminateIfApp req s =
     (case ar_AppID req of
        Some app \<Rightarrow> if ar_TargetKind req = TargetApp
          then logged (Terminated (ar_TenantID req) (ar_RequesterID req) app) s else s
      | None \<Rightarrow> s)"

definition endWrite ::
  "access_faults \<Rightarrow> string \<Rightarrow> access_event \<Rightarrow> id \<Rightarrow> access_request \<Rightarrow> access_state \<Rightarrow> unit handler_result" where
  "endWrite flt finalStatus ev tenantID req s =
     onState s (EndGrant flt req finalStatus s) (\<lambda>s'.
       (Inr (), terminateIfApp req (logged (Published ev (ar_ID req))
                  (logged (Invalidated tenantID (ar_RequesterID req)) s'))))"

definition Revoke :: "access_faults \<Rightarrow> id \<Rightarrow> id \<Rightarrow> access_state \<Rightarrow> unit handler_result" where
  "Revoke flt tenantID requestID s =
     (case GetRequest flt requestID tenantID s of
        Inl e \<Rightarrow> (Inl e, s)
      | Inr req \<Rightarrow>
          if ar_Status req \<noteq> StatusApproved then (Inl ErrGrantNotRevocable, s)
          else endWrite flt StatusRevoked EventGrantRevoked tenantID req s)"

definition Expire :: "access_faults \<Rightarrow> access_request \<Rightarrow> access_state \<Rightarrow> unit handler_result" where
  "Expire flt req s = endWrite flt StatusExpired EventGrantExpired (ar_TenantID req) req s"

text \<open>The sweeper: each due grant on its own, errors skipped; the count of grants expired.\<close>

fun sweepLoop :: "(access_request \<Rightarrow> access_faults) \<Rightarrow> access_request list \<Rightarrow> access_state \<Rightarrow> nat \<times> access_state" where
  "sweepLoop flt [] s = (0, s)"
| "sweepLoop flt (req # due) s =
     (case Expire (flt req) req s of
        (Inl _, s') \<Rightarrow> sweepLoop flt due s'
      | (Inr _, s') \<Rightarrow> (case sweepLoop flt due s' of (n, s'') \<Rightarrow> (Suc n, s'')))"

definition sweepOnce ::
  "access_faults \<Rightarrow> (access_request \<Rightarrow> access_faults) \<Rightarrow> time \<Rightarrow> access_state \<Rightarrow> nat \<times> access_state" where
  "sweepOnce lflt flt now s =
     (case ListDueGrants lflt now s of
        Inl _ \<Rightarrow> (0, s)
      | Inr due \<Rightarrow> sweepLoop flt due s)"

section \<open>Downstream logout\<close>

text \<open>\<open>CompositeTerminator\<close>: which protocol's dispatcher is called, if it is wired.\<close>

datatype dispatch = ByOIDC | BySAML | ByCAS

definition TerminateAppSession ::
  "(id \<Rightarrow> unit + string) \<Rightarrow> (dispatch \<Rightarrow> bool) \<Rightarrow> id \<Rightarrow> dispatch option" where
  "TerminateAppSession resolver wired appID =
     (case resolver appID of
        Inl _ \<Rightarrow> None
      | Inr proto \<Rightarrow>
          if proto = ''oidc'' then (if wired ByOIDC then Some ByOIDC else None)
          else if proto = ''saml'' then (if wired BySAML then Some BySAML else None)
          else if proto = ''cas'' then (if wired ByCAS then Some ByCAS else None)
          else None)"

end
