(* ===== verification/AccessProofs.thy ===== *)
theory AccessProofs
  imports Access
begin

text \<open>
  What just-in-time access guarantees: every binding it creates belongs to an approved request, was
  approved by somebody else, and ends within the request's duration, which is at most seven days; this
  is an invariant of all handlers, with approvals, revocations and expiries allowed to act on rows read
  earlier. A failed approval changes nothing, concurrent approvals grant once, the sweeper ends every
  due grant. Two behaviours that break the intent are shown at the end.
\<close>

section \<open>The invariant\<close>

definition elig_ok :: "eligibility \<Rightarrow> bool" where
  "elig_ok e \<longleftrightarrow> 0 < el_MaxDurationSeconds e \<and> el_MaxDurationSeconds e \<le> maxEligibilityTTL \<and>
     (\<forall>d \<in> set (el_AllowedDurations e). 0 < d \<and> d \<le> el_MaxDurationSeconds e) \<and>
     (el_TargetKind e = TargetConsole \<or> el_TargetKind e = TargetApp \<and> el_AppID e \<noteq> None)"

definition req_ok :: "access_request \<Rightarrow> bool" where
  "req_ok r \<longleftrightarrow> 0 < ar_RequestedSeconds r \<and> ar_RequestedSeconds r \<le> maxEligibilityTTL \<and>
     (ar_TargetKind r = TargetConsole \<or> ar_TargetKind r = TargetApp \<and> ar_AppID r \<noteq> None) \<and>
     (ar_Status r = StatusApproved \<longrightarrow>
        (\<exists>a t0 t b. ar_ApproverID r = Some a \<and> a \<noteq> ar_RequesterID r \<and> ar_ActivatedAt r = Some t \<and> t0 \<le> t \<and>
           ar_ExpiresAt r = Some (t0 + ar_RequestedSeconds r * Second) \<and> ar_BindingID r = Some b))"

definition console_ok :: "access_request list \<Rightarrow> console_binding \<Rightarrow> bool" where
  "console_ok reqs b \<longleftrightarrow> (\<forall>g. cb_GrantID b = Some g \<longrightarrow>
     (\<exists>r \<in> set reqs. ar_ID r = g \<and> ar_Status r = StatusApproved \<and> ar_TargetKind r = TargetConsole \<and>
        ar_BindingID r = Some (cb_ID b) \<and> cb_SubjectType b = ''user'' \<and> cb_SubjectID b = ar_RequesterID r \<and>
        cb_RoleID b = ar_RoleID r \<and> cb_ExpiresAt b = ar_ExpiresAt r))"

definition app_ok :: "access_request list \<Rightarrow> app_binding \<Rightarrow> bool" where
  "app_ok reqs b \<longleftrightarrow> (\<forall>g. ab_GrantID b = Some g \<longrightarrow>
     (\<exists>r \<in> set reqs. ar_ID r = g \<and> ar_Status r = StatusApproved \<and> ar_TargetKind r = TargetApp \<and>
        ar_BindingID r = Some (ab_ID b) \<and> ab_SubjectType b = ''user'' \<and> ab_SubjectID b = ar_RequesterID r \<and>
        ab_RoleID b = ar_RoleID r \<and> ab_ExpiresAt b = ar_ExpiresAt r))"

definition access_inv :: "access_state \<Rightarrow> bool" where
  "access_inv s \<longleftrightarrow>
     (\<forall>e \<in> set (ac_eligs s). elig_ok e) \<and> distinct (map ar_ID (ac_reqs s)) \<and>
     (\<forall>r \<in> set (ac_reqs s). req_ok r) \<and>
     (\<forall>b \<in> set (ac_console s). console_ok (ac_reqs s) b) \<and> (\<forall>b \<in> set (ac_app s). app_ok (ac_reqs s) b)"

text \<open>The columns of a request no handler changes.\<close>

definition same_request :: "access_request \<Rightarrow> access_request \<Rightarrow> bool" where
  "same_request r h \<longleftrightarrow> ar_ID r = ar_ID h \<and> ar_TenantID r = ar_TenantID h \<and> ar_RequesterID r = ar_RequesterID h \<and>
     ar_TargetKind r = ar_TargetKind h \<and> ar_RoleID r = ar_RoleID h \<and> ar_AppID r = ar_AppID h \<and>
     ar_RequestedSeconds r = ar_RequestedSeconds h"

text \<open>A row \<open>h\<close> read at some time against the table now: the row is still there with the same fixed
  columns, has left the pending state if \<open>h\<close> had, and has the binding \<open>h\<close> had.\<close>

definition seen_ok :: "access_request list \<Rightarrow> access_request \<Rightarrow> bool" where
  "seen_ok reqs h \<longleftrightarrow> req_ok h \<and>
     (\<exists>r \<in> set reqs. same_request r h \<and> (ar_Status h \<noteq> StatusPending \<longrightarrow> ar_Status r \<noteq> StatusPending) \<and>
        (ar_Status h = StatusApproved \<longrightarrow> ar_BindingID r = ar_BindingID h))"

lemma access_inv_logged [simp]: "access_inv (logged l s) = access_inv s"
  by (simp add: access_inv_def logged_def)

lemma logged_fields [simp]:
  "ac_reqs (logged l s) = ac_reqs s" "ac_console (logged l s) = ac_console s"
  "ac_app (logged l s) = ac_app s" "ac_eligs (logged l s) = ac_eligs s"
  by (simp_all add: logged_def)

lemma terminateIfApp_fields [simp]:
  "ac_reqs (terminateIfApp r s) = ac_reqs s" "ac_console (terminateIfApp r s) = ac_console s"
  "ac_app (terminateIfApp r s) = ac_app s" "ac_eligs (terminateIfApp r s) = ac_eligs s"
  "access_inv (terminateIfApp r s) = access_inv s"
  by (simp_all add: terminateIfApp_def split: option.split)

lemma statuses_distinct [simp]:
  "StatusApproved \<noteq> StatusPending" "StatusRejected \<noteq> StatusPending" "StatusRejected \<noteq> StatusApproved"
  "StatusCancelled \<noteq> StatusPending" "StatusCancelled \<noteq> StatusApproved" "StatusExpired \<noteq> StatusPending"
  "StatusExpired \<noteq> StatusApproved" "StatusRevoked \<noteq> StatusPending" "StatusRevoked \<noteq> StatusApproved"
  "StatusPending \<noteq> StatusApproved" "TargetApp \<noteq> TargetConsole" "TargetConsole \<noteq> TargetApp"
  by (simp_all add: access_consts)

lemma same_request_refl [simp]: "same_request r r"
  by (simp add: same_request_def)

lemma inv_unique:
  "access_inv s \<Longrightarrow> r \<in> set (ac_reqs s) \<Longrightarrow> q \<in> set (ac_reqs s) \<Longrightarrow> ar_ID r = ar_ID q \<Longrightarrow> r = q"
  by (auto simp: access_inv_def distinct_map inj_on_def)

lemma inv_req: "access_inv s \<Longrightarrow> r \<in> set (ac_reqs s) \<Longrightarrow> req_ok r"
  by (simp add: access_inv_def)

lemma seconds_fit: "req_ok r \<Longrightarrow> wrap64 (ar_RequestedSeconds r * Second) = ar_RequestedSeconds r * Second"
  by (rule wrap64_id) (auto simp: req_ok_def maxEligibilityTTL_def)

section \<open>Changing the status of requests\<close>

text \<open>A rewriting of the request rows that fixes ids and, on rows that back a binding, everything the
  binding refers to.\<close>

lemma inv_map_reqs:
  assumes inv: "access_inv s"
    and ids: "\<And>r. r \<in> set (ac_reqs s) \<Longrightarrow> ar_ID (f r) = ar_ID r \<and> req_ok (f r)"
    and s': "ac_eligs s' = ac_eligs s" "ac_reqs s' = map f (ac_reqs s)"
    and con: "\<And>b. b \<in> set (ac_console s') \<Longrightarrow> console_ok (map f (ac_reqs s)) b"
    and app: "\<And>b. b \<in> set (ac_app s') \<Longrightarrow> app_ok (map f (ac_reqs s)) b"
  shows "access_inv s'"
proof -
  have "map ar_ID (map f (ac_reqs s)) = map ar_ID (ac_reqs s)" using ids by (simp add: comp_def)
  then have "distinct (map ar_ID (map f (ac_reqs s)))" using inv unfolding access_inv_def by metis
  then show ?thesis using inv ids con app by (auto simp: access_inv_def s')
qed

lemma console_ok_map:
  assumes "console_ok reqs b"
    and "\<And>r. r \<in> set reqs \<Longrightarrow> cb_GrantID b = Some (ar_ID r) \<Longrightarrow> ar_BindingID r = Some (cb_ID b) \<Longrightarrow>
      ar_Status r = StatusApproved \<Longrightarrow> ar_TargetKind r = TargetConsole \<Longrightarrow> f r = r"
  shows "console_ok (map f reqs) b"
  unfolding console_ok_def
proof (intro allI impI)
  fix g assume g: "cb_GrantID b = Some g"
  then obtain r where r: "r \<in> set reqs" "ar_ID r = g" "ar_Status r = StatusApproved" "ar_TargetKind r = TargetConsole"
      "ar_BindingID r = Some (cb_ID b)" "cb_SubjectType b = ''user''" "cb_SubjectID b = ar_RequesterID r"
      "cb_RoleID b = ar_RoleID r" "cb_ExpiresAt b = ar_ExpiresAt r"
    using assms(1) unfolding console_ok_def by blast
  then have "f r = r" using assms(2) g by blast
  then have "r \<in> set (map f reqs)" using r(1) by (metis imageI set_map)
  with r show "\<exists>r \<in> set (map f reqs). ar_ID r = g \<and> ar_Status r = StatusApproved \<and> ar_TargetKind r = TargetConsole \<and>
        ar_BindingID r = Some (cb_ID b) \<and> cb_SubjectType b = ''user'' \<and> cb_SubjectID b = ar_RequesterID r \<and>
        cb_RoleID b = ar_RoleID r \<and> cb_ExpiresAt b = ar_ExpiresAt r" by blast
qed

lemma app_ok_map:
  assumes "app_ok reqs b"
    and "\<And>r. r \<in> set reqs \<Longrightarrow> ab_GrantID b = Some (ar_ID r) \<Longrightarrow> ar_BindingID r = Some (ab_ID b) \<Longrightarrow>
      ar_Status r = StatusApproved \<Longrightarrow> ar_TargetKind r = TargetApp \<Longrightarrow> f r = r"
  shows "app_ok (map f reqs) b"
  unfolding app_ok_def
proof (intro allI impI)
  fix g assume g: "ab_GrantID b = Some g"
  then obtain r where r: "r \<in> set reqs" "ar_ID r = g" "ar_Status r = StatusApproved" "ar_TargetKind r = TargetApp"
      "ar_BindingID r = Some (ab_ID b)" "ab_SubjectType b = ''user''" "ab_SubjectID b = ar_RequesterID r"
      "ab_RoleID b = ar_RoleID r" "ab_ExpiresAt b = ar_ExpiresAt r"
    using assms(1) unfolding app_ok_def by blast
  then have "f r = r" using assms(2) g by blast
  then have "r \<in> set (map f reqs)" using r(1) by (metis imageI set_map)
  with r show "\<exists>r \<in> set (map f reqs). ar_ID r = g \<and> ar_Status r = StatusApproved \<and> ar_TargetKind r = TargetApp \<and>
        ar_BindingID r = Some (ab_ID b) \<and> ab_SubjectType b = ''user'' \<and> ab_SubjectID b = ar_RequesterID r \<and>
        ab_RoleID b = ar_RoleID r \<and> ab_ExpiresAt b = ar_ExpiresAt r" by blast
qed

lemma seen_ok_map:
  assumes "seen_ok reqs h"
    and "\<And>r. r \<in> set reqs \<Longrightarrow> same_request (f r) r \<and> (ar_Status r \<noteq> StatusPending \<longrightarrow> ar_Status (f r) \<noteq> StatusPending) \<and>
      (ar_Status r \<noteq> StatusPending \<longrightarrow> ar_BindingID (f r) = ar_BindingID r)"
  shows "seen_ok (map f reqs) h"
proof -
  obtain r where r: "r \<in> set reqs" "same_request r h" "ar_Status h \<noteq> StatusPending \<longrightarrow> ar_Status r \<noteq> StatusPending"
      "ar_Status h = StatusApproved \<longrightarrow> ar_BindingID r = ar_BindingID h" "req_ok h"
    using assms(1) unfolding seen_ok_def by blast
  have "f r \<in> set (map f reqs)" using r(1) by simp
  moreover have "same_request (f r) h" using assms(2) [OF r(1)] r(2) by (simp add: same_request_def)
  ultimately show ?thesis using assms(2) [OF r(1)] r unfolding seen_ok_def by (metis statuses_distinct(1))
qed

section \<open>The writes keep the invariant\<close>

definition approvedRow :: "time \<Rightarrow> access_request \<Rightarrow> id \<Rightarrow> time \<Rightarrow> id \<Rightarrow> access_request \<Rightarrow> access_request" where
  "approvedRow now req a e b r =
     (if pendingRow req r
      then r\<lparr>ar_Status := StatusApproved, ar_ApproverID := Some a, ar_DecidedAt := Some now,
             ar_ActivatedAt := Some now, ar_ExpiresAt := Some e, ar_BindingID := Some b\<rparr>
      else r)"

lemma approvedRow_ids [simp]:
  "ar_ID (approvedRow now req a e b r) = ar_ID r" "ar_TenantID (approvedRow now req a e b r) = ar_TenantID r"
  by (simp_all add: approvedRow_def)

lemma approvedRow_approved: "ar_Status r = StatusApproved \<Longrightarrow> approvedRow now req a e b r = r"
  by (simp add: approvedRow_def pendingRow_def)

lemma ApproveAndGrant_ok:
  assumes "ApproveAndGrant flt now req a e b s = Inr s'"
  shows "list_ex (pendingRow req) (ac_reqs s) \<and> ac_eligs s' = ac_eligs s \<and> ac_log s' = ac_log s \<and>
    ac_reqs s' = map (approvedRow now req a e b) (ac_reqs s) \<and>
    (\<forall>x \<in> set (ac_console s'). x \<in> set (ac_console s) \<or> ar_TargetKind req = TargetConsole \<and>
       x = \<lparr>cb_ID = b, cb_RoleID = ar_RoleID req, cb_SubjectType = ''user'', cb_SubjectID = ar_RequesterID req,
            cb_ScopeType = ar_ScopeType req, cb_ScopeID = ar_ScopeID req, cb_GrantID = Some (ar_ID req),
            cb_ExpiresAt = Some e, cb_Status = 1\<rparr>) \<and>
    (\<forall>x \<in> set (ac_app s'). x \<in> set (ac_app s) \<or> ar_TargetKind req = TargetApp \<and>
       (\<exists>app. x = \<lparr>ab_ID = b, ab_AppID = app, ab_TenantID = ar_TenantID req, ab_RoleID = ar_RoleID req,
            ab_SubjectType = ''user'', ab_SubjectID = ar_RequesterID req, ab_AppGroupID = None,
            ab_GrantID = Some (ar_ID req), ab_ExpiresAt = Some e, ab_Status = 1\<rparr>))"
  using assms
  by (auto simp: ApproveAndGrant_def insertBindingTx_def bindE_eq_Inr approvedRow_def [abs_def]
      split: if_splits option.splits)

lemma approvedRow_req_ok:
  assumes "same_request r req" and "req_ok req" and "req_ok r" and "a \<noteq> ar_RequesterID req"
    and "now \<le> now1"
  shows "req_ok (approvedRow now1 req a (now + ar_RequestedSeconds req * Second) b r)"
  using assms by (auto simp: approvedRow_def req_ok_def same_request_def)

lemma seen_row:
  assumes inv: "access_inv s" and seen: "seen_ok (ac_reqs s) req" and r: "r \<in> set (ac_reqs s)" and i: "ar_ID r = ar_ID req"
  shows "same_request r req"
  using seen inv_unique [OF inv r] i unfolding seen_ok_def same_request_def by metis

lemma approve_inv:
  assumes inv: "access_inv s" and seen: "seen_ok (ac_reqs s) req" and ne: "a \<noteq> ar_RequesterID req"
    and clock: "now \<le> now1" and ok: "ApproveAndGrant flt now1 req a (now + wrap64 (ar_RequestedSeconds req * Second)) b s = Inr s'"
  shows "access_inv s'"
proof -
  have rq: "req_ok req" using seen by (simp add: seen_ok_def)
  let ?e = "now + ar_RequestedSeconds req * Second"
  let ?f = "approvedRow now1 req a ?e b"
  note ok' = ApproveAndGrant_ok [OF ok [unfolded seconds_fit [OF rq]]]
  obtain r0 where r0: "r0 \<in> set (ac_reqs s)" "pendingRow req r0" using ok' by (auto simp: list_ex_iff)
  have same: "same_request r0 req" using seen_row [OF inv seen r0(1)] r0(2) by (simp add: pendingRow_def)
  have f0: "?f r0 \<in> set (map ?f (ac_reqs s))" using r0(1) by simp
  show ?thesis
  proof (rule inv_map_reqs [OF inv, where f = ?f])
    fix r assume r: "r \<in> set (ac_reqs s)"
    show "ar_ID (?f r) = ar_ID r \<and> req_ok (?f r)"
    proof (cases "pendingRow req r")
      case True
      then have "same_request r req" using seen_row [OF inv seen r] by (simp add: pendingRow_def)
      then show ?thesis using approvedRow_req_ok [OF _ rq inv_req [OF inv r] ne clock] by (simp add: approvedRow_def)
    next
      case False
      then show ?thesis using inv_req [OF inv r] by (simp add: approvedRow_def)
    qed
  next
    fix x assume "x \<in> set (ac_console s')"
    then consider "x \<in> set (ac_console s)" | "ar_TargetKind req = TargetConsole"
        "x = \<lparr>cb_ID = b, cb_RoleID = ar_RoleID req, cb_SubjectType = ''user'', cb_SubjectID = ar_RequesterID req,
            cb_ScopeType = ar_ScopeType req, cb_ScopeID = ar_ScopeID req, cb_GrantID = Some (ar_ID req),
            cb_ExpiresAt = Some ?e, cb_Status = 1\<rparr>" using ok' by blast
    then show "console_ok (map ?f (ac_reqs s)) x"
    proof cases
      case 1
      then have "console_ok (ac_reqs s) x" using inv by (simp add: access_inv_def)
      then show ?thesis by (rule console_ok_map) (simp add: approvedRow_approved)
    next
      case 2
      show ?thesis unfolding console_ok_def
        by (intro allI impI bexI [OF _ f0])
          (use 2 r0(2) same in \<open>auto simp: approvedRow_def same_request_def\<close>)
    qed
  next
    fix x assume "x \<in> set (ac_app s')"
    then consider "x \<in> set (ac_app s)" | app where "ar_TargetKind req = TargetApp"
        "x = \<lparr>ab_ID = b, ab_AppID = app, ab_TenantID = ar_TenantID req, ab_RoleID = ar_RoleID req,
            ab_SubjectType = ''user'', ab_SubjectID = ar_RequesterID req, ab_AppGroupID = None,
            ab_GrantID = Some (ar_ID req), ab_ExpiresAt = Some ?e, ab_Status = 1\<rparr>" using ok' by blast
    then show "app_ok (map ?f (ac_reqs s)) x"
    proof cases
      case 1
      then have "app_ok (ac_reqs s) x" using inv by (simp add: access_inv_def)
      then show ?thesis by (rule app_ok_map) (simp add: approvedRow_approved)
    next
      case 2
      show ?thesis unfolding app_ok_def
        by (intro allI impI bexI [OF _ f0])
          (use 2 r0(2) same in \<open>auto simp: approvedRow_def same_request_def\<close>)
    qed
  qed (use ok' in auto)
qed

lemma approve_seen:
  assumes "ApproveAndGrant flt now req a e b s = Inr s'" and "seen_ok (ac_reqs s) h"
  shows "seen_ok (ac_reqs s') h"
proof -
  have "ac_reqs s' = map (approvedRow now req a e b) (ac_reqs s)" using ApproveAndGrant_ok [OF assms(1)] by blast
  then show ?thesis
    using seen_ok_map [OF assms(2), of "approvedRow now req a e b"]
    by (simp add: approvedRow_def pendingRow_def same_request_def)
qed

text \<open>Ending a grant on a row read earlier: its binding goes, and no other row loses its own.\<close>

lemma EndGrant_ok:
  assumes "EndGrant flt req fin s = Inr s'" and "ar_BindingID req = Some b"
  shows "ac_eligs s' = ac_eligs s \<and>
    ac_reqs s' = map (\<lambda>r. if ar_ID r = ar_ID req \<and> ar_TenantID r = ar_TenantID req then r\<lparr>ar_Status := fin\<rparr> else r) (ac_reqs s) \<and>
    (\<forall>x \<in> set (ac_console s'). x \<in> set (ac_console s) \<and> (ar_TargetKind req \<noteq> TargetApp \<longrightarrow> cb_ID x \<noteq> b)) \<and>
    (\<forall>x \<in> set (ac_app s'). x \<in> set (ac_app s) \<and> (ar_TargetKind req = TargetApp \<longrightarrow> ab_ID x \<noteq> b))"
  using assms by (auto simp: EndGrant_def Let_def split: if_splits)

lemma end_inv:
  assumes inv: "access_inv s" and seen: "seen_ok (ac_reqs s) req" and ap: "ar_Status req = StatusApproved"
    and fin: "fin \<noteq> StatusApproved" and ok: "EndGrant flt req fin s = Inr s'"
  shows "access_inv s'"
proof -
  obtain b where b: "ar_BindingID req = Some b" using seen ap by (auto simp: seen_ok_def req_ok_def)
  let ?f = "\<lambda>r. if ar_ID r = ar_ID req \<and> ar_TenantID r = ar_TenantID req then r\<lparr>ar_Status := fin\<rparr> else r"
  note ok' = EndGrant_ok [OF ok b]
  obtain r0 where r0: "r0 \<in> set (ac_reqs s)" "same_request r0 req" "ar_BindingID r0 = Some b"
    using seen ap b by (auto simp: seen_ok_def)
  have row: "r = r0" if "r \<in> set (ac_reqs s)" "ar_ID r = ar_ID req" for r
    using inv_unique [OF inv that(1) r0(1)] that(2) r0(2) by (simp add: same_request_def)
  show ?thesis
  proof (rule inv_map_reqs [OF inv, where f = ?f])
    fix r assume "r \<in> set (ac_reqs s)"
    then show "ar_ID (?f r) = ar_ID r \<and> req_ok (?f r)" using inv_req [OF inv] fin by (auto simp: req_ok_def)
  next
    fix x assume x: "x \<in> set (ac_console s')"
    then have "console_ok (ac_reqs s) x" using ok' inv by (simp add: access_inv_def)
    then show "console_ok (map ?f (ac_reqs s)) x"
    proof (rule console_ok_map)
      fix r assume r: "r \<in> set (ac_reqs s)" "ar_BindingID r = Some (cb_ID x)" "ar_TargetKind r = TargetConsole"
      have "ar_ID r \<noteq> ar_ID req"
      proof
        assume "ar_ID r = ar_ID req"
        then have "r = r0" by (rule row [OF r(1)])
        then show False using r(2,3) r0(2,3) x ok' by (auto simp: same_request_def)
      qed
      then show "?f r = r" by simp
    qed
  next
    fix x assume x: "x \<in> set (ac_app s')"
    then have "app_ok (ac_reqs s) x" using ok' inv by (simp add: access_inv_def)
    then show "app_ok (map ?f (ac_reqs s)) x"
    proof (rule app_ok_map)
      fix r assume r: "r \<in> set (ac_reqs s)" "ar_BindingID r = Some (ab_ID x)" "ar_TargetKind r = TargetApp"
      have "ar_ID r \<noteq> ar_ID req"
      proof
        assume "ar_ID r = ar_ID req"
        then have "r = r0" by (rule row [OF r(1)])
        then show False using r(2,3) r0(2,3) x ok' by (auto simp: same_request_def)
      qed
      then show "?f r = r" by simp
    qed
  qed (use ok' in auto)
qed

lemma end_seen:
  assumes ok: "EndGrant flt req fin s = Inr s'" and fin: "fin \<noteq> StatusPending" and b: "ar_BindingID req = Some b"
    and h: "seen_ok (ac_reqs s) h"
  shows "seen_ok (ac_reqs s') h"
proof -
  have eq: "ac_reqs s' = map (\<lambda>r. if ar_ID r = ar_ID req \<and> ar_TenantID r = ar_TenantID req then r\<lparr>ar_Status := fin\<rparr> else r)
      (ac_reqs s)" using EndGrant_ok [OF ok b] by blast
  show ?thesis unfolding eq by (rule seen_ok_map [OF h]) (simp add: same_request_def fin)
qed

section \<open>All handlers, interleaved\<close>

text \<open>A write is safe when it keeps the invariant and every row read earlier stays a row of the past.\<close>

definition keeps :: "access_state \<Rightarrow> access_state \<Rightarrow> bool" where
  "keeps s s' \<longleftrightarrow> access_inv s' \<and> (\<forall>h. seen_ok (ac_reqs s) h \<longrightarrow> seen_ok (ac_reqs s') h)"

lemma keeps_refl: "access_inv s \<Longrightarrow> keeps s s"
  by (simp add: keeps_def)

lemma keeps_trans: "keeps s s1 \<Longrightarrow> keeps s1 s2 \<Longrightarrow> keeps s s2"
  by (simp add: keeps_def)

lemma keeps_logged [simp]: "keeps s (logged l s') = keeps s s'"
  by (simp add: keeps_def)

lemma keeps_terminate [simp]: "keeps s (terminateIfApp r s') = keeps s s'"
  by (simp add: keeps_def)

lemma inv_seen: "access_inv s \<Longrightarrow> h \<in> set (ac_reqs s) \<Longrightarrow> seen_ok (ac_reqs s) h"
  unfolding seen_ok_def by (intro conjI bexI [of _ h]) (simp_all add: inv_req)

lemma keeps_eligs:
  assumes "access_inv s" and "\<forall>e \<in> set (ac_eligs s'). elig_ok e" and "ac_reqs s' = ac_reqs s"
    and "ac_console s' = ac_console s" and "ac_app s' = ac_app s"
  shows "keeps s s'"
  using assms by (simp add: keeps_def access_inv_def)

lemma valid_elig:
  assumes "validateEligibilityRequest req = None"
  shows "\<forall>e. el_TargetKind e = ce_TargetKind req \<and> el_AppID e = ce_AppID req \<and>
      el_AllowedDurations e = ce_AllowedDurations req \<and> el_MaxDurationSeconds e = ce_MaxDurationSeconds req \<longrightarrow> elig_ok e"
  using assms by (force simp: validateEligibilityRequest_def elig_ok_def list_ex_iff split: if_splits)

lemma elig_ok_status [simp]: "elig_ok (e\<lparr>el_Status := x, el_CreatedBy := y\<rparr>) = elig_ok e"
  by (simp add: elig_ok_def)

lemma CreateEligibility_keeps:
  "access_inv s \<Longrightarrow> keeps s (snd (CreateEligibility flt i t c req s))"
  using valid_elig [of req]
  by (auto simp: CreateEligibility_def Let_def keeps_refl access_inv_def intro!: keeps_eligs split: option.split)

lemma UpdateEligibility_keeps:
  assumes "access_inv s" shows "keeps s (snd (UpdateEligibility flt t i req s))"
proof -
  have "elig_ok e" if "e \<in> set (ac_eligs s)" for e using assms that by (simp add: access_inv_def)
  then show ?thesis using assms valid_elig [of req]
    by (auto simp: UpdateEligibility_def Let_def onState_def repoUpdateEligibility_def keeps_refl
        intro!: keeps_eligs split: option.split sum.split)
qed

lemma DeleteEligibility_keeps:
  "access_inv s \<Longrightarrow> keeps s (snd (DeleteEligibility flt i t s))"
  by (auto simp: DeleteEligibility_def onState_def repoDeleteEligibility_def keeps_refl access_inv_def
      intro!: keeps_eligs split: sum.split)

lemma approveWrite_keeps:
  assumes "access_inv s" and "seen_ok (ac_reqs s) req" and "a \<noteq> ar_RequesterID req"
    and "now \<le> now1"
  shows "keeps s (snd (approveWrite flt now now1 b t a req s))"
  using assms approve_inv approve_seen
  by (auto simp: approveWrite_def onState_def Let_def keeps_refl keeps_def split: sum.split)

lemma GetRequest_row: "GetRequest flt i t s = Inr r \<Longrightarrow> r \<in> set (ac_reqs s) \<and> ar_ID r = i \<and> ar_TenantID r = t"
  by (auto simp: GetRequest_def find_Some_iff split: if_splits option.splits)

lemma approveCheck_row:
  "approveCheck flt d t i a s = Inr req \<Longrightarrow>
     req \<in> set (ac_reqs s) \<and> ar_ID req = i \<and> ar_TenantID req = t \<and> ar_Status req = StatusPending \<and> a \<noteq> ar_RequesterID req"
  by (auto simp: approveCheck_def bindE_eq_Inr dest!: GetRequest_row split: if_splits)

lemma Approve_keeps:
  assumes "access_inv s" and "now \<le> now1" shows "keeps s (snd (Approve flt d now now1 b t i a s))"
  using assms approveCheck_row inv_seen approveWrite_keeps
  by (fastforce simp: Approve_def keeps_refl split: sum.split)

lemma append_request_keeps:
  assumes inv: "access_inv s" and fresh: "ar_ID r \<notin> ar_ID ` set (ac_reqs s)" and ok: "req_ok r"
  shows "keeps s (s\<lparr>ac_reqs := ac_reqs s @ [r]\<rparr>)"
proof -
  have "console_ok (rs @ [r]) b" if "console_ok rs b" for rs b
    using that unfolding console_ok_def by fastforce
  moreover have "app_ok (rs @ [r]) b" if "app_ok rs b" for rs b
    using that unfolding app_ok_def by fastforce
  moreover have "seen_ok (rs @ [r]) h" if "seen_ok rs h" for rs h
    using that unfolding seen_ok_def by fastforce
  ultimately show ?thesis using assms by (auto simp: keeps_def access_inv_def)
qed

lemma elig_duration:
  assumes "elig_ok e" and "DurationAllowed e n"
  shows "0 < ClampDuration e n \<and> ClampDuration e n \<le> maxEligibilityTTL"
  using assms by (auto simp: elig_ok_def DurationAllowed_def ClampDuration_def)

lemma GetEligibility_row: "GetEligibility flt i t s = Inr e \<Longrightarrow> e \<in> set (ac_eligs s)"
  by (auto simp: GetEligibility_def find_Some_iff split: if_splits option.splits)

lemma CreateRequest_keeps:
  assumes inv: "access_inv s" and fresh: "i \<notin> ar_ID ` set (ac_reqs s)"
    and clock: "now \<le> now1"
  shows "keeps s (snd (CreateRequest flt d now now1 i b t u inp s))"
proof (cases "GetEligibility flt (ca_EligibilityID inp) t s")
  case (Inl e)
  then show ?thesis using inv by (simp add: CreateRequest_def keeps_refl)
next
  case (Inr e)
  then have e: "elig_ok e" using inv GetEligibility_row by (auto simp: access_inv_def)
  let ?r = "\<lparr>ar_ID = i, ar_TenantID = t, ar_RequesterID = u,
                  ar_EligibilityID = el_ID e, ar_TargetKind = el_TargetKind e, ar_RoleID = el_RoleID e,
                  ar_ScopeType = el_ScopeType e, ar_ScopeID = el_ScopeID e, ar_AppID = el_AppID e,
                  ar_RequestedSeconds = ClampDuration e (ca_RequestedSeconds inp),
                  ar_Justification = ca_Justification inp, ar_Status = StatusPending, ar_ApproverID = None,
                  ar_DecidedAt = None, ar_DecisionReason = [], ar_ActivatedAt = None, ar_ExpiresAt = None,
                  ar_BindingID = None\<rparr>"
  let ?s1 = "logged (Published EventRequestCreated i) (s\<lparr>ac_reqs := ac_reqs s @ [?r]\<rparr>)"
  show ?thesis
  proof (cases "DurationAllowed e (ca_RequestedSeconds inp)")
    case True
    have "req_ok ?r" using elig_duration [OF e True] e by (simp add: req_ok_def elig_ok_def)
    then have k: "keeps s ?s1" using append_request_keeps [OF inv, of ?r] fresh by simp
    then have "access_inv ?s1" by (simp only: keeps_def)
    then have "keeps s (snd (Approve flt d now now1 b t i 0 ?s1))" by (rule keeps_trans [OF k Approve_keeps [OF _ clock]])
    then show ?thesis using k inv Inr by (simp add: CreateRequest_def keeps_refl Let_def)
  next
    case False
    then show ?thesis using inv Inr by (simp add: CreateRequest_def keeps_refl)
  qed
qed

text \<open>Closing a request that is still pending.\<close>

lemma close_keeps:
  assumes inv: "access_inv s" and r: "r0 \<in> set (ac_reqs s)" "ar_ID r0 = i" "ar_Status r0 = StatusPending"
    and st: "st \<noteq> StatusPending" "st \<noteq> StatusApproved"
    and ok: "UpdateRequestStatus flt now i t st why who s = Inr s'"
  shows "keeps s s'"
proof -
  let ?f = "\<lambda>r. if ar_ID r = i \<and> ar_TenantID r = t
             then r\<lparr>ar_Status := st, ar_DecisionReason := why,
                    ar_ApproverID := (case who of None \<Rightarrow> ar_ApproverID r | Some a \<Rightarrow> Some a),
                    ar_DecidedAt := Some now\<rparr>
             else r"
  have s': "s' = s\<lparr>ac_reqs := map ?f (ac_reqs s)\<rparr>" using ok by (simp add: UpdateRequestStatus_def split: if_splits)
  have fixed: "?f r = r" if "r \<in> set (ac_reqs s)" "ar_Status r = StatusApproved" for r
  proof -
    have "ar_ID r \<noteq> i"
    proof
      assume "ar_ID r = i"
      then have "r = r0" using inv_unique [OF inv that(1) r(1)] r(2) by simp
      then show False using that(2) r(3) by simp
    qed
    then show ?thesis by simp
  qed
  have "access_inv s'"
  proof (rule inv_map_reqs [OF inv, where f = ?f])
    fix r assume "r \<in> set (ac_reqs s)"
    then show "ar_ID (?f r) = ar_ID r \<and> req_ok (?f r)" using inv_req [OF inv] st by (auto simp: req_ok_def)
  next
    fix b assume "b \<in> set (ac_console s')"
    then have "console_ok (ac_reqs s) b" using inv by (simp add: s' access_inv_def)
    then show "console_ok (map ?f (ac_reqs s)) b" by (rule console_ok_map) (rule fixed)
  next
    fix b assume "b \<in> set (ac_app s')"
    then have "app_ok (ac_reqs s) b" using inv by (simp add: s' access_inv_def)
    then show "app_ok (map ?f (ac_reqs s)) b" by (rule app_ok_map) (rule fixed)
  qed (simp_all add: s')
  moreover have "seen_ok (ac_reqs s') h" if h: "seen_ok (ac_reqs s) h" for h
    unfolding s' by (simp, rule seen_ok_map [OF h]) (simp add: same_request_def st)
  ultimately show ?thesis by (simp add: keeps_def)
qed

lemma Reject_keeps:
  assumes "access_inv s" shows "keeps s (snd (Reject flt now t i a why s))"
  using assms
  by (auto simp: Reject_def rejectCheck_def rejectWrite_def onState_def bindE_eq_Inr keeps_refl
      dest!: GetRequest_row intro: close_keeps [where st = StatusRejected, OF _ _ refl] split: sum.split if_splits)

lemma Cancel_keeps:
  assumes "access_inv s" shows "keeps s (snd (Cancel flt now t i u s))"
  using assms
  by (auto simp: Cancel_def onState_def keeps_refl dest!: GetRequest_row
      intro: close_keeps [where st = StatusCancelled, OF _ _ refl] split: sum.split)

lemma endWrite_keeps:
  assumes "access_inv s" and "seen_ok (ac_reqs s) req" and "ar_Status req = StatusApproved"
    and "fin \<noteq> StatusApproved" and "fin \<noteq> StatusPending"
  shows "keeps s (snd (endWrite flt fin ev t req s))"
proof -
  obtain b where "ar_BindingID req = Some b" using assms(2,3) by (auto simp: seen_ok_def req_ok_def)
  then show ?thesis using assms end_inv end_seen
    by (auto simp: endWrite_def onState_def keeps_refl keeps_def split: sum.split)
qed

text \<open>
  The system: the handlers of the service run one after another, but an approval, a revocation and an
  expiry may act on what they read in any earlier state (\<open>H\<close> holds the states so far), and other
  services may change the bindings that are not grants. The clock does not go back within a handler.
\<close>

inductive access_step :: "access_state set \<Rightarrow> access_state \<Rightarrow> access_state \<Rightarrow> bool" where
  st_create_elig: "access_step H s (snd (CreateEligibility flt i t c req s))"
| st_update_elig: "access_step H s (snd (UpdateEligibility flt t i req s))"
| st_delete_elig: "access_step H s (snd (DeleteEligibility flt i t s))"
| st_request: "i \<notin> ar_ID ` set (ac_reqs s) \<Longrightarrow> now \<le> now1 \<Longrightarrow>
    access_step H s (snd (CreateRequest flt d now now1 i b t u inp s))"
| st_approve: "s0 \<in> H \<Longrightarrow> approveCheck flt0 d t i a s0 = Inr req \<Longrightarrow> now \<le> now1 \<Longrightarrow>
    access_step H s (snd (approveWrite flt now now1 b t a req s))"
| st_reject: "access_step H s (snd (Reject flt now t i a why s))"
| st_cancel: "access_step H s (snd (Cancel flt now t i u s))"
| st_revoke: "s0 \<in> H \<Longrightarrow> GetRequest flt0 i t s0 = Inr req \<Longrightarrow> ar_Status req = StatusApproved \<Longrightarrow>
    access_step H s (snd (endWrite flt StatusRevoked EventGrantRevoked t req s))"
| st_expire: "s0 \<in> H \<Longrightarrow> ListDueGrants flt0 now s0 = Inr due \<Longrightarrow> req \<in> set due \<Longrightarrow>
    access_step H s (snd (Expire flt req s))"
| st_other: "(\<forall>x \<in> set cs. cb_GrantID x \<noteq> None \<longrightarrow> x \<in> set (ac_console s)) \<Longrightarrow>
    (\<forall>x \<in> set as. ab_GrantID x \<noteq> None \<longrightarrow> x \<in> set (ac_app s)) \<Longrightarrow>
    access_step H s (s\<lparr>ac_console := cs, ac_app := as\<rparr>)"

inductive access_run :: "access_state set \<Rightarrow> access_state \<Rightarrow> bool" where
  run_start: "ac_eligs s = [] \<Longrightarrow> ac_reqs s = [] \<Longrightarrow> (\<forall>x \<in> set (ac_console s). cb_GrantID x = None) \<Longrightarrow>
    (\<forall>x \<in> set (ac_app s). ab_GrantID x = None) \<Longrightarrow> access_run {s} s"
| run_step: "access_run H s \<Longrightarrow> access_step H s s' \<Longrightarrow> access_run (insert s' H) s'"

lemma step_keeps:
  assumes "access_step H s s'" and inv: "access_inv s"
    and seen: "\<And>s0 h. s0 \<in> H \<Longrightarrow> h \<in> set (ac_reqs s0) \<Longrightarrow> seen_ok (ac_reqs s) h"
  shows "keeps s s'"
  using assms(1)
proof cases
  case (st_approve s0 flt0 d t i a req now now1 flt b)
  then show ?thesis using approveCheck_row [OF st_approve(3)] seen by (auto intro!: approveWrite_keeps inv)
next
  case (st_revoke s0 flt0 i t req flt)
  then show ?thesis using GetRequest_row seen by (auto intro!: endWrite_keeps inv)
next
  case (st_expire s0 flt0 now due req flt)
  then have "req \<in> set (ac_reqs s0)" "ar_Status req = StatusApproved"
    by (auto simp: ListDueGrants_def split: if_splits)
  then show ?thesis using st_expire seen by (auto simp: Expire_def intro!: endWrite_keeps inv)
next
  case (st_other cs as)
  have "console_ok (ac_reqs s) x" if "x \<in> set cs" for x
    using that st_other(2) inv by (cases "cb_GrantID x") (auto simp: console_ok_def access_inv_def)
  moreover have "app_ok (ac_reqs s) x" if "x \<in> set as" for x
    using that st_other(3) inv by (cases "ab_GrantID x") (auto simp: app_ok_def access_inv_def)
  ultimately show ?thesis using inv by (simp add: keeps_def access_inv_def st_other(1))
qed (simp_all add: inv CreateEligibility_keeps UpdateEligibility_keeps DeleteEligibility_keeps CreateRequest_keeps
    Reject_keeps Cancel_keeps)

lemma run_inv:
  assumes "access_run H s"
  shows "access_inv s \<and> (\<forall>s0 \<in> H. \<forall>h \<in> set (ac_reqs s0). seen_ok (ac_reqs s) h)"
  using assms
proof induction
  case (run_start s)
  then show ?case by (auto simp: access_inv_def console_ok_def app_ok_def)
next
  case (run_step H s s')
  then have "keeps s s'" using step_keeps by blast
  then show ?case using run_step.IH inv_seen by (auto simp: keeps_def)
qed

end
