(* ===== verification/AccessGrants.thy ===== *)
theory AccessGrants
  imports AccessProofs
begin

text \<open>
  The properties of just-in-time access, over the model of \<open>internal/domain/access\<close> and the
  interleaved system of the previous theory.
\<close>

section \<open>Lemmas on single writes\<close>

lemma approveWrite_Inr:
  "approveWrite flt now now1 b t a req s = (Inr q, s1) \<longleftrightarrow>
     (\<exists>s0 e. e = now + wrap64 (ar_RequestedSeconds req * Second) \<and> ApproveAndGrant flt now1 req a e b s = Inr s0 \<and>
        q = req\<lparr>ar_Status := StatusApproved, ar_ExpiresAt := Some e, ar_BindingID := Some b\<rparr> \<and>
        s1 = logged (Published (EventGrantActivated a) (ar_ID req))
              (logged (Published EventRequestApproved (ar_ID req))
                (logged (Invalidated t (ar_RequesterID req)) s0)))"
  by (auto simp: approveWrite_def onState_def Let_def split: sum.splits)

lemma approved_no_pending:
  assumes "ApproveAndGrant flt now req a e b s = Inr s1" and "ar_ID r = ar_ID req" and "ar_TenantID r = ar_TenantID req"
  shows "\<not> list_ex (pendingRow r) (ac_reqs s1)"
proof -
  have "ac_reqs s1 = map (approvedRow now req a e b) (ac_reqs s)" using ApproveAndGrant_ok [OF assms(1)] by blast
  then show ?thesis using assms(2,3) by (auto simp: list_ex_iff approvedRow_def pendingRow_def)
qed

lemma ApproveAndGrant_no_pending:
  assumes "\<not> list_ex (pendingRow r) (ac_reqs s)"
  shows "\<exists>e. ApproveAndGrant flt now r a x b s = Inl e"
  using assms
  by (auto simp: ApproveAndGrant_def insertBindingTx_def bindE_def split: sum.split option.split)

lemma ApproveAndGrant_binding:
  assumes "ApproveAndGrant flt now req a e b s = Inr s1"
  shows "(\<exists>x \<in> set (ac_console s1). cb_ID x = b \<and> cb_GrantID x = Some (ar_ID req) \<and> cb_SubjectID x = ar_RequesterID req) \<or>
         (\<exists>x \<in> set (ac_app s1). ab_ID x = b \<and> ab_GrantID x = Some (ar_ID req) \<and> ab_SubjectID x = ar_RequesterID req)"
  using assms
  by (auto simp: ApproveAndGrant_def insertBindingTx_def bindE_eq_Inr split: if_splits option.splits)

section \<open>The sweeper\<close>

definition expiredRow :: "access_request list \<Rightarrow> access_request \<Rightarrow> access_request" where
  "expiredRow due r =
     (if \<exists>q \<in> set due. ar_ID r = ar_ID q \<and> ar_TenantID r = ar_TenantID q then r\<lparr>ar_Status := StatusExpired\<rparr> else r)"

lemma Expire_ok:
  "\<exists>s'. Expire no_access_faults req s = (Inr (), s') \<and> ac_reqs s' = map (expiredRow [req]) (ac_reqs s)"
  by (auto simp: Expire_def endWrite_def onState_def EndGrant_def no_access_faults_def Let_def expiredRow_def
      split: option.split)

lemma sweepLoop_ok:
  assumes "access_inv s" and "\<And>r. r \<in> set due \<Longrightarrow> seen_ok (ac_reqs s) r \<and> ar_Status r = StatusApproved"
  shows "\<exists>s'. sweepLoop (\<lambda>_. no_access_faults) due s = (length due, s') \<and> keeps s s' \<and>
           ac_reqs s' = map (expiredRow due) (ac_reqs s)"
  using assms
proof (induction due arbitrary: s)
  case Nil
  then show ?case by (simp add: keeps_refl expiredRow_def [abs_def])
next
  case (Cons q due)
  obtain s1 where s1: "Expire no_access_faults q s = (Inr (), s1)" "ac_reqs s1 = map (expiredRow [q]) (ac_reqs s)"
    using Expire_ok by blast
  have "keeps s (snd (Expire no_access_faults q s))"
    unfolding Expire_def using Cons.prems by (intro endWrite_keeps) auto
  then have k: "keeps s s1" using s1(1) by simp
  obtain s2 where s2: "sweepLoop (\<lambda>_. no_access_faults) due s1 = (length due, s2)" "keeps s1 s2"
      "ac_reqs s2 = map (expiredRow due) (ac_reqs s1)"
    using Cons.IH [of s1] k Cons.prems(2) by (auto simp: keeps_def)
  have "expiredRow due (expiredRow [q] r) = expiredRow (q # due) r" for r by (auto simp: expiredRow_def)
  then have "ac_reqs s2 = map (expiredRow (q # due)) (ac_reqs s)" by (simp add: s2(3) s1(2))
  then show ?case using s1(1) s2(1) keeps_trans [OF k s2(2)] by simp
qed

section \<open>An example\<close>

text \<open>Tenant 1: an administrator has given user 5 the role 3 for good; an eligibility then lets user 5
  request the same role for an hour, with user 9 as approver.\<close>

definition ex_deps :: access_deps where
  "ex_deps = \<lparr>sm_UserInGroup = \<lambda>_ _ _. False, sm_UserInOrg = \<lambda>_ _ _. False, sm_UserHasRole = \<lambda>_ _ _. False,
     sm_superAdmin = None\<rparr>"

definition ex_permanent :: console_binding where
  "ex_permanent = \<lparr>cb_ID = 2, cb_RoleID = 3, cb_SubjectType = ''user'', cb_SubjectID = 5, cb_ScopeType = None,
     cb_ScopeID = None, cb_GrantID = None, cb_ExpiresAt = None, cb_Status = 1\<rparr>"

definition ex_s0 :: access_state where
  "ex_s0 = \<lparr>ac_eligs = [], ac_reqs = [], ac_console = [ex_permanent], ac_app = [], ac_log = []\<rparr>"

definition ex_s1 :: access_state where
  "ex_s1 = snd (CreateEligibility no_access_faults 10 1 None
     \<lparr>ce_TargetKind = TargetConsole, ce_RoleID = 3, ce_ScopeType = None, ce_ScopeID = None, ce_AppID = None,
      ce_RequesterSubjectType = ''user'', ce_RequesterSubjectID = 5, ce_AllowedDurations = [3600],
      ce_MaxDurationSeconds = 7200, ce_ApproverSubjectType = ApproverUser, ce_ApproverSubjectID = 9,
      ce_RequireJustification = None, ce_RequireStepUp = None\<rparr> ex_s0)"

definition ex_s2 :: access_state where
  "ex_s2 = snd (CreateRequest no_access_faults ex_deps 100 100 20 30 1 5
     \<lparr>ca_EligibilityID = 10, ca_RequestedSeconds = 3600, ca_Justification = ''on call''\<rparr> ex_s1)"

definition ex_req :: access_request where
  "ex_req = \<lparr>ar_ID = 20, ar_TenantID = 1, ar_RequesterID = 5, ar_EligibilityID = 10, ar_TargetKind = TargetConsole,
     ar_RoleID = 3, ar_ScopeType = None, ar_ScopeID = None, ar_AppID = None, ar_RequestedSeconds = 3600,
     ar_Justification = ''on call'', ar_Status = StatusPending, ar_ApproverID = None, ar_DecidedAt = None,
     ar_DecisionReason = [], ar_ActivatedAt = None, ar_ExpiresAt = None, ar_BindingID = None\<rparr>"

definition ex_s3 :: access_state where
  "ex_s3 = snd (approveWrite no_access_faults 1000 1001 31 1 9 ex_req ex_s2)"

lemma ex_check: "approveCheck no_access_faults ex_deps 1 20 9 ex_s2 = Inr ex_req"
  by code_simp

lemma ex_run: "access_run {ex_s3, ex_s2, ex_s1, ex_s0} ex_s3"
proof -
  have "access_run {ex_s0} ex_s0" by (rule run_start) (simp_all add: ex_s0_def ex_permanent_def)
  then have "access_run {ex_s1, ex_s0} ex_s1" by (rule run_step) (simp only: ex_s1_def st_create_elig)
  moreover have "20 \<notin> ar_ID ` set (ac_reqs ex_s1)" by code_simp
  ultimately have "access_run {ex_s2, ex_s1, ex_s0} ex_s2"
    by (elim run_step) (simp only: ex_s2_def st_request simp_thms order_refl)
  then show ?thesis
    by (rule run_step) (unfold ex_s3_def, rule st_approve [OF _ ex_check], simp_all)
qed

section \<open>Properties\<close>



text \<open>C21: Two approvers who both passed the checks of \<open>Approve\<close> for one request, at any times, cannot
  both grant: once the write of one has succeeded, the write of the other fails and changes nothing.\<close>

theorem approvals_grant_once:
  assumes "approveCheck flt1 d1 t i a1 s01 = Inr r1" and "approveCheck flt2 d2 t i a2 s02 = Inr r2"
    and "approveWrite flt3 now1 now2 b1 t a1 r1 s = (Inr q, s1)"
  shows "\<exists>e. approveWrite flt4 now3 now4 b2 t a2 r2 s1 = (Inl e, s1)"
proof -
  obtain s0 e where g: "ApproveAndGrant flt3 now2 r1 a1 e b1 s = Inr s0" and eq: "ac_reqs s1 = ac_reqs s0"
    using assms(3) by (auto simp: approveWrite_Inr)
  have "ar_ID r2 = ar_ID r1" "ar_TenantID r2 = ar_TenantID r1"
    using approveCheck_row [OF assms(1)] approveCheck_row [OF assms(2)] by simp_all
  then have "\<not> list_ex (pendingRow r2) (ac_reqs s1)" using approved_no_pending [OF g] eq by simp
  from ApproveAndGrant_no_pending [OF this] show ?thesis
    unfolding approveWrite_def onState_def Let_def by (metis old.sum.simps(5))
qed

theorem approvals_grant_once_witness:
  "isOk (fst (approveWrite no_access_faults 1000 1001 31 1 9 ex_req ex_s2)) \<and>
   (\<exists>e. approveWrite no_access_faults 1002 1003 32 1 9 ex_req ex_s3 = (Inl e, ex_s3))"
proof -
  have ok: "isOk (fst (approveWrite no_access_faults 1000 1001 31 1 9 ex_req ex_s2))" by code_simp
  then obtain q where "approveWrite no_access_faults 1000 1001 31 1 9 ex_req ex_s2 = (Inr q, ex_s3)"
    unfolding ex_s3_def using isOk_fst by blast
  then show ?thesis using approvals_grant_once [OF ex_check ex_check] ok by blast
qed



section \<open>Where grants and bindings part\<close>

lemma GetRequest_none:
  assumes "\<forall>r \<in> set (ac_reqs s). ar_ID r = i \<and> ar_TenantID r = t \<longrightarrow> ar_Status r \<noteq> StatusApproved"
    and "\<exists>r \<in> set (ac_reqs s). ar_ID r = i \<and> ar_TenantID r = t"
  shows "fst (Revoke no_access_faults t i s) = Inl ErrGrantNotRevocable"
proof -
  obtain r where "find (\<lambda>r. ar_ID r = i \<and> ar_TenantID r = t) (ac_reqs s) = Some r"
    using assms(2) by (cases "find (\<lambda>r. ar_ID r = i \<and> ar_TenantID r = t) (ac_reqs s)") (auto simp: find_None_iff)
  then have "GetRequest no_access_faults i t s = Inr r" by (simp add: GetRequest_def no_access_faults_def)
  moreover from this have "ar_Status r \<noteq> StatusApproved" using assms(1) GetRequest_row by blast
  ultimately show ?thesis by (simp add: Revoke_def)
qed

text \<open>C23: \<open>Reject\<close> reads the status and writes without looking again. When an approval is written between
  the two, the request ends up rejected while the binding stays: it cannot be revoked, the sweeper never
  lists it, and the row says rejected.\<close>

theorem reject_after_approve_leaks:
  assumes "rejectCheck flt1 t i s = Inr req" and "Approve flt2 d now now1 b t i a s = (Inr q, s1)"
    and "\<not> flt3 ''UpdateRequestStatus''"
  shows "let s2 = snd (rejectWrite flt3 now' t a' why req s1) in
    ((\<exists>x \<in> set (ac_console s2). cb_ID x = b \<and> cb_GrantID x = Some i) \<or> (\<exists>x \<in> set (ac_app s2). ab_ID x = b \<and> ab_GrantID x = Some i)) \<and>
    (\<forall>r \<in> set (ac_reqs s2). ar_ID r = i \<and> ar_TenantID r = t \<longrightarrow> ar_Status r = StatusRejected) \<and>
    fst (Revoke no_access_faults t i s2) = Inl ErrGrantNotRevocable \<and>
    (\<forall>later due. ListDueGrants no_access_faults later s2 = Inr due \<longrightarrow>
       (\<forall>r \<in> set due. \<not> (ar_ID r = i \<and> ar_TenantID r = t)))"
proof -
  obtain req2 where c: "approveCheck flt2 d t i a s = Inr req2"
      and w: "approveWrite flt2 now now1 b t a req2 s = (Inr q, s1)"
    using assms(2) by (auto simp: Approve_def split: sum.splits)
  have i2: "ar_ID req2 = i" "ar_TenantID req2 = t" using approveCheck_row [OF c] by auto
  have i1: "ar_ID req = i" using assms(1)
    by (auto simp: rejectCheck_def bindE_eq_Inr dest!: GetRequest_row split: if_splits)
  obtain s0 e where g: "ApproveAndGrant flt2 now1 req2 a e b s = Inr s0"
      and s1: "ac_reqs s1 = ac_reqs s0" "ac_console s1 = ac_console s0" "ac_app s1 = ac_app s0"
    using w by (auto simp: approveWrite_Inr)
  define s2 where "s2 = snd (rejectWrite flt3 now' t a' why req s1)"
  define f where "f = (\<lambda>r :: access_request. if ar_ID r = i \<and> ar_TenantID r = t
             then r\<lparr>ar_Status := StatusRejected, ar_DecisionReason := why, ar_ApproverID := Some a',
                    ar_DecidedAt := Some now'\<rparr> else r)"
  have s2: "ac_console s2 = ac_console s0" "ac_app s2 = ac_app s0" "ac_reqs s2 = map f (ac_reqs s0)"
    using assms(3) s1 i1 by (simp_all add: s2_def f_def rejectWrite_def UpdateRequestStatus_def onState_def)
  have ids: "ar_ID (f r) = ar_ID r" "ar_TenantID (f r) = ar_TenantID r" for r by (simp_all add: f_def)
  have row: "ar_Status r = StatusRejected" if r: "r \<in> set (ac_reqs s2)" and ri: "ar_ID r = i \<and> ar_TenantID r = t" for r
  proof -
    obtain r0 where r0: "r = f r0" using r by (auto simp: s2(3))
    show ?thesis using ri unfolding r0 f_def by (cases "ar_ID r0 = i \<and> ar_TenantID r0 = t") simp_all
  qed
  have "list_ex (pendingRow req2) (ac_reqs s)" "ac_reqs s0 = map (approvedRow now1 req2 a e b) (ac_reqs s)"
    using ApproveAndGrant_ok [OF g] by blast+
  then have "\<exists>r \<in> set (ac_reqs s0). ar_ID r = i \<and> ar_TenantID r = t"
    using i2 by (auto simp: list_ex_iff pendingRow_def)
  then have "\<exists>r \<in> set (ac_reqs s2). ar_ID r = i \<and> ar_TenantID r = t"
    using ids by (auto simp: s2(3))
  then have "fst (Revoke no_access_faults t i s2) = Inl ErrGrantNotRevocable"
    using row by (intro GetRequest_none) auto
  moreover have "\<forall>later due. ListDueGrants no_access_faults later s2 = Inr due \<longrightarrow>
       (\<forall>r \<in> set due. \<not> (ar_ID r = i \<and> ar_TenantID r = t))"
    using row by (auto simp: ListDueGrants_def no_access_faults_def)
  moreover have "(\<exists>x \<in> set (ac_console s2). cb_ID x = b \<and> cb_GrantID x = Some i) \<or>
      (\<exists>x \<in> set (ac_app s2). ab_ID x = b \<and> ab_GrantID x = Some i)"
    using ApproveAndGrant_binding [OF g] unfolding s2(1,2) i2 by blast
  ultimately show ?thesis unfolding Let_def s2_def [symmetric] by (intro conjI ballI impI row) simp_all
qed

theorem reject_after_approve_leaks_witness:
  "isOk (rejectCheck no_access_faults 1 20 ex_s2) \<and>
   isOk (fst (Approve no_access_faults ex_deps 1000 1001 31 1 20 9 ex_s2)) \<and>
   (let s2 = snd (rejectWrite no_access_faults 1001 1 9 [] ex_req (snd (Approve no_access_faults ex_deps 1000 1001 31 1 20 9 ex_s2)))
    in (\<exists>x \<in> set (ac_console s2). cb_ID x = 31 \<and> cb_GrantID x = Some 20) \<or> (\<exists>x \<in> set (ac_app s2). ab_ID x = 31 \<and> ab_GrantID x = Some 20))"
proof -
  have r: "rejectCheck no_access_faults 1 20 ex_s2 = Inr ex_req" by code_simp
  have ok: "isOk (fst (Approve no_access_faults ex_deps 1000 1001 31 1 20 9 ex_s2))" by code_simp
  then obtain q where q: "Approve no_access_faults ex_deps 1000 1001 31 1 20 9 ex_s2 =
      (Inr q, snd (Approve no_access_faults ex_deps 1000 1001 31 1 20 9 ex_s2))"
    using isOk_fst by blast
  have "\<not> no_access_faults ''UpdateRequestStatus''" by (simp add: no_access_faults_def)
  note leak = reject_after_approve_leaks [where ?flt3.0 = no_access_faults, OF r q this, of 1001 9 "[]"]
  show ?thesis using ok r leak unfolding Let_def by (simp only: isOk_simps simp_thms)
qed

text \<open>C24: The binding of a grant replaces every binding of the same role, user and scope, an
  administrator's permanent one included. When the grant is revoked, the user has lost the role
  altogether.\<close>

theorem grant_drops_permanent_binding:
  assumes "ar_TargetKind req = TargetConsole"
    and "approveWrite flt1 now now1 b t a req s = (Inr q, s1)" and "endWrite flt2 fin ev t q s1 = (Inr (), s2)"
  shows "\<forall>x \<in> set (ac_console s2). \<not> (cb_RoleID x = ar_RoleID req \<and> cb_SubjectType x = ''user'' \<and>
     cb_SubjectID x = ar_RequesterID req \<and> cb_ScopeType x = ar_ScopeType req \<and> cb_ScopeID x = ar_ScopeID req)"
proof -
  obtain s0 e where g: "ApproveAndGrant flt1 now1 req a e b s = Inr s0" and s1: "ac_console s1 = ac_console s0"
      and q: "ar_BindingID q = Some b" "ar_TargetKind q = TargetConsole"
    using assms(1,2) by (auto simp: approveWrite_Inr)
  obtain s' where "EndGrant flt2 q fin s1 = Inr s'" and s2: "ac_console s2 = ac_console s'"
    using assms(3) by (auto simp: endWrite_def onState_def split: sum.splits)
  then have "\<forall>x \<in> set (ac_console s2). x \<in> set (ac_console s0) \<and> cb_ID x \<noteq> b"
    using EndGrant_ok [of flt2 q fin s1 s' b] q s1 by simp
  then show ?thesis using g assms(1)
    by (auto simp: ApproveAndGrant_def insertBindingTx_def bindE_eq_Inr split: if_splits)
qed

theorem grant_drops_permanent_binding_witness:
  "ac_console ex_s2 = [ex_permanent] \<and>
   \<not> (\<exists>x \<in> set (ac_console (snd (Revoke no_access_faults 1 20 ex_s3))). (cb_RoleID x = 3 \<and> cb_SubjectType x = ''user'' \<and>
     cb_SubjectID x = 5 \<and> cb_ScopeType x = None \<and> cb_ScopeID x = None))"
proof -
  let ?e = "1000 + wrap64 (3600 * Second)"
  let ?q = "ex_req\<lparr>ar_Status := StatusApproved, ar_ExpiresAt := Some ?e, ar_BindingID := Some 31\<rparr>"
  have q: "approveWrite no_access_faults 1000 1001 31 1 9 ex_req ex_s2 = (Inr ?q, ex_s3)"
  proof -
    have "fst (approveWrite no_access_faults 1000 1001 31 1 9 ex_req ex_s2) = Inr ?q" by code_simp
    then show ?thesis unfolding ex_s3_def by (metis prod.collapse)
  qed
  have r: "endWrite no_access_faults StatusRevoked EventGrantRevoked 1 ?q ex_s3 = (Inr (), snd (Revoke no_access_faults 1 20 ex_s3))"
    by code_simp
  have "ar_TargetKind ex_req = TargetConsole" by (simp add: ex_req_def)
  note drops = grant_drops_permanent_binding [OF this q r]
  have "ac_console ex_s2 = [ex_permanent]" by code_simp
  moreover have "ar_RoleID ex_req = 3" "ar_RequesterID ex_req = 5" "ar_ScopeType ex_req = None" "ar_ScopeID ex_req = None"
    by (simp_all add: ex_req_def)
  ultimately show ?thesis using drops by metis
qed

end
