(* ===== verification/AuditChain.thy ===== *)
theory AuditChain
  imports Prelude
begin

text \<open>
  The hash chain of the audit ledger (\<open>internal/domain/audit\<close>: \<open>chain.go\<close>, \<open>chainmodel.go\<close>,
  \<open>chainer.go\<close> and the chain half of \<open>verify.go\<close>). The tables are lists of rows; the cryptographic
  functions are the fields of a record, so that every statement holds for any of them. The JSON
  encoder of a payload is an argument. \<open>flt\<close> names the database calls that fail; a transaction that
  fails leaves the tables as they were.
\<close>

section \<open>Bytes and cryptography\<close>

type_synonym bytes = "byte list"

record crypto =
  cr_hmac :: "bytes \<Rightarrow> bytes \<Rightarrow> bytes"
  cr_sha256 :: "bytes \<Rightarrow> bytes"
  cr_public :: "bytes \<Rightarrow> bytes"
  cr_sign :: "bytes \<Rightarrow> bytes \<Rightarrow> bytes"
  cr_verify :: "bytes \<Rightarrow> bytes \<Rightarrow> bytes \<Rightarrow> bool"

text \<open>What Ed25519 and the digests promise: a signature verifies under the public key of its private
  key, and a digest has 32 bytes. No property assumes that digests are injective.\<close>

definition crypto_laws :: "crypto \<Rightarrow> bool" where
  "crypto_laws cr \<longleftrightarrow> (\<forall>k m. cr_verify cr (cr_public cr k) m (cr_sign cr k m)) \<and>
     (\<forall>x. length (cr_sha256 cr x) = 32) \<and> (\<forall>k x. length (cr_hmac cr k x) = 32)"

text \<open>\<open>binary.BigEndian.PutUint64\<close> of an \<open>int64\<close> converted to \<open>uint64\<close>, and \<open>PutUint16\<close> of a length.\<close>

definition PutUint64 :: "int \<Rightarrow> bytes" where
  "PutUint64 x = map (\<lambda>k. word_of_int (x div 256 ^ k)) [7, 6, 5, 4, 3, 2, 1, 0]"

definition PutUint16 :: "int \<Rightarrow> bytes" where
  "PutUint16 x = map (\<lambda>k. word_of_int (x div 256 ^ k)) [1, 0]"

definition stringBytes :: "string \<Rightarrow> bytes" where
  "stringBytes s = map (\<lambda>c. of_char c) s"

section \<open>Time stamps\<close>

text \<open>\<open>t.UTC().Format(time.RFC3339)\<close>: the civil date of a day number, fields padded with zeros, the
  fraction of a second dropped.\<close>

definition padded :: "nat \<Rightarrow> int \<Rightarrow> string" where
  "padded w x = (let d = FormatInt \<bar>x\<bar> in (if x < 0 then ''-'' else []) @ replicate (w - length d) CHR ''0'' @ d)"

definition civil :: "int \<Rightarrow> int \<times> int \<times> int" where
  "civil days =
     (let z = days + 719468; era = z div 146097; doe = z - era * 146097;
          yoe = (doe - doe div 1460 + doe div 36524 - doe div 146096) div 365;
          doy = doe - (365 * yoe + yoe div 4 - yoe div 100);
          mp = (5 * doy + 2) div 153;
          d = doy - (153 * mp + 2) div 5 + 1;
          m = (if mp < 10 then mp + 3 else mp - 9)
      in (yoe + era * 400 + (if m \<le> 2 then 1 else 0), m, d))"

definition RFC3339 :: "time \<Rightarrow> string" where
  "RFC3339 t =
     (let secs = t div Second; (y, m, d) = civil (secs div 86400); r = secs mod 86400
      in padded 4 y @ ''-'' @ padded 2 m @ ''-'' @ padded 2 d @ ''T'' @
         padded 2 (r div 3600) @ '':'' @ padded 2 (r div 60 mod 60) @ '':'' @ padded 2 (r mod 60) @ ''Z'')"

section \<open>Rows\<close>

text \<open>A decoded JSON value; a number is its literal text.\<close>

datatype jval = JNull | JBool bool | JNum string | JStr string | JArr "jval list" | JObj "(string \<times> jval) list"

type_synonym jobject = "(string \<times> jval) list"

record audit_pending =
  pe_ID :: id
  pe_TenantID :: id
  pe_ChainClass :: string
  pe_ActorID :: id
  pe_ActorType :: string
  pe_EventType :: string
  pe_ResourceType :: string
  pe_ResourceID :: id
  pe_Before :: "jval json option"
  pe_After :: "jval json option"
  pe_IP :: string
  pe_UserAgent :: string
  pe_SessionID :: string
  pe_Detail :: "jval json option"
  pe_OccurredAt :: time
  pe_ActorName :: "string option"
  pe_ResourceName :: "string option"
  pe_GeoCity :: "string option"
  pe_GeoCountry :: "string option"

record audit_entry =
  en_TenantID :: id
  en_ChainClass :: string
  en_Seq :: int
  en_PrevHash :: bytes
  en_EntryHash :: bytes
  en_KeyID :: string
  en_Payload :: bytes
  en_Imported :: bool
  en_CreatedAt :: time

record chain_head =
  hd_TenantID :: id
  hd_ChainClass :: string
  hd_LastSeq :: int
  hd_LastEntryHash :: bytes
  hd_UpdatedAt :: time

text \<open>The body that is canonicalized and hashed; a map field is \<open>None\<close> when it is nil.\<close>

record chain_payload =
  pl_Version :: int
  pl_TenantID :: id
  pl_ChainClass :: string
  pl_ActorID :: id
  pl_ActorType :: string
  pl_EventType :: string
  pl_ResourceType :: string
  pl_ResourceID :: id
  pl_Before :: "jobject option"
  pl_After :: "jobject option"
  pl_IP :: string
  pl_UserAgent :: string
  pl_SessionID :: string
  pl_Detail :: "jobject option"
  pl_OccurredAt :: string
  pl_ActorName :: string
  pl_ResourceName :: string
  pl_GeoCity :: string
  pl_GeoCountry :: string

definition PayloadV2 :: int where "PayloadV2 = 2"

definition GenesisPrevHash :: bytes where "GenesisPrevHash = replicate 32 0"

record chain_db =
  db_pending :: "audit_pending list"
  db_entries :: "audit_entry list"
  db_heads :: "chain_head list"

type_synonym marshaler = "chain_payload \<Rightarrow> bytes option"

datatype audit_error = ErrAuditDb | ErrCanonicalize | ErrDuplicateEntry

type_synonym audit_faults = "string \<Rightarrow> bool"

section \<open>chain.go\<close>

definition CanonicalJSON :: "marshaler \<Rightarrow> chain_payload \<Rightarrow> audit_error + bytes" where
  "CanonicalJSON marshal p = (case marshal p of None \<Rightarrow> Inl ErrCanonicalize | Some b \<Rightarrow> Inr b)"

definition ComputeEntryHash :: "crypto \<Rightarrow> bytes \<Rightarrow> int \<Rightarrow> bytes \<Rightarrow> bytes \<Rightarrow> bytes" where
  "ComputeEntryHash cr key seq prevHash canonical =
     (let preimage = PutUint64 seq @ prevHash @ canonical in cr_hmac cr key preimage)"

section \<open>chainer.go\<close>

text \<open>\<open>jsonToMap\<close>: nil for absent bytes, for bytes that do not decode and for values that are not objects.\<close>

definition jsonToMap :: "jval json option \<Rightarrow> jobject option" where
  "jsonToMap raw =
     (case raw of None \<Rightarrow> None
      | Some b \<Rightarrow> (case Unmarshal b of Some (JObj m) \<Rightarrow> Some m | _ \<Rightarrow> None))"

definition deref :: "string option \<Rightarrow> string" where
  "deref p = (case p of None \<Rightarrow> [] | Some s \<Rightarrow> s)"

definition payloadOf :: "audit_pending \<Rightarrow> chain_payload" where
  "payloadOf p = \<lparr>pl_Version = PayloadV2, pl_TenantID = pe_TenantID p, pl_ChainClass = pe_ChainClass p,
     pl_ActorID = pe_ActorID p, pl_ActorType = pe_ActorType p, pl_EventType = pe_EventType p,
     pl_ResourceType = pe_ResourceType p, pl_ResourceID = pe_ResourceID p,
     pl_Before = jsonToMap (pe_Before p), pl_After = jsonToMap (pe_After p), pl_IP = pe_IP p,
     pl_UserAgent = pe_UserAgent p, pl_SessionID = pe_SessionID p, pl_Detail = jsonToMap (pe_Detail p),
     pl_OccurredAt = RFC3339 (pe_OccurredAt p), pl_ActorName = deref (pe_ActorName p),
     pl_ResourceName = deref (pe_ResourceName p), pl_GeoCity = deref (pe_GeoCity p),
     pl_GeoCountry = deref (pe_GeoCountry p)\<rparr>"

definition headOf :: "id \<Rightarrow> string \<Rightarrow> chain_head list \<Rightarrow> chain_head option" where
  "headOf t c hs = find (\<lambda>h. hd_TenantID h = t \<and> hd_ChainClass h = c) hs"

text \<open>The row a transaction starts from: the stored head, or the genesis head.\<close>

definition loadHead :: "id \<Rightarrow> string \<Rightarrow> chain_head list \<Rightarrow> chain_head" where
  "loadHead t c hs =
     (let head = (case headOf t c hs of Some h \<Rightarrow> h
                  | None \<Rightarrow> \<lparr>hd_TenantID = 0, hd_ChainClass = [], hd_LastSeq = 0, hd_LastEntryHash = [], hd_UpdatedAt = 0\<rparr>)
      in if hd_LastSeq head = 0
         then head\<lparr>hd_TenantID := t, hd_ChainClass := c, hd_LastEntryHash := GenesisPrevHash\<rparr>
         else head)"

text \<open>\<open>INSERT ... ON CONFLICT (tenant_id, chain_class) DO UPDATE\<close>\<close>

definition upsertHead :: "chain_head \<Rightarrow> chain_head list \<Rightarrow> chain_head list" where
  "upsertHead h hs =
     (if headOf (hd_TenantID h) (hd_ChainClass h) hs = None then hs @ [h]
      else map (\<lambda>r. if hd_TenantID r = hd_TenantID h \<and> hd_ChainClass r = hd_ChainClass h
                    then r\<lparr>hd_LastSeq := hd_LastSeq h, hd_LastEntryHash := hd_LastEntryHash h,
                           hd_UpdatedAt := hd_UpdatedAt h\<rparr> else r) hs)"

definition chainOne ::
  "crypto \<Rightarrow> marshaler \<Rightarrow> audit_faults \<Rightarrow> bytes \<Rightarrow> string \<Rightarrow> time \<Rightarrow> audit_pending \<Rightarrow>
   'a chain_db_scheme \<Rightarrow> audit_error + 'a chain_db_scheme" where
  "chainOne cr marshal flt key keyID now p db =
     (if flt ''loadHead'' then Inl ErrAuditDb
      else
        let head = loadHead (pe_TenantID p) (pe_ChainClass p) (db_heads db);
            seq = wrap64 (hd_LastSeq head + 1)
        in bindE (CanonicalJSON marshal (payloadOf p)) (\<lambda>canonical.
          let entryHash = ComputeEntryHash cr key seq (hd_LastEntryHash head) canonical;
              entry = \<lparr>en_TenantID = pe_TenantID p, en_ChainClass = pe_ChainClass p, en_Seq = seq,
                       en_PrevHash = hd_LastEntryHash head, en_EntryHash = entryHash, en_KeyID = keyID,
                       en_Payload = canonical, en_Imported = False, en_CreatedAt = now\<rparr>
          in if flt ''createEntry'' then Inl ErrAuditDb
             else if list_ex (\<lambda>e. en_TenantID e = pe_TenantID p \<and> en_ChainClass e = pe_ChainClass p \<and> en_Seq e = seq)
                       (db_entries db) then Inl ErrDuplicateEntry
             else if flt ''upsertHead'' then Inl ErrAuditDb
             else Inr (db\<lparr>db_entries := db_entries db @ [entry],
                          db_heads := upsertHead (head\<lparr>hd_LastSeq := seq, hd_LastEntryHash := entryHash,
                                                       hd_UpdatedAt := now\<rparr>) (db_heads db)\<rparr>)))"

text \<open>The loop over the pending rows of a batch, inside its transaction; \<open>flt\<close> gives the faults per row.\<close>

fun chainLoop ::
  "crypto \<Rightarrow> marshaler \<Rightarrow> (id \<Rightarrow> audit_faults) \<Rightarrow> bytes \<Rightarrow> string \<Rightarrow> time \<Rightarrow> audit_pending list \<Rightarrow> nat \<Rightarrow>
   'a chain_db_scheme \<Rightarrow> audit_error + nat \<times> 'a chain_db_scheme" where
  "chainLoop cr marshal flt key keyID now [] n db = Inr (n, db)"
| "chainLoop cr marshal flt key keyID now (p # ps) n db =
     bindE (chainOne cr marshal (flt (pe_ID p)) key keyID now p db) (\<lambda>db1.
       if flt (pe_ID p) ''deletePending'' then Inl ErrAuditDb
       else chainLoop cr marshal flt key keyID now ps (Suc n)
              (db1\<lparr>db_pending := filter (\<lambda>q. pe_ID q \<noteq> pe_ID p) (db_pending db1)\<rparr>))"

definition ProcessBatch ::
  "crypto \<Rightarrow> marshaler \<Rightarrow> (id \<Rightarrow> audit_faults) \<Rightarrow> audit_faults \<Rightarrow> bytes \<Rightarrow> string \<Rightarrow> time \<Rightarrow> nat \<Rightarrow>
   'a chain_db_scheme \<Rightarrow> (audit_error + nat) \<times> 'a chain_db_scheme" where
  "ProcessBatch cr marshal rowflt flt key keyID now limit db =
     (if flt ''findPending'' then (Inl ErrAuditDb, db)
      else case chainLoop cr marshal rowflt key keyID now (take limit (sort_key pe_ID (db_pending db))) 0 db of
        Inl e \<Rightarrow> (Inl e, db)
      | Inr (n, db') \<Rightarrow> if flt ''commit'' then (Inl ErrAuditDb, db) else (Inr n, db'))"

section \<open>verify.go: walking a chain\<close>

record verify_result =
  vr_OK :: bool
  vr_VerifiedThrough :: int
  vr_FailSeq :: int
  vr_Reason :: string

record checkpoint_pos =
  cp_Seq :: int
  cp_PrevHash :: bytes

definition GenesisCheckpoint :: checkpoint_pos where
  "GenesisCheckpoint = \<lparr>cp_Seq = 1, cp_PrevHash = GenesisPrevHash\<rparr>"

definition verifyBatchSize :: nat where "verifyBatchSize = 1000"

text \<open>The rows of a chain after a cursor, in order of their sequence number.\<close>

definition chainRows :: "id \<Rightarrow> string \<Rightarrow> int \<Rightarrow> audit_entry list \<Rightarrow> audit_entry list" where
  "chainRows t c cursor es =
     sort_key en_Seq (filter (\<lambda>e. en_TenantID e = t \<and> en_ChainClass e = c \<and> cursor < en_Seq e) es)"

text \<open>The loop over one batch: a failure, or the hash and the sequence number to go on with.\<close>

fun verifyRows :: "crypto \<Rightarrow> bytes \<Rightarrow> bytes \<Rightarrow> int \<Rightarrow> audit_entry list \<Rightarrow> verify_result + bytes \<times> int" where
  "verifyRows cr key prev expectedSeq [] = Inr (prev, expectedSeq)"
| "verifyRows cr key prev expectedSeq (e # es) =
     (if en_Seq e \<noteq> expectedSeq
      then Inl \<lparr>vr_OK = False, vr_VerifiedThrough = expectedSeq - 1, vr_FailSeq = expectedSeq, vr_Reason = ''seq gap''\<rparr>
      else if en_PrevHash e \<noteq> prev
      then Inl \<lparr>vr_OK = False, vr_VerifiedThrough = en_Seq e - 1, vr_FailSeq = en_Seq e, vr_Reason = ''prev_hash mismatch''\<rparr>
      else if ComputeEntryHash cr key (en_Seq e) prev (en_Payload e) \<noteq> en_EntryHash e
      then Inl \<lparr>vr_OK = False, vr_VerifiedThrough = en_Seq e - 1, vr_FailSeq = en_Seq e, vr_Reason = ''hash mismatch''\<rparr>
      else verifyRows cr key (en_EntryHash e) (expectedSeq + 1) es)"

lemma chainRows_shrinks:
  assumes "take n (chainRows t c cursor es) \<noteq> []"
  shows "length (chainRows t c (en_Seq (last (take n (chainRows t c cursor es)))) es) < length (chainRows t c cursor es)"
proof -
  let ?l = "last (take n (chainRows t c cursor es))"
  have l: "?l \<in> set (chainRows t c cursor es)" using assms by (meson in_set_takeD last_in_set)
  let ?P = "\<lambda>e. en_TenantID e = t \<and> en_ChainClass e = c \<and> cursor < en_Seq e"
  let ?Q = "\<lambda>e. en_TenantID e = t \<and> en_ChainClass e = c \<and> en_Seq ?l < en_Seq e"
  have P: "?l \<in> set es" "?P ?l" using l by (auto simp: chainRows_def)
  have "filter ?Q es = filter ?Q (filter ?P es)" using P by (auto intro!: filter_cong)
  moreover have "length (filter ?Q (filter ?P es)) < length (filter ?P es)"
    by (rule length_filter_less [of ?l]) (use P in auto)
  ultimately show ?thesis unfolding chainRows_def length_sort by simp
qed

text \<open>The loop over the batches; \<open>flt cursor\<close> says whether the query at a cursor fails.\<close>

function verifyLoop ::
  "crypto \<Rightarrow> (int \<Rightarrow> bool) \<Rightarrow> bytes \<Rightarrow> id \<Rightarrow> string \<Rightarrow> audit_entry list \<Rightarrow> bytes \<Rightarrow> int \<Rightarrow> int \<Rightarrow> audit_error + verify_result" where
  "verifyLoop cr flt key t c es prev expectedSeq cursor =
     (if flt cursor then Inl ErrAuditDb
      else
        let batch = take verifyBatchSize (chainRows t c cursor es)
        in if batch = [] then Inr \<lparr>vr_OK = True, vr_VerifiedThrough = expectedSeq - 1, vr_FailSeq = 0, vr_Reason = []\<rparr>
           else case verifyRows cr key prev expectedSeq batch of
               Inl res \<Rightarrow> Inr res
             | Inr (prev', expectedSeq') \<Rightarrow> verifyLoop cr flt key t c es prev' expectedSeq' (en_Seq (last batch)))"
  by pat_completeness auto
termination
  by (relation "measure (\<lambda>(cr, flt, key, t, c, es, prev, expectedSeq, cursor). length (chainRows t c cursor es))")
    (auto intro: chainRows_shrinks)

declare verifyLoop.simps [simp del]

definition VerifyChainFrom ::
  "crypto \<Rightarrow> (int \<Rightarrow> bool) \<Rightarrow> bytes \<Rightarrow> id \<Rightarrow> string \<Rightarrow> checkpoint_pos \<Rightarrow> audit_entry list \<Rightarrow> audit_error + verify_result" where
  "VerifyChainFrom cr flt key tenantID chainClass cp es =
     (let expectedSeq = (if cp_Seq cp < 1 then 1 else cp_Seq cp)
      in verifyLoop cr flt key tenantID chainClass es (cp_PrevHash cp) expectedSeq (expectedSeq - 1))"

definition VerifyChain ::
  "crypto \<Rightarrow> (int \<Rightarrow> bool) \<Rightarrow> bytes \<Rightarrow> id \<Rightarrow> string \<Rightarrow> audit_entry list \<Rightarrow> audit_error + verify_result" where
  "VerifyChain cr flt key tenantID chainClass es = VerifyChainFrom cr flt key tenantID chainClass GenesisCheckpoint es"

end
