(* ===== verification/AuditAnchor.thy ===== *)
theory AuditAnchor
  imports AuditChain "HOL-Library.AList"
begin

text \<open>
  Anchors of the audit ledger (\<open>merkle.go\<close>, \<open>anchor.go\<close>, \<open>anchorkeys.go\<close>, \<open>anchormodel.go\<close>,
  \<open>anchorer.go\<close>, \<open>anchorsink.go\<close> and the anchor half of \<open>verify.go\<close>), the signed checkpoints and the
  pruning behind them (\<open>checkpoint.go\<close>), the offline export (\<open>export.go\<close>) and the operator's check
  \<open>runVerifyAudit\<close> (\<open>app/audit_verify.go\<close>). A nil byte slice is the empty list: the code only compares
  with \<open>bytes.Equal\<close>, which does not tell them apart.
\<close>

section \<open>merkle.go\<close>

fun hashPairs :: "(bytes \<Rightarrow> bytes) \<Rightarrow> bytes list \<Rightarrow> bytes list" where
  "hashPairs sha (l # r # level) = sha (l @ r) # hashPairs sha level"
| "hashPairs sha level = []"

definition merkleLevel :: "(bytes \<Rightarrow> bytes) \<Rightarrow> bytes list \<Rightarrow> bytes list" where
  "merkleLevel sha level = hashPairs sha (if length level mod 2 = 1 then level @ [last level] else level)"

lemma length_hashPairs: "length (hashPairs sha xs) = length xs div 2"
  by (induction sha xs rule: hashPairs.induct) auto

lemma length_merkleLevel: "length (merkleLevel sha xs) = (length xs + 1) div 2"
proof (cases "length xs mod 2 = 1")
  case False
  then have "even (length xs)" by presburger
  then show ?thesis by (auto simp: merkleLevel_def length_hashPairs)
qed (simp add: merkleLevel_def length_hashPairs)

function merkleLoop :: "(bytes \<Rightarrow> bytes) \<Rightarrow> bytes list \<Rightarrow> bytes" where
  "merkleLoop sha level = (if 1 < length level then merkleLoop sha (merkleLevel sha level) else hd level)"
  by pat_completeness auto
termination
  by (relation "measure (\<lambda>(sha, level). length level)") (auto simp: length_merkleLevel)

declare merkleLoop.simps [simp del]

definition MerkleRoot :: "(bytes \<Rightarrow> bytes) \<Rightarrow> bytes list \<Rightarrow> bytes" where
  "MerkleRoot sha leaves = (if leaves = [] then [] else merkleLoop sha leaves)"

section \<open>anchor.go\<close>

record audit_anchor =
  an_ID :: id
  an_TenantID :: id
  an_ChainClass :: string
  an_FromSeq :: int
  an_ToSeq :: int
  an_MerkleRoot :: bytes
  an_Signature :: bytes
  an_KeyID :: string
  an_Version :: int
  an_PrevAnchorHash :: bytes
  an_ExternalURI :: string
  an_CreatedAt :: time

definition anchorSigDomain :: string where "anchorSigDomain = ''mxid-audit-anchor-v1''"
definition anchorSigDomainV2 :: string where "anchorSigDomainV2 = ''mxid-audit-anchor-v2''"
definition AnchorV1 :: int where "AnchorV1 = 1"
definition AnchorV2 :: int where "AnchorV2 = 2"

definition AnchorSigMessage :: "id \<Rightarrow> string \<Rightarrow> int \<Rightarrow> int \<Rightarrow> bytes \<Rightarrow> bytes" where
  "AnchorSigMessage tenantID class fromSeq toSeq root =
     stringBytes anchorSigDomain @ PutUint64 tenantID @ PutUint16 (int (length class)) @ stringBytes class @
     PutUint64 fromSeq @ PutUint64 toSeq @ root"

text \<open>\<open>hex.EncodeToString\<close>\<close>

definition hexString :: "bytes \<Rightarrow> string" where
  "hexString bs = concat (map (\<lambda>b. [''0123456789abcdef'' ! nat (uint b div 16), ''0123456789abcdef'' ! nat (uint b mod 16)]) bs)"

definition KeyIDForPublic :: "crypto \<Rightarrow> bytes \<Rightarrow> string" where
  "KeyIDForPublic cr pub = take 16 (hexString (cr_sha256 cr pub))"

definition AnchorSigMessageV2 :: "id \<Rightarrow> string \<Rightarrow> int \<Rightarrow> int \<Rightarrow> bytes \<Rightarrow> bytes \<Rightarrow> bytes" where
  "AnchorSigMessageV2 tenantID class fromSeq toSeq prevAnchorHash root =
     stringBytes anchorSigDomainV2 @ PutUint64 tenantID @ PutUint16 (int (length class)) @ stringBytes class @
     PutUint64 fromSeq @ PutUint64 toSeq @ PutUint16 (int (length prevAnchorHash)) @ prevAnchorHash @ root"

definition AnchorHash :: "crypto \<Rightarrow> audit_anchor \<Rightarrow> bytes" where
  "AnchorHash cr a =
     (let msg = (if AnchorV2 \<le> an_Version a
                 then AnchorSigMessageV2 (an_TenantID a) (an_ChainClass a) (an_FromSeq a) (an_ToSeq a) (an_PrevAnchorHash a) (an_MerkleRoot a)
                 else AnchorSigMessage (an_TenantID a) (an_ChainClass a) (an_FromSeq a) (an_ToSeq a) (an_MerkleRoot a))
      in cr_sha256 cr msg)"

definition SignAnchor :: "crypto \<Rightarrow> bytes \<Rightarrow> id \<Rightarrow> string \<Rightarrow> int \<Rightarrow> int \<Rightarrow> bytes \<Rightarrow> bytes" where
  "SignAnchor cr priv tenantID class fromSeq toSeq root =
     cr_sign cr priv (AnchorSigMessage tenantID class fromSeq toSeq root)"

definition SignAnchorV2 :: "crypto \<Rightarrow> bytes \<Rightarrow> id \<Rightarrow> string \<Rightarrow> int \<Rightarrow> int \<Rightarrow> bytes \<Rightarrow> bytes \<Rightarrow> bytes" where
  "SignAnchorV2 cr priv tenantID class fromSeq toSeq prevAnchorHash root =
     cr_sign cr priv (AnchorSigMessageV2 tenantID class fromSeq toSeq prevAnchorHash root)"

definition VerifyAnchorSig :: "crypto \<Rightarrow> bytes \<Rightarrow> audit_anchor \<Rightarrow> bool" where
  "VerifyAnchorSig cr pub a =
     (if an_Version a = AnchorV2
      then cr_verify cr pub (AnchorSigMessageV2 (an_TenantID a) (an_ChainClass a) (an_FromSeq a) (an_ToSeq a)
             (an_PrevAnchorHash a) (an_MerkleRoot a)) (an_Signature a)
      else if an_Version a = AnchorV1 \<or> an_Version a = 0
      then cr_verify cr pub (AnchorSigMessage (an_TenantID a) (an_ChainClass a) (an_FromSeq a) (an_ToSeq a)
             (an_MerkleRoot a)) (an_Signature a)
      else False)"

section \<open>anchorkeys.go\<close>

type_synonym key_registry = "string \<rightharpoonup> bytes"

definition NewKeyRegistry :: "crypto \<Rightarrow> bytes list \<Rightarrow> key_registry" where
  "NewKeyRegistry cr pubs =
     foldl (\<lambda>r p. if length p = 0 then r else r(KeyIDForPublic cr p \<mapsto> p)) (\<lambda>_. None) pubs"

definition KeyFor :: "key_registry \<Rightarrow> string \<Rightarrow> bytes option" where
  "KeyFor r keyID = r keyID"

section \<open>The database and the sink\<close>

record anchor_record =
  sr_TenantID :: id
  sr_ChainClass :: string
  sr_FromSeq :: int
  sr_ToSeq :: int
  sr_MerkleRoot :: bytes
  sr_Signature :: bytes
  sr_KeyID :: string
  sr_CreatedAt :: time

record audit_checkpoint =
  ck_ID :: id
  ck_TenantID :: id
  ck_ChainClass :: string
  ck_PrunedThroughSeq :: int
  ck_PrevHash :: bytes
  ck_Signature :: bytes
  ck_KeyID :: string
  ck_CreatedAt :: time

text \<open>\<open>db_sink\<close> is the content of the sink, outside the database: one record per line, in append order.\<close>

record audit_db = chain_db +
  db_anchors :: "audit_anchor list"
  db_checkpoints :: "audit_checkpoint list"
  db_sink :: "anchor_record list"

datatype anchor_error = ErrAnchorDb | ErrSink | ErrUnknownKey | ErrBadCheckpointSig | ErrPanic

text \<open>\<open>FileSink.Put\<close> and \<open>FileSink.List\<close>: one JSON line appended per record, all lines read back.\<close>

definition sinkPut :: "anchor_record \<Rightarrow> anchor_record list \<Rightarrow> anchor_record list" where
  "sinkPut rec recs = recs @ [rec]"

definition sinkList :: "anchor_record list \<Rightarrow> anchor_record list" where
  "sinkList recs = recs"

definition anchorsOf :: "id \<Rightarrow> string \<Rightarrow> audit_anchor list \<Rightarrow> audit_anchor list" where
  "anchorsOf t c as = filter (\<lambda>a. an_TenantID a = t \<and> an_ChainClass a = c) as"

text \<open>\<open>Order("to_seq desc").First\<close>\<close>

definition latestAnchor :: "audit_anchor list \<Rightarrow> audit_anchor option" where
  "latestAnchor as = (case sort_key (\<lambda>a. - an_ToSeq a) as of [] \<Rightarrow> None | a # _ \<Rightarrow> Some a)"

text \<open>\<open>COALESCE(MAX(to_seq), 0)\<close>\<close>

definition maxToSeq :: "audit_anchor list \<Rightarrow> int" where
  "maxToSeq as = (case as of [] \<Rightarrow> 0 | a # r \<Rightarrow> foldl (\<lambda>m b. max m (an_ToSeq b)) (an_ToSeq a) r)"

section \<open>anchorer.go\<close>

definition AnchorChain ::
  "crypto \<Rightarrow> audit_faults \<Rightarrow> bytes \<Rightarrow> bool \<Rightarrow> time \<Rightarrow> id \<Rightarrow> string \<Rightarrow> id \<Rightarrow> string \<Rightarrow> audit_db \<Rightarrow>
   (anchor_error + audit_anchor option) \<times> audit_db" where
  "AnchorChain cr flt priv useSink now newID uri tenantID class db =
     (if flt ''maxToSeq'' then (Inl ErrAnchorDb, db)
      else
        let as = anchorsOf tenantID class (db_anchors db); lastTo = maxToSeq as
        in if flt ''findEntries'' then (Inl ErrAnchorDb, db)
           else
             let entries = chainRows tenantID class lastTo (db_entries db)
             in if entries = [] then (Inr None, db)
                else if flt ''loadPrevAnchor'' then (Inl ErrAnchorDb, db)
                else
                  let root = MerkleRoot (cr_sha256 cr) (map en_EntryHash entries);
                      fromSeq = en_Seq (hd entries); toSeq = en_Seq (last entries);
                      prevHash = (case latestAnchor as of None \<Rightarrow> [] | Some a \<Rightarrow> AnchorHash cr a);
                      sig = SignAnchorV2 cr priv tenantID class fromSeq toSeq prevHash root;
                      keyID = KeyIDForPublic cr (cr_public cr priv);
                      rec = \<lparr>sr_TenantID = tenantID, sr_ChainClass = class, sr_FromSeq = fromSeq, sr_ToSeq = toSeq,
                             sr_MerkleRoot = root, sr_Signature = sig, sr_KeyID = keyID, sr_CreatedAt = now\<rparr>;
                      anchor = \<lparr>an_ID = newID, an_TenantID = tenantID, an_ChainClass = class, an_FromSeq = fromSeq,
                             an_ToSeq = toSeq, an_MerkleRoot = root, an_Signature = sig, an_KeyID = keyID,
                             an_Version = AnchorV2, an_PrevAnchorHash = prevHash,
                             an_ExternalURI = (if useSink then uri else []), an_CreatedAt = now\<rparr>
                  in if useSink \<and> flt ''sinkPut'' then (Inl ErrSink, db)
                     else
                       let db1 = (if useSink then db\<lparr>db_sink := sinkPut rec (db_sink db)\<rparr> else db)
                       in if flt ''createAnchor'' then (Inl ErrAnchorDb, db1)
                          else if list_ex (\<lambda>a. an_FromSeq a = fromSeq \<and> an_ToSeq a = toSeq) as then (Inr None, db1)
                          else (Inr (Some anchor), db1\<lparr>db_anchors := db_anchors db1 @ [anchor]\<rparr>))"

text \<open>The loop of \<open>AnchorAll\<close> over the heads; ids and URIs are supplied per chain.\<close>

fun anchorLoop ::
  "crypto \<Rightarrow> (id \<times> string \<Rightarrow> audit_faults) \<Rightarrow> bytes \<Rightarrow> bool \<Rightarrow> time \<Rightarrow> (id \<times> string \<Rightarrow> id \<times> string) \<Rightarrow> chain_head list \<Rightarrow> nat \<Rightarrow>
   audit_db \<Rightarrow> (anchor_error option \<times> nat) \<times> audit_db" where
  "anchorLoop cr flt priv useSink now fresh [] n db = ((None, n), db)"
| "anchorLoop cr flt priv useSink now fresh (h # hs) n db =
     (let k = (hd_TenantID h, hd_ChainClass h)
      in case AnchorChain cr (flt k) priv useSink now (fst (fresh k)) (snd (fresh k)) (hd_TenantID h) (hd_ChainClass h) db of
           (Inl e, db1) \<Rightarrow> ((Some e, n), db1)
         | (Inr None, db1) \<Rightarrow> anchorLoop cr flt priv useSink now fresh hs n db1
         | (Inr (Some _), db1) \<Rightarrow> anchorLoop cr flt priv useSink now fresh hs (Suc n) db1)"

definition AnchorAll ::
  "crypto \<Rightarrow> audit_faults \<Rightarrow> (id \<times> string \<Rightarrow> audit_faults) \<Rightarrow> bytes \<Rightarrow> bool \<Rightarrow> time \<Rightarrow> (id \<times> string \<Rightarrow> id \<times> string) \<Rightarrow> audit_db \<Rightarrow>
   (anchor_error option \<times> nat) \<times> audit_db" where
  "AnchorAll cr flt cflt priv useSink now fresh db =
     (if flt ''findHeads'' then ((Some ErrAnchorDb, 0), db)
      else anchorLoop cr cflt priv useSink now fresh (db_heads db) 0 db)"

section \<open>verify.go: anchors\<close>

record anchor_verify_result =
  av_OK :: bool
  av_AnchoredThrough :: int
  av_FailFromSeq :: int
  av_Reason :: string

definition avFail :: "int \<Rightarrow> int \<Rightarrow> string \<Rightarrow> anchor_verify_result" where
  "avFail through from reason = \<lparr>av_OK = False, av_AnchoredThrough = through, av_FailFromSeq = from, av_Reason = reason\<rparr>"

definition avOK :: "int \<Rightarrow> anchor_verify_result" where
  "avOK through = \<lparr>av_OK = True, av_AnchoredThrough = through, av_FailFromSeq = 0, av_Reason = []\<rparr>"

text \<open>The rows of a range after a cursor.\<close>

definition rangeRows :: "id \<Rightarrow> string \<Rightarrow> int \<Rightarrow> int \<Rightarrow> audit_entry list \<Rightarrow> audit_entry list" where
  "rangeRows t c cursor toSeq es = filter (\<lambda>e. en_Seq e \<le> toSeq) (chainRows t c cursor es)"

lemma rangeRows_shrinks:
  assumes "take n (rangeRows t c cursor k es) \<noteq> []"
  shows "length (rangeRows t c (en_Seq (last (take n (rangeRows t c cursor k es)))) k es) < length (rangeRows t c cursor k es)"
proof -
  let ?l = "last (take n (rangeRows t c cursor k es))"
  have l: "?l \<in> set (rangeRows t c cursor k es)" using assms by (meson in_set_takeD last_in_set)
  let ?P = "\<lambda>e. en_TenantID e = t \<and> en_ChainClass e = c \<and> cursor < en_Seq e \<and> en_Seq e \<le> k"
  let ?Q = "\<lambda>e. en_TenantID e = t \<and> en_ChainClass e = c \<and> en_Seq ?l < en_Seq e \<and> en_Seq e \<le> k"
  have P: "?l \<in> set es" "?P ?l" using l by (auto simp: rangeRows_def chainRows_def)
  have len: "length (rangeRows t c cur k es) =
      length (filter (\<lambda>e. en_TenantID e = t \<and> en_ChainClass e = c \<and> cur < en_Seq e \<and> en_Seq e \<le> k) es)" for cur
    by (simp add: rangeRows_def chainRows_def filter_sort conj_ac)
  have "filter ?Q es = filter ?Q (filter ?P es)" using P by (auto intro!: filter_cong)
  moreover have "length (filter ?Q (filter ?P es)) < length (filter ?P es)"
    by (rule length_filter_less [of ?l]) (use P in auto)
  ultimately show ?thesis unfolding len by simp
qed

text \<open>Reading the hashes of a range in batches.\<close>

function leavesLoop ::
  "(int \<Rightarrow> bool) \<Rightarrow> id \<Rightarrow> string \<Rightarrow> audit_entry list \<Rightarrow> int \<Rightarrow> int \<Rightarrow> bytes list \<Rightarrow> anchor_error + bytes list" where
  "leavesLoop flt t c es toSeq cursor leaves =
     (if \<not> cursor < toSeq then Inr leaves
      else if flt cursor then Inl ErrAnchorDb
      else
        let batch = take verifyBatchSize (rangeRows t c cursor toSeq es)
        in if batch = [] then Inr leaves
           else leavesLoop flt t c es toSeq (en_Seq (last batch)) (leaves @ map en_EntryHash batch))"
  by pat_completeness auto
termination
  by (relation "measure (\<lambda>(flt, t, c, es, toSeq, cursor, leaves). length (rangeRows t c cursor toSeq es))")
    (auto intro: rangeRows_shrinks)

declare leavesLoop.simps [simp del]

text \<open>The loop over the anchors: coverage, key, signature, link, leaves, root.\<close>

fun anchorsLoop ::
  "crypto \<Rightarrow> (int \<Rightarrow> bool) \<Rightarrow> key_registry \<Rightarrow> id \<Rightarrow> string \<Rightarrow> audit_entry list \<Rightarrow> int \<Rightarrow> int \<Rightarrow> bytes option \<Rightarrow> audit_anchor list \<Rightarrow>
   anchor_error + anchor_verify_result" where
  "anchorsLoop cr flt keys t c es through expectedFrom expectPrev [] = Inr (avOK through)"
| "anchorsLoop cr flt keys t c es through expectedFrom expectPrev (a # as) =
     (if an_FromSeq a \<noteq> expectedFrom then Inr (avFail (expectedFrom - 1) (an_FromSeq a) ''anchor gap'')
      else case KeyFor keys (an_KeyID a) of
        None \<Rightarrow> Inr (avFail through (an_FromSeq a) ''unknown key'')
      | Some pub \<Rightarrow>
          if \<not> VerifyAnchorSig cr pub a then Inr (avFail through (an_FromSeq a) ''bad signature'')
          else if expectPrev \<noteq> None \<and> AnchorV2 \<le> an_Version a \<and> Some (an_PrevAnchorHash a) \<noteq> expectPrev
          then Inr (avFail through (an_FromSeq a) ''anchor link mismatch'')
          else if an_ToSeq a - an_FromSeq a + 1 < 0 then Inl ErrPanic
          else bindE (leavesLoop flt t c es (an_ToSeq a) (an_FromSeq a - 1) []) (\<lambda>leaves.
            if int (length leaves) \<noteq> an_ToSeq a - an_FromSeq a + 1
            then Inr (avFail through (an_FromSeq a) ''missing entries'')
            else if MerkleRoot (cr_sha256 cr) leaves \<noteq> an_MerkleRoot a
            then Inr (avFail through (an_FromSeq a) ''root mismatch'')
            else anchorsLoop cr flt keys t c es (an_ToSeq a) (an_ToSeq a + 1) (Some (AnchorHash cr a)) as))"

definition VerifyAnchorsFrom ::
  "crypto \<Rightarrow> audit_faults \<Rightarrow> (int \<Rightarrow> bool) \<Rightarrow> key_registry \<Rightarrow> id \<Rightarrow> string \<Rightarrow> int \<Rightarrow> audit_db \<Rightarrow> anchor_error + anchor_verify_result" where
  "VerifyAnchorsFrom cr flt lflt keys tenantID class fromSeq0 db =
     (let fromSeq = (if fromSeq0 < 1 then 1 else fromSeq0)
      in if flt ''findAnchors'' then Inl ErrAnchorDb
         else anchorsLoop cr lflt keys tenantID class (db_entries db) (fromSeq - 1) fromSeq None
                (sort_key an_FromSeq (filter (\<lambda>a. fromSeq \<le> an_ToSeq a) (anchorsOf tenantID class (db_anchors db)))))"

definition VerifyAnchors ::
  "crypto \<Rightarrow> audit_faults \<Rightarrow> (int \<Rightarrow> bool) \<Rightarrow> key_registry \<Rightarrow> id \<Rightarrow> string \<Rightarrow> audit_db \<Rightarrow> anchor_error + anchor_verify_result" where
  "VerifyAnchors cr flt lflt keys tenantID class db = VerifyAnchorsFrom cr flt lflt keys tenantID class 1 db"

end
