(* ===== verification/AuditCheckpoint.thy ===== *)
theory AuditCheckpoint
  imports AuditAnchor
begin

text \<open>
  The cross-check of the anchors against the external sink (\<open>verify.go\<close>), signed checkpoints and the
  pruning of a chain behind them (\<open>checkpoint.go\<close>), the offline export (\<open>export.go\<close>) and the operator's
  check of all chains (\<open>app/audit_verify.go\<close>).
\<close>

section \<open>verify.go: the sink\<close>

text \<open>The index of the sink by range, where a later record replaces an earlier one.\<close>

definition sinkIndex :: "id \<Rightarrow> string \<Rightarrow> anchor_record list \<Rightarrow> ((int \<times> int) \<times> anchor_record) list" where
  "sinkIndex t c recs =
     foldl (\<lambda>idx r. if sr_TenantID r = t \<and> sr_ChainClass r = c then AList.update (sr_FromSeq r, sr_ToSeq r) r idx else idx) [] recs"

definition maxDBToSeqAt :: "audit_anchor list \<Rightarrow> int \<Rightarrow> int option" where
  "maxDBToSeqAt as f =
     foldl (\<lambda>m a. if an_FromSeq a = f \<and> (case m of None \<Rightarrow> 0 | Some x \<Rightarrow> x) < an_ToSeq a then Some (an_ToSeq a) else m) None as"

definition VerifyAnchorsWithSinkFrom ::
  "crypto \<Rightarrow> audit_faults \<Rightarrow> (int \<Rightarrow> bool) \<Rightarrow> bool \<Rightarrow> key_registry \<Rightarrow> id \<Rightarrow> string \<Rightarrow> int \<Rightarrow> audit_db \<Rightarrow> anchor_error + anchor_verify_result" where
  "VerifyAnchorsWithSinkFrom cr flt lflt useSink keys tenantID class fromSeq db =
     bindE (VerifyAnchorsFrom cr flt lflt keys tenantID class fromSeq db) (\<lambda>res.
       if \<not> av_OK res then Inr res
       else if \<not> useSink then Inr res
       else if flt ''findAllAnchors'' then Inl ErrAnchorDb
       else if flt ''sinkList'' then Inl ErrSink
       else
         let dbAnchors = sort_key an_FromSeq (anchorsOf tenantID class (db_anchors db));
             sinkIdx = sinkIndex tenantID class (sinkList (db_sink db))
         in case find (\<lambda>a. case map_of sinkIdx (an_FromSeq a, an_ToSeq a) of
                            None \<Rightarrow> True
                          | Some sr \<Rightarrow> sr_MerkleRoot sr \<noteq> an_MerkleRoot a \<or> sr_Signature sr \<noteq> an_Signature a) dbAnchors of
              Some a \<Rightarrow> Inr (avFail (av_AnchoredThrough res) (an_FromSeq a) ''sink mismatch'')
            | None \<Rightarrow>
                (case find (\<lambda>(k, r). \<not> list_ex (\<lambda>a. (an_FromSeq a, an_ToSeq a) = k) dbAnchors \<and>
                          (case maxDBToSeqAt dbAnchors (sr_FromSeq r) of None \<Rightarrow> True | Some m \<Rightarrow> m < sr_ToSeq r)) sinkIdx of
                   Some (k, r) \<Rightarrow> Inr (avFail (av_AnchoredThrough res) (sr_FromSeq r) ''sink mismatch'')
                 | None \<Rightarrow> Inr res))"

section \<open>checkpoint.go\<close>

definition checkpointSigDomain :: string where "checkpointSigDomain = ''mxid-audit-checkpoint-v1''"

definition CheckpointSigMessage :: "id \<Rightarrow> string \<Rightarrow> int \<Rightarrow> bytes \<Rightarrow> bytes" where
  "CheckpointSigMessage tenantID class seq prevHash =
     stringBytes checkpointSigDomain @ PutUint64 tenantID @ PutUint16 (int (length class)) @ stringBytes class @
     PutUint64 seq @ prevHash"

definition VerifyCheckpointSig :: "crypto \<Rightarrow> bytes \<Rightarrow> audit_checkpoint \<Rightarrow> bool" where
  "VerifyCheckpointSig cr pub cp =
     cr_verify cr pub (CheckpointSigMessage (ck_TenantID cp) (ck_ChainClass cp) (ck_PrunedThroughSeq cp) (ck_PrevHash cp)) (ck_Signature cp)"

definition checkpointOf :: "id \<Rightarrow> string \<Rightarrow> audit_checkpoint list \<Rightarrow> audit_checkpoint option" where
  "checkpointOf t c cps = find (\<lambda>p. ck_TenantID p = t \<and> ck_ChainClass p = c) cps"

definition LoadCheckpoint ::
  "crypto \<Rightarrow> audit_faults \<Rightarrow> key_registry \<Rightarrow> id \<Rightarrow> string \<Rightarrow> audit_db \<Rightarrow> anchor_error + checkpoint_pos" where
  "LoadCheckpoint cr flt keys tenantID class db =
     (if flt ''loadCheckpoint'' then Inl ErrAnchorDb
      else case checkpointOf tenantID class (db_checkpoints db) of
        None \<Rightarrow> Inr GenesisCheckpoint
      | Some cp \<Rightarrow>
          (case KeyFor keys (ck_KeyID cp) of
             None \<Rightarrow> Inl ErrUnknownKey
           | Some pub \<Rightarrow>
               if \<not> VerifyCheckpointSig cr pub cp then Inl ErrBadCheckpointSig
               else Inr \<lparr>cp_Seq = ck_PrunedThroughSeq cp + 1, cp_PrevHash = ck_PrevHash cp\<rparr>))"

record prune_result =
  pr_TenantID :: id
  pr_ChainClass :: string
  pr_PrunedThroughSeq :: int
  pr_EntriesDeleted :: nat

text \<open>The upsert on \<open>(tenant_id, chain_class)\<close>; the id of an existing row stays.\<close>

definition upsertCheckpoint :: "audit_checkpoint \<Rightarrow> audit_checkpoint list \<Rightarrow> audit_checkpoint list" where
  "upsertCheckpoint cp cps =
     (if checkpointOf (ck_TenantID cp) (ck_ChainClass cp) cps = None then cps @ [cp]
      else map (\<lambda>r. if ck_TenantID r = ck_TenantID cp \<and> ck_ChainClass r = ck_ChainClass cp
                    then r\<lparr>ck_PrunedThroughSeq := ck_PrunedThroughSeq cp, ck_PrevHash := ck_PrevHash cp,
                           ck_Signature := ck_Signature cp, ck_KeyID := ck_KeyID cp, ck_CreatedAt := ck_CreatedAt cp\<rparr>
                    else r) cps)"

definition PruneChain ::
  "crypto \<Rightarrow> audit_faults \<Rightarrow> bytes \<Rightarrow> time \<Rightarrow> id \<Rightarrow> id \<Rightarrow> string \<Rightarrow> int \<Rightarrow> audit_db \<Rightarrow> (anchor_error + prune_result) \<times> audit_db" where
  "PruneChain cr flt priv now newID tenantID class cutoffSeq db =
     (let res = \<lparr>pr_TenantID = tenantID, pr_ChainClass = class, pr_PrunedThroughSeq = 0, pr_EntriesDeleted = 0\<rparr>
      in if flt ''lastAnchor'' then (Inl ErrAnchorDb, db)
         else case latestAnchor (anchorsOf tenantID class (db_anchors db)) of
           None \<Rightarrow> (Inr res, db)
         | Some lastAnchor \<Rightarrow>
             let through = (if cutoffSeq < an_ToSeq lastAnchor then cutoffSeq else an_ToSeq lastAnchor)
             in if through < 1 then (Inr res, db)
                else if flt ''boundary'' then (Inl ErrAnchorDb, db)
                else case find (\<lambda>e. en_TenantID e = tenantID \<and> en_ChainClass e = class \<and> en_Seq e = through) (db_entries db) of
                  None \<Rightarrow> (Inr res, db)
                | Some boundary \<Rightarrow>
                    let cp = \<lparr>ck_ID = newID, ck_TenantID = tenantID, ck_ChainClass = class, ck_PrunedThroughSeq = through,
                              ck_PrevHash = en_EntryHash boundary,
                              ck_Signature = cr_sign cr priv (CheckpointSigMessage tenantID class through (en_EntryHash boundary)),
                              ck_KeyID = KeyIDForPublic cr (cr_public cr priv), ck_CreatedAt = now\<rparr>;
                        gone = (\<lambda>e. en_TenantID e = tenantID \<and> en_ChainClass e = class \<and> en_Seq e \<le> through)
                    in if flt ''pruneTx'' then (Inl ErrAnchorDb, db)
                       else (Inr (res\<lparr>pr_PrunedThroughSeq := through,
                                      pr_EntriesDeleted := length (filter gone (db_entries db))\<rparr>),
                             db\<lparr>db_checkpoints := upsertCheckpoint cp (db_checkpoints db),
                                db_entries := filter (\<lambda>e. \<not> gone e) (db_entries db)\<rparr>))"

fun pruneLoop ::
  "crypto \<Rightarrow> (id \<times> string \<Rightarrow> audit_faults) \<Rightarrow> bytes \<Rightarrow> time \<Rightarrow> (id \<times> string \<Rightarrow> id) \<Rightarrow> time \<Rightarrow> chain_head list \<Rightarrow> prune_result list \<Rightarrow>
   audit_db \<Rightarrow> (anchor_error option \<times> prune_result list) \<times> audit_db" where
  "pruneLoop cr flt priv now fresh cutoff [] out db = ((None, out), db)"
| "pruneLoop cr flt priv now fresh cutoff (h # hs) out db =
     (let t = hd_TenantID h; c = hd_ChainClass h
      in if flt (t, c) ''findBoundary'' then ((Some ErrAnchorDb, out), db)
         else case latestAnchor (filter (\<lambda>a. an_CreatedAt a < cutoff) (anchorsOf t c (db_anchors db))) of
           None \<Rightarrow> pruneLoop cr flt priv now fresh cutoff hs out db
         | Some anchor \<Rightarrow>
             (case PruneChain cr (flt (t, c)) priv now (fresh (t, c)) t c (an_ToSeq anchor) db of
                (Inl e, db1) \<Rightarrow> ((Some e, out), db1)
              | (Inr res, db1) \<Rightarrow>
                  pruneLoop cr flt priv now fresh cutoff hs (if 0 < pr_EntriesDeleted res then out @ [res] else out) db1))"

definition PruneChainsBefore ::
  "crypto \<Rightarrow> audit_faults \<Rightarrow> (id \<times> string \<Rightarrow> audit_faults) \<Rightarrow> bytes \<Rightarrow> time \<Rightarrow> (id \<times> string \<Rightarrow> id) \<Rightarrow> time \<Rightarrow> audit_db \<Rightarrow>
   (anchor_error option \<times> prune_result list) \<times> audit_db" where
  "PruneChainsBefore cr flt cflt priv now fresh cutoff db =
     (if flt ''findHeads'' then ((Some ErrAnchorDb, []), db)
      else pruneLoop cr cflt priv now fresh cutoff (db_heads db) [] db)"

section \<open>export.go\<close>

record export_entry =
  xe_Seq :: int
  xe_PrevHash :: bytes
  xe_EntryHash :: bytes
  xe_Payload :: bytes

text \<open>A key of the bundle is base64 text: \<open>Json k\<close> the encoding of \<open>k\<close>, \<open>NotJson\<close> text that does not decode.\<close>

record export_bundle =
  xb_TenantID :: id
  xb_ChainClass :: string
  xb_FromSeq :: int
  xb_ToSeq :: int
  xb_Entries :: "export_entry list"
  xb_Anchors :: "audit_anchor list"
  xb_PubKeys :: "(string \<times> bytes json) list"

definition exportEntry :: "audit_entry \<Rightarrow> export_entry" where
  "exportEntry e = \<lparr>xe_Seq = en_Seq e, xe_PrevHash = en_PrevHash e, xe_EntryHash = en_EntryHash e, xe_Payload = en_Payload e\<rparr>"

definition BuildExport ::
  "audit_faults \<Rightarrow> key_registry \<Rightarrow> id \<Rightarrow> string \<Rightarrow> int \<Rightarrow> int \<Rightarrow> audit_db \<Rightarrow> anchor_error + export_bundle" where
  "BuildExport flt keys tenantID class fromSeq toSeq db =
     (if flt ''findEntries'' \<or> flt ''findAnchors'' then Inl ErrAnchorDb
      else
        let anchors = sort_key an_FromSeq (filter (\<lambda>a. fromSeq \<le> an_ToSeq a \<and> an_FromSeq a \<le> toSeq)
                        (anchorsOf tenantID class (db_anchors db)))
        in Inr \<lparr>xb_TenantID = tenantID, xb_ChainClass = class, xb_FromSeq = fromSeq, xb_ToSeq = toSeq,
                xb_Entries = map exportEntry (rangeRows tenantID class (fromSeq - 1) toSeq (db_entries db)),
                xb_Anchors = anchors,
                xb_PubKeys = foldl (\<lambda>m a. case KeyFor keys (an_KeyID a) of
                                            None \<Rightarrow> m | Some pub \<Rightarrow> AList.update (an_KeyID a) (Json pub) m) [] anchors\<rparr>)"

text \<open>\<open>bySeq[s]\<close>: the last exported entry with the number.\<close>

definition bySeq :: "export_entry list \<Rightarrow> int \<Rightarrow> export_entry option" where
  "bySeq es s = map_of (rev (map (\<lambda>e. (xe_Seq e, e)) es)) s"

text \<open>The hashes of the numbers from \<open>s\<close> to \<open>toSeq\<close>, if all are present; \<open>n\<close> counts the numbers left.\<close>

fun exportLeaves :: "export_entry list \<Rightarrow> int \<Rightarrow> nat \<Rightarrow> bytes list option" where
  "exportLeaves es s 0 = Some []"
| "exportLeaves es s (Suc n) =
     (case bySeq es s of
        None \<Rightarrow> None
      | Some e \<Rightarrow> (case exportLeaves es (s + 1) n of None \<Rightarrow> None | Some hs \<Rightarrow> Some (xe_EntryHash e # hs)))"

fun exportLoop ::
  "crypto \<Rightarrow> key_registry \<Rightarrow> export_bundle \<Rightarrow> int \<Rightarrow> int \<Rightarrow> audit_anchor list \<Rightarrow> anchor_error + (anchor_verify_result + int)" where
  "exportLoop cr trusted b through expectedFrom [] = Inr (Inr through)"
| "exportLoop cr trusted b through expectedFrom (a # as) =
     (case (case map_of (xb_PubKeys b) (an_KeyID a) of None \<Rightarrow> None | Some t \<Rightarrow> Unmarshal t) of
        None \<Rightarrow> Inr (Inl (avFail through (an_FromSeq a) ''unknown key''))
      | Some pub \<Rightarrow>
          if KeyFor trusted (an_KeyID a) \<noteq> Some pub then Inr (Inl (avFail through (an_FromSeq a) ''untrusted key''))
          else if an_FromSeq a \<noteq> expectedFrom then Inr (Inl (avFail through (an_FromSeq a) ''anchor gap''))
          else if \<not> VerifyAnchorSig cr pub a then Inr (Inl (avFail through (an_FromSeq a) ''bad signature''))
          else if an_ToSeq a - an_FromSeq a + 1 < 0 then Inl ErrPanic
          else (case exportLeaves (xb_Entries b) (an_FromSeq a) (nat (an_ToSeq a - an_FromSeq a + 1)) of
                  None \<Rightarrow> Inr (Inl (avFail through (an_FromSeq a) ''missing entries''))
                | Some leaves \<Rightarrow>
                    if MerkleRoot (cr_sha256 cr) leaves \<noteq> an_MerkleRoot a
                    then Inr (Inl (avFail through (an_FromSeq a) ''root mismatch''))
                    else exportLoop cr trusted b (an_ToSeq a) (an_ToSeq a + 1) as))"

definition VerifyExport :: "crypto \<Rightarrow> export_bundle \<Rightarrow> key_registry \<Rightarrow> anchor_error + anchor_verify_result" where
  "VerifyExport cr b trusted =
     bindE (exportLoop cr trusted b 0 (xb_FromSeq b) (xb_Anchors b)) (\<lambda>r.
       case r of
         Inl fail \<Rightarrow> Inr fail
       | Inr through \<Rightarrow>
           if xb_Anchors b = [] then Inr (avFail 0 (xb_FromSeq b) ''no anchors'')
           else if through < xb_ToSeq b then Inr (avFail through (through + 1) ''incomplete coverage'')
           else Inr (avOK through))"

section \<open>app/audit\_verify.go\<close>

text \<open>The check of one chain: its result and, when keys are registered, that of its anchors.\<close>

definition verifyHead ::
  "crypto \<Rightarrow> audit_faults \<Rightarrow> (int \<Rightarrow> bool) \<Rightarrow> bytes \<Rightarrow> bool \<Rightarrow> bytes list \<Rightarrow> audit_db \<Rightarrow> chain_head \<Rightarrow>
   anchor_error + verify_result \<times> anchor_verify_result option" where
  "verifyHead cr flt lflt key useSink pubs db h =
     (let reg = NewKeyRegistry cr pubs in
      bindE (LoadCheckpoint cr flt reg (hd_TenantID h) (hd_ChainClass h) db) (\<lambda>cp.
        case VerifyChainFrom cr lflt key (hd_TenantID h) (hd_ChainClass h) cp (db_entries db) of
          Inl _ \<Rightarrow> Inl ErrAnchorDb
        | Inr res \<Rightarrow>
            if filter (\<lambda>p. p \<noteq> []) pubs = [] then Inr (res, None)
            else bindE (VerifyAnchorsWithSinkFrom cr flt lflt useSink reg (hd_TenantID h) (hd_ChainClass h) (cp_Seq cp) db)
                   (\<lambda>ares. Inr (res, Some ares))))"

fun verifyHeads ::
  "crypto \<Rightarrow> audit_faults \<Rightarrow> (int \<Rightarrow> bool) \<Rightarrow> bytes \<Rightarrow> bool \<Rightarrow> bytes list \<Rightarrow> audit_db \<Rightarrow> bool \<Rightarrow> chain_head list \<Rightarrow> anchor_error + bool" where
  "verifyHeads cr flt lflt key useSink pubs db failed [] = Inr failed"
| "verifyHeads cr flt lflt key useSink pubs db failed (h # hs) =
     bindE (verifyHead cr flt lflt key useSink pubs db h) (\<lambda>(res, ares).
       verifyHeads cr flt lflt key useSink pubs db
         (failed \<or> \<not> vr_OK res \<or> (case ares of None \<Rightarrow> False | Some r \<Rightarrow> \<not> av_OK r)) hs)"

text \<open>\<open>runVerifyAudit\<close> after its configuration is decoded: an error, or whether some chain failed.\<close>

definition runVerifyAudit ::
  "crypto \<Rightarrow> audit_faults \<Rightarrow> (int \<Rightarrow> bool) \<Rightarrow> bytes \<Rightarrow> bool \<Rightarrow> bytes list \<Rightarrow> audit_db \<Rightarrow> anchor_error + bool" where
  "runVerifyAudit cr flt lflt key useSink pubs db =
     (if flt ''findHeads'' then Inl ErrAnchorDb
      else verifyHeads cr flt lflt key useSink pubs db False (db_heads db))"

end
