(* ===== verification/AuditChainProofs.thy ===== *)
theory AuditChainProofs
  imports AuditChain
begin

text \<open>
  The chain of the audit ledger: the batched verification equals a single pass over the chain, a clean
  result means that the rows are linked without a gap, and the hash of the last entry fixes the whole
  chain up to a collision of the keyed hash. The last part follows the chainer: it extends linked
  chains by linked chains.
\<close>

section \<open>Byte encodings\<close>

lemma bytes_digits:
  assumes "\<And>k. k < n \<Longrightarrow> (word_of_int (x div 256 ^ k) :: byte) = word_of_int (y div 256 ^ k)"
  shows "x mod 256 ^ n = (y :: int) mod 256 ^ n"
  using assms
proof (induction n)
  case 0
  then show ?case by simp
next
  case (Suc n)
  have d: "z mod 256 ^ Suc n = 256 ^ n * (z div 256 ^ n mod 256) + z mod 256 ^ n" for z :: int
    using zmod_zmult2_eq [of 256 z "256 ^ n"] by (simp add: mult.commute)
  have "uint (word_of_int (x div 256 ^ n) :: byte) = uint (word_of_int (y div 256 ^ n) :: byte)"
    using Suc.prems [of n] by simp
  then have "x div 256 ^ n mod 256 = y div 256 ^ n mod 256"
    by (simp add: uint_word_of_int)
  moreover have "x mod 256 ^ n = y mod 256 ^ n" using Suc by simp
  ultimately show ?case by (simp only: d)
qed

lemma PutUint64_mod:
  assumes h: "PutUint64 x = PutUint64 y" shows "x mod 2 ^ 64 = y mod 2 ^ 64"
proof -
  have "x mod 256 ^ 8 = y mod 256 ^ 8"
  proof (rule bytes_digits)
    fix k :: nat assume "k < 8"
    then have "k \<in> set [7, 6, 5, 4, 3, 2, 1, 0]" by auto
    then show "(word_of_int (x div 256 ^ k) :: byte) = word_of_int (y div 256 ^ k)"
      using h by (auto simp: PutUint64_def)
  qed
  then show ?thesis by simp
qed

text \<open>The values of an \<open>int64\<close> and of a length of at most 16 bits.\<close>

abbreviation int64 :: "int \<Rightarrow> bool" where "int64 x \<equiv> - (2 ^ 63) \<le> x \<and> x < 2 ^ 63"

lemma PutUint64_inj: "int64 x \<Longrightarrow> int64 y \<Longrightarrow> PutUint64 x = PutUint64 y \<longleftrightarrow> x = y"
proof
  assume r: "int64 x" "int64 y" and h: "PutUint64 x = PutUint64 y"
  then have "2 ^ 64 dvd x - y" using PutUint64_mod [OF h] by (simp add: mod_eq_dvd_iff)
  moreover have "\<bar>x - y\<bar> < 2 ^ 64" using r by auto
  ultimately show "x = y" using zdvd_imp_le [of "2 ^ 64" "\<bar>x - y\<bar>"] by fastforce
qed simp

lemma PutUint16_inj: "m < 2 ^ 16 \<Longrightarrow> n < 2 ^ 16 \<Longrightarrow> PutUint16 (int m) = PutUint16 (int n) \<longleftrightarrow> m = n"
proof
  assume r: "m < 2 ^ 16" "n < 2 ^ 16" and h: "PutUint16 (int m) = PutUint16 (int n)"
  have "int m mod 256 ^ 2 = int n mod 256 ^ 2"
  proof (rule bytes_digits)
    fix k :: nat assume "k < 2"
    then have "k \<in> set [1, 0]" by auto
    then show "(word_of_int (int m div 256 ^ k) :: byte) = word_of_int (int n div 256 ^ k)"
      using h by (auto simp: PutUint16_def)
  qed
  then show "m = n" using r by simp
qed simp

lemma length_PutUint64 [simp]: "length (PutUint64 x) = 8"
  by (simp add: PutUint64_def)

lemma length_PutUint16 [simp]: "length (PutUint16 x) = 2"
  by (simp add: PutUint16_def)

lemma stringBytes_inj [simp]: "stringBytes s = stringBytes s' \<longleftrightarrow> s = s'"
proof -
  have "c = d" if "(of_char c :: byte) = of_char d" for c d
  proof -
    have "of_nat (of_char c) = (of_nat (of_char d) :: byte)" using that by (simp only: of_nat_of_char)
    then have "(of_char c :: nat) = of_char d"
      by (simp add: word_of_nat_eq_iff take_bit_eq_mod)
    then show ?thesis by simp
  qed
  then have "inj (of_char :: char \<Rightarrow> byte)" by (rule injI)
  then show ?thesis unfolding stringBytes_def by (rule inj_map_eq_map)
qed

lemma length_stringBytes [simp]: "length (stringBytes s) = length s"
  by (simp add: stringBytes_def)

section \<open>One pass over the chain\<close>

text \<open>The reference: walk the whole chain at once.\<close>

definition verifyAll :: "crypto \<Rightarrow> bytes \<Rightarrow> bytes \<Rightarrow> int \<Rightarrow> audit_entry list \<Rightarrow> verify_result" where
  "verifyAll cr key prev n rows =
     (case verifyRows cr key prev n rows of
        Inl r \<Rightarrow> r
      | Inr (_, m) \<Rightarrow> \<lparr>vr_OK = True, vr_VerifiedThrough = m - 1, vr_FailSeq = 0, vr_Reason = []\<rparr>)"

text \<open>The primary key of \<open>mxid_audit_entry\<close>.\<close>

definition entry_pk :: "audit_entry list \<Rightarrow> bool" where
  "entry_pk es \<longleftrightarrow> distinct (map (\<lambda>e. (en_TenantID e, en_ChainClass e, en_Seq e)) es)"

text \<open>What a clean walk means: consecutive numbers, each row carrying the hash before it and its own.\<close>

fun linked :: "crypto \<Rightarrow> bytes \<Rightarrow> bytes \<Rightarrow> int \<Rightarrow> audit_entry list \<Rightarrow> bool" where
  "linked cr key prev n [] = True"
| "linked cr key prev n (e # es) \<longleftrightarrow> en_Seq e = n \<and> en_PrevHash e = prev \<and>
     en_EntryHash e = ComputeEntryHash cr key n prev (en_Payload e) \<and> linked cr key (en_EntryHash e) (n + 1) es"

definition lastHash :: "bytes \<Rightarrow> audit_entry list \<Rightarrow> bytes" where
  "lastHash prev es = (if es = [] then prev else en_EntryHash (last es))"

lemma lastHash_simps [simp]: "lastHash prev [] = prev" "lastHash prev (e # es) = lastHash (en_EntryHash e) es"
  by (simp_all add: lastHash_def)

lemma lastHash_append [simp]: "lastHash prev (xs @ ys) = lastHash (lastHash prev xs) ys"
  by (induction xs arbitrary: prev) simp_all

lemma verifyRows_append:
  "verifyRows cr key prev n (xs @ ys) =
     (case verifyRows cr key prev n xs of Inl r \<Rightarrow> Inl r | Inr (p, m) \<Rightarrow> verifyRows cr key p m ys)"
  by (induction cr key prev n xs rule: verifyRows.induct) simp_all

lemma verifyRows_linked:
  "verifyRows cr key prev n es = Inr r \<longleftrightarrow>
     linked cr key prev n es \<and> r = (lastHash prev es, n + int (length es))"
  by (induction cr key prev n es rule: verifyRows.induct) (auto simp: eq_commute)

lemma verifyRows_fails: "verifyRows cr key prev n es = Inl r \<Longrightarrow> \<not> vr_OK r"
  by (induction cr key prev n es rule: verifyRows.induct) (auto split: if_splits)

lemma verifyAll_ok:
  "vr_OK (verifyAll cr key prev n es) \<longleftrightarrow> linked cr key prev n es"
proof (cases "verifyRows cr key prev n es")
  case (Inl r)
  then have "\<not> linked cr key prev n es"
    using verifyRows_linked [of cr key prev n es "(lastHash prev es, n + int (length es))"] by simp
  then show ?thesis using verifyRows_fails [OF Inl] Inl by (simp add: verifyAll_def)
next
  case (Inr r)
  then have "linked cr key prev n es" by (simp add: verifyRows_linked)
  then show ?thesis using Inr by (simp add: verifyAll_def split: prod.split)
qed

lemma verifyAll_through:
  "linked cr key prev n es \<Longrightarrow>
     verifyAll cr key prev n es = \<lparr>vr_OK = True, vr_VerifiedThrough = n + int (length es) - 1, vr_FailSeq = 0, vr_Reason = []\<rparr>"
  using verifyRows_linked [of cr key prev n es "(lastHash prev es, n + int (length es))"] by (simp add: verifyAll_def)

lemma linked_append:
  "linked cr key prev n (xs @ ys) \<longleftrightarrow>
     linked cr key prev n xs \<and> linked cr key (lastHash prev xs) (n + int (length xs)) ys"
  by (induction cr key prev n xs rule: linked.induct) (auto simp: algebra_simps)

lemma linked_seq: "linked cr key prev n es \<Longrightarrow> i < length es \<Longrightarrow> en_Seq (es ! i) = n + int i"
proof (induction es arbitrary: prev n i)
  case (Cons e es)
  then show ?case by (cases i) (fastforce simp: algebra_simps)+
qed simp

section \<open>Batches\<close>

lemma after_last:
  assumes "sorted_wrt (\<lambda>x y. f x < (f y :: int)) xs" and "take n xs \<noteq> []"
  shows "filter (\<lambda>x. f (last (take n xs)) < f x) xs = drop n xs"
proof -
  let ?a = "take n xs" and ?b = "drop n xs"
  have xs: "xs = ?a @ ?b" by simp
  have sa: "sorted_wrt (\<lambda>x y. f x < f y) ?a" and ab: "\<forall>x \<in> set ?a. \<forall>y \<in> set ?b. f x < f y"
    using assms(1) by (metis sorted_wrt_append xs)+
  have "\<not> f (last ?a) < f x" if "x \<in> set ?a" for x
  proof -
    obtain a where a: "?a = a @ [last ?a]" using assms(2) by (metis append_butlast_last_id)
    then have "\<forall>x \<in> set a. f x < f (last ?a)" using sa by (metis list.set_intros(1) sorted_wrt_append)
    then show ?thesis using that a by (metis Un_iff empty_iff insert_iff less_asym less_irrefl list.set(1) list.simps(15) set_append)
  qed
  then have "filter (\<lambda>x. f (last ?a) < f x) ?a = []" by (simp add: filter_empty_conv)
  moreover have "filter (\<lambda>x. f (last ?a) < f x) ?b = ?b"
    using ab assms(2) by (simp add: filter_id_conv)
  ultimately show ?thesis by (metis append_Nil filter_append xs)
qed

lemma chainRows_strict:
  assumes "entry_pk es" shows "sorted_wrt (\<lambda>x y. en_Seq x < en_Seq y) (chainRows t c cur es)"
proof -
  let ?f = "filter (\<lambda>e. en_TenantID e = t \<and> en_ChainClass e = c \<and> cur < en_Seq e) es"
  have "inj_on (\<lambda>e. (en_TenantID e, en_ChainClass e, en_Seq e)) (set es)" "distinct es"
    using assms by (auto simp: entry_pk_def distinct_map)
  then have "distinct (map en_Seq ?f)" by (auto simp: distinct_map inj_on_def)
  then have "distinct (map en_Seq (sort_key en_Seq ?f))" by (simp add: distinct_map)
  moreover have "sorted (map en_Seq (sort_key en_Seq ?f))" by simp
  ultimately have "sorted_wrt (<) (map en_Seq (sort_key en_Seq ?f))" by (simp add: strict_sorted_iff)
  then show ?thesis by (simp add: chainRows_def sorted_wrt_map)
qed

lemma chainRows_after:
  assumes "entry_pk es" and "take n (chainRows t c cur es) \<noteq> []"
  shows "chainRows t c (en_Seq (last (take n (chainRows t c cur es)))) es = drop n (chainRows t c cur es)"
proof -
  let ?l = "last (take n (chainRows t c cur es))"
  have "?l \<in> set (chainRows t c cur es)" using assms(2) by (meson in_set_takeD last_in_set)
  then have "cur < en_Seq ?l" by (simp add: chainRows_def)
  then have "chainRows t c (en_Seq ?l) es = filter (\<lambda>e. en_Seq ?l < en_Seq e) (chainRows t c cur es)"
    unfolding chainRows_def filter_sort filter_filter
    by (intro arg_cong [where f = "sort_key en_Seq"] filter_cong) auto
  also have "\<dots> = drop n (chainRows t c cur es)"
    by (rule after_last [OF chainRows_strict [OF assms(1)] assms(2)])
  finally show ?thesis .
qed

lemma verifyLoop_all:
  assumes "entry_pk es"
  shows "verifyLoop cr (\<lambda>_. False) key t c es prev n cur = Inr (verifyAll cr key prev n (chainRows t c cur es))"
proof (induction "length (chainRows t c cur es)" arbitrary: prev n cur rule: less_induct)
  case less
  let ?r = "chainRows t c cur es"
  let ?b = "take verifyBatchSize ?r"
  show ?case
  proof (cases "?b = []")
    case True
    then have "?r = []" by (simp add: verifyBatchSize_def)
    then show ?thesis by (subst verifyLoop.simps) (simp add: verifyAll_def)
  next
    case False
    have rest: "chainRows t c (en_Seq (last ?b)) es = drop verifyBatchSize ?r" by (rule chainRows_after [OF assms False])
    have split: "verifyRows cr key prev n ?r =
        (case verifyRows cr key prev n ?b of Inl r \<Rightarrow> Inl r | Inr (p, m) \<Rightarrow> verifyRows cr key p m (drop verifyBatchSize ?r))"
      using verifyRows_append [of cr key prev n ?b "drop verifyBatchSize ?r"] by simp
    have IH: "verifyLoop cr (\<lambda>_. False) key t c es p m (en_Seq (last ?b)) =
        Inr (verifyAll cr key p m (drop verifyBatchSize ?r))" for p m
      using less [OF chainRows_shrinks [OF False]] rest by simp
    show ?thesis
    proof (cases "verifyRows cr key prev n ?b")
      case (Inl r)
      with False split show ?thesis by (subst verifyLoop.simps) (simp add: verifyAll_def Let_def)
    next
      case (Inr pm)
      with False split IH show ?thesis
        by (subst verifyLoop.simps) (simp add: verifyAll_def Let_def split: prod.split)
    qed
  qed
qed

lemma VerifyChainFrom_all:
  assumes "entry_pk es" and "1 \<le> cp_Seq cp"
  shows "VerifyChainFrom cr (\<lambda>_. False) key t c cp es =
    Inr (verifyAll cr key (cp_PrevHash cp) (cp_Seq cp) (chainRows t c (cp_Seq cp - 1) es))"
  using assms by (simp add: VerifyChainFrom_def verifyLoop_all Let_def)

section \<open>The last hash fixes the chain\<close>

definition entry_content :: "audit_entry \<Rightarrow> int \<times> bytes \<times> bytes \<times> bytes" where
  "entry_content e = (en_Seq e, en_PrevHash e, en_Payload e, en_EntryHash e)"

lemma linked_hash_length:
  "crypto_laws cr \<Longrightarrow> linked cr key prev n es \<Longrightarrow> es \<noteq> [] \<Longrightarrow> length (lastHash prev es) = 32"
  by (induction cr key prev n es rule: linked.induct)
    (auto simp: lastHash_def crypto_laws_def ComputeEntryHash_def Let_def)

lemma linked_binding:
  assumes laws: "crypto_laws cr"
  shows "linked cr key prev n xs \<Longrightarrow> linked cr key prev n ys \<Longrightarrow> length xs = length ys \<Longrightarrow>
    lastHash prev xs = lastHash prev ys \<Longrightarrow>
    map entry_content xs = map entry_content ys \<or> (\<exists>a b. a \<noteq> b \<and> cr_hmac cr key a = cr_hmac cr key b)"
proof (induction xs arbitrary: ys rule: rev_induct)
  case Nil
  then show ?case by simp
next
  case (snoc x xs)
  obtain ys' y where ys: "ys = ys' @ [y]" using snoc.prems(3) by (cases ys rule: rev_cases) auto
  have len: "length xs = length ys'" using snoc.prems(3) ys by simp
  let ?m = "n + int (length xs)"
  let ?a = "PutUint64 ?m @ lastHash prev xs @ en_Payload x" and ?b = "PutUint64 ?m @ lastHash prev ys' @ en_Payload y"
  have x: "linked cr key prev n xs" "en_Seq x = ?m" "en_PrevHash x = lastHash prev xs" "en_EntryHash x = cr_hmac cr key ?a"
    using snoc.prems(1) by (auto simp: linked_append ComputeEntryHash_def Let_def)
  have y: "linked cr key prev n ys'" "en_Seq y = ?m" "en_PrevHash y = lastHash prev ys'" "en_EntryHash y = cr_hmac cr key ?b"
    using snoc.prems(2) ys len by (auto simp: linked_append ComputeEntryHash_def Let_def)
  have h: "cr_hmac cr key ?a = cr_hmac cr key ?b" using snoc.prems(4) ys x(4) y(4) by simp
  show ?case
  proof (cases "?a = ?b")
    case True
    have "length (lastHash prev xs) = length (lastHash prev ys')"
      using linked_hash_length [OF laws x(1)] linked_hash_length [OF laws y(1)] len
      by (cases "xs = []"; cases "ys' = []") simp_all
    then have eq: "lastHash prev xs = lastHash prev ys'" "en_Payload x = en_Payload y" using True by simp_all
    then have "map entry_content xs = map entry_content ys' \<or> (\<exists>a b. a \<noteq> b \<and> cr_hmac cr key a = cr_hmac cr key b)"
      using snoc.IH [OF x(1) y(1) len] by simp
    moreover have "entry_content x = entry_content y" using x y eq by (simp add: entry_content_def)
    ultimately show ?thesis using ys by simp
  next
    case False
    then show ?thesis using h by blast
  qed
qed

lemma linked_take: "linked cr key prev n es \<Longrightarrow> linked cr key prev n (take k es)"
  using linked_append [of cr key prev n "take k es" "drop k es"] by simp

lemma lastHash_take: "i < length es \<Longrightarrow> lastHash prev (take (Suc i) es) = en_EntryHash (es ! i)"
  by (simp add: lastHash_def take_Suc_conv_app_nth)

lemma linked_row:
  assumes "linked cr key prev n rows" and "e \<in> set rows"
  shows "\<exists>i < length rows. e = rows ! i \<and> en_Seq e = n + int i"
  using assms linked_seq by (metis in_set_conv_nth)

lemma chainRows_member:
  "e \<in> set (chainRows t c cur es) \<longleftrightarrow> e \<in> set es \<and> en_TenantID e = t \<and> en_ChainClass e = c \<and> cur < en_Seq e"
  by (auto simp: chainRows_def)

section \<open>Properties of the verification\<close>

text \<open>C29: Reading the ledger in batches changes nothing: on a table with its primary key, a verification
  whose queries succeed terminates with the result of one pass over the rows of the chain after the
  checkpoint, and the result is clean exactly when these rows are numbered without a gap from the
  checkpoint on and each carries the hash of the row before it and the keyed hash of its own content.\<close>

theorem VerifyChainFrom_single_pass:
  assumes "entry_pk es" and "1 \<le> cp_Seq cp"
  shows "let rows = chainRows t c (cp_Seq cp - 1) es in
    VerifyChainFrom cr (\<lambda>_. False) key t c cp es = Inr (verifyAll cr key (cp_PrevHash cp) (cp_Seq cp) rows) \<and>
    (vr_OK (verifyAll cr key (cp_PrevHash cp) (cp_Seq cp) rows) \<longleftrightarrow> linked cr key (cp_PrevHash cp) (cp_Seq cp) rows)"
  using VerifyChainFrom_all [OF assms] verifyAll_ok by (simp add: Let_def)


section \<open>The chainer\<close>

text \<open>One chain of the ledger: \<open>hist\<close> is everything that was ever chained, of which the first \<open>p\<close> rows may
  have been pruned; the head row is its tip.\<close>

definition chain_ok :: "crypto \<Rightarrow> bytes \<Rightarrow> 'a chain_db_scheme \<Rightarrow> id \<Rightarrow> string \<Rightarrow> audit_entry list \<Rightarrow> nat \<Rightarrow> bool" where
  "chain_ok cr key db t c hist p \<longleftrightarrow>
     linked cr key GenesisPrevHash 1 hist \<and> p \<le> length hist \<and>
     filter (\<lambda>e. en_TenantID e = t \<and> en_ChainClass e = c) (db_entries db) = drop p hist \<and>
     (case headOf t c (db_heads db) of
        None \<Rightarrow> hist = []
      | Some h \<Rightarrow> hist \<noteq> [] \<and> hd_LastSeq h = int (length hist) \<and> hd_LastEntryHash h = lastHash GenesisPrevHash hist)"

definition ledger_ok ::
  "crypto \<Rightarrow> bytes \<Rightarrow> 'a chain_db_scheme \<Rightarrow> (id \<times> string \<Rightarrow> audit_entry list) \<Rightarrow> (id \<times> string \<Rightarrow> nat) \<Rightarrow> bool" where
  "ledger_ok cr key db H P \<longleftrightarrow> (\<forall>t c. chain_ok cr key db t c (H (t, c)) (P (t, c)))"

text \<open>Room for \<open>n\<close> more entries in the 64-bit sequence numbers of every chain.\<close>

definition seq_room :: "'a chain_db_scheme \<Rightarrow> nat \<Rightarrow> bool" where
  "seq_room db n \<longleftrightarrow> int n < 2 ^ 63 \<and> (\<forall>h \<in> set (db_heads db). hd_LastSeq h + int n < 2 ^ 63)"

lemma headOf_key: "headOf t c hs = Some h \<Longrightarrow> h \<in> set hs \<and> hd_TenantID h = t \<and> hd_ChainClass h = c"
  by (auto simp: headOf_def find_Some_iff)

lemma headOf_append: "headOf t c (hs @ [h]) =
  (case headOf t c hs of Some x \<Rightarrow> Some x | None \<Rightarrow> if hd_TenantID h = t \<and> hd_ChainClass h = c then Some h else None)"
  by (induction hs) (auto simp: headOf_def)

lemma headOf_map:
  assumes "\<And>h. hd_TenantID (f h) = hd_TenantID h \<and> hd_ChainClass (f h) = hd_ChainClass h"
  shows "headOf t c (map f hs) = map_option f (headOf t c hs)"
  using assms by (induction hs) (auto simp: headOf_def)

lemma headOf_upsert:
  "\<exists>x. headOf (hd_TenantID h) (hd_ChainClass h) (upsertHead h hs) = Some x \<and>
     hd_LastSeq x = hd_LastSeq h \<and> hd_LastEntryHash x = hd_LastEntryHash h"
proof (cases "headOf (hd_TenantID h) (hd_ChainClass h) hs")
  case None
  then show ?thesis by (simp add: upsertHead_def headOf_append)
next
  case (Some x)
  let ?f = "\<lambda>r. if hd_TenantID r = hd_TenantID h \<and> hd_ChainClass r = hd_ChainClass h
                    then r\<lparr>hd_LastSeq := hd_LastSeq h, hd_LastEntryHash := hd_LastEntryHash h,
                           hd_UpdatedAt := hd_UpdatedAt h\<rparr> else r"
  have "headOf (hd_TenantID h) (hd_ChainClass h) (map ?f hs) = Some (?f x)"
    using headOf_map [of ?f "hd_TenantID h" "hd_ChainClass h" hs] Some by simp
  then show ?thesis using headOf_key [OF Some] Some by (simp add: upsertHead_def)
qed

lemma headOf_upsert_other:
  assumes "(hd_TenantID h, hd_ChainClass h) \<noteq> (t, c)"
  shows "headOf t c (upsertHead h hs) = headOf t c hs"
proof -
  let ?f = "\<lambda>r. if hd_TenantID r = hd_TenantID h \<and> hd_ChainClass r = hd_ChainClass h
                    then r\<lparr>hd_LastSeq := hd_LastSeq h, hd_LastEntryHash := hd_LastEntryHash h,
                           hd_UpdatedAt := hd_UpdatedAt h\<rparr> else r"
  have "headOf t c (map ?f hs) = map_option ?f (headOf t c hs)" by (rule headOf_map) simp
  moreover have "map_option ?f (headOf t c hs) = headOf t c hs"
    using assms headOf_key by (cases "headOf t c hs") auto
  ultimately show ?thesis using assms
    by (auto simp: upsertHead_def headOf_append split: option.split)
qed

lemma upsertHead_seqs: "r \<in> set (upsertHead h hs) \<Longrightarrow> r \<in> set hs \<or> hd_LastSeq r = hd_LastSeq h"
  by (auto simp: upsertHead_def split: if_splits)

lemma loadHead_ok:
  assumes "chain_ok cr key db t c hist p"
  shows "hd_TenantID (loadHead t c (db_heads db)) = t \<and> hd_ChainClass (loadHead t c (db_heads db)) = c \<and>
    hd_LastSeq (loadHead t c (db_heads db)) = int (length hist) \<and>
    hd_LastEntryHash (loadHead t c (db_heads db)) = lastHash GenesisPrevHash hist"
  using assms headOf_key by (fastforce simp: chain_ok_def loadHead_def Let_def split: option.splits)

lemma chainOne_Inr:
  assumes ok: "chainOne cr marshal flt key keyID now q db = Inr db'"
    and inv: "chain_ok cr key db (pe_TenantID q) (pe_ChainClass q) hist p" and room: "seq_room db (Suc n)"
  shows "\<exists>e h. en_TenantID e = pe_TenantID q \<and> en_ChainClass e = pe_ChainClass q \<and>
    en_Seq e = int (length hist) + 1 \<and> en_PrevHash e = lastHash GenesisPrevHash hist \<and>
    en_EntryHash e = ComputeEntryHash cr key (en_Seq e) (lastHash GenesisPrevHash hist) (en_Payload e) \<and>
    hd_TenantID h = pe_TenantID q \<and> hd_ChainClass h = pe_ChainClass q \<and> hd_LastSeq h = int (length hist) + 1 \<and>
    hd_LastEntryHash h = en_EntryHash e \<and>
    db' = db\<lparr>db_entries := db_entries db @ [e], db_heads := upsertHead h (db_heads db)\<rparr> \<and> int (length hist) + 1 + int n < 2 ^ 63"
proof -
  let ?h = "loadHead (pe_TenantID q) (pe_ChainClass q) (db_heads db)"
  note lh = loadHead_ok [OF inv]
  have fit: "int (length hist) + 1 + int n < 2 ^ 63"
  proof (cases "headOf (pe_TenantID q) (pe_ChainClass q) (db_heads db)")
    case None
    then show ?thesis using inv room by (simp add: chain_ok_def seq_room_def)
  next
    case (Some h)
    then show ?thesis using inv room headOf_key [OF Some] by (auto simp: chain_ok_def seq_room_def)
  qed
  then have w: "wrap64 (hd_LastSeq ?h + 1) = int (length hist) + 1" using lh by (simp add: wrap64_id)
  obtain canonical where "CanonicalJSON marshal (payloadOf q) = Inr canonical"
    using ok by (auto simp: chainOne_def bindE_eq_Inr Let_def split: if_splits)
  let ?x = "ComputeEntryHash cr key (int (length hist) + 1) (lastHash GenesisPrevHash hist) canonical"
  let ?e = "\<lparr>en_TenantID = pe_TenantID q, en_ChainClass = pe_ChainClass q, en_Seq = int (length hist) + 1,
     en_PrevHash = lastHash GenesisPrevHash hist, en_EntryHash = ?x, en_KeyID = keyID, en_Payload = canonical,
     en_Imported = False, en_CreatedAt = now\<rparr>"
  let ?n = "?h\<lparr>hd_LastSeq := int (length hist) + 1, hd_LastEntryHash := ?x, hd_UpdatedAt := now\<rparr>"
  have "db' = db\<lparr>db_entries := db_entries db @ [?e], db_heads := upsertHead ?n (db_heads db)\<rparr>"
    using ok lh w \<open>CanonicalJSON marshal (payloadOf q) = Inr canonical\<close>
    by (simp add: chainOne_def Let_def split: if_splits)
  then show ?thesis using lh fit by (intro exI [of _ ?e] exI [of _ ?n]) simp
qed

lemma chainOne_ledger:
  assumes ok: "chainOne cr marshal flt key keyID now q db = Inr db'" and inv: "ledger_ok cr key db H P"
    and room: "seq_room db (Suc n)"
  shows "\<exists>H'. ledger_ok cr key db' H' P \<and> seq_room db' n \<and> db_pending db' = db_pending db \<and> chain_db.more db' = chain_db.more db \<and>
    (\<forall>k. take (length (H k)) (H' k) = H k)"
proof -
  let ?t = "pe_TenantID q" and ?c = "pe_ChainClass q"
  have inv0: "chain_ok cr key db ?t ?c (H (?t, ?c)) (P (?t, ?c))" using inv by (simp add: ledger_ok_def)
  obtain e h where e: "en_TenantID e = ?t" "en_ChainClass e = ?c" "en_Seq e = int (length (H (?t, ?c))) + 1"
      "en_PrevHash e = lastHash GenesisPrevHash (H (?t, ?c))"
      "en_EntryHash e = ComputeEntryHash cr key (en_Seq e) (lastHash GenesisPrevHash (H (?t, ?c))) (en_Payload e)"
    and h: "hd_TenantID h = ?t" "hd_ChainClass h = ?c" "hd_LastSeq h = int (length (H (?t, ?c))) + 1" "hd_LastEntryHash h = en_EntryHash e"
    and db': "db' = db\<lparr>db_entries := db_entries db @ [e], db_heads := upsertHead h (db_heads db)\<rparr>"
    and fit: "int (length (H (?t, ?c))) + 1 + int n < 2 ^ 63"
    using chainOne_Inr [OF ok inv0 room] by blast
  let ?H = "H((?t, ?c) := H (?t, ?c) @ [e])"
  have "chain_ok cr key db' t c (?H (t, c)) (P (t, c))" for t c
  proof (cases "(t, c) = (?t, ?c)")
    case True
    obtain x where "headOf ?t ?c (upsertHead h (db_heads db)) = Some x" "hd_LastSeq x = hd_LastSeq h"
        "hd_LastEntryHash x = hd_LastEntryHash h" using headOf_upsert [of h "db_heads db"] h by auto
    then show ?thesis using True inv0 e h
      by (auto simp: chain_ok_def db' linked_append add.commute)
  next
    case False
    then have "headOf t c (upsertHead h (db_heads db)) = headOf t c (db_heads db)"
      by (intro headOf_upsert_other) (use h in auto)
    moreover have "chain_ok cr key db t c (H (t, c)) (P (t, c))" using inv by (simp add: ledger_ok_def)
    ultimately show ?thesis using False e by (auto simp: chain_ok_def db')
  qed
  then have "ledger_ok cr key db' ?H P" by (simp add: ledger_ok_def)
  moreover have "seq_room db' n"
    using room fit h(3) upsertHead_seqs [of _ h "db_heads db"] by (fastforce simp: seq_room_def db')
  ultimately show ?thesis by (intro exI [of _ ?H]) (simp add: db')
qed

lemma ledger_pending [simp]: "ledger_ok cr key (db\<lparr>db_pending := q\<rparr>) H P = ledger_ok cr key db H P"
  by (simp add: ledger_ok_def chain_ok_def)

lemma seq_room_pending [simp]: "seq_room (db\<lparr>db_pending := q\<rparr>) n = seq_room db n"
  by (simp add: seq_room_def)

lemma chainLoop_ledger:
  assumes "chainLoop cr marshal flt key keyID now ps n db = Inr (m, db')" and "ledger_ok cr key db H P"
    and "seq_room db (length ps)"
  shows "\<exists>H'. ledger_ok cr key db' H' P \<and> chain_db.more db' = chain_db.more db \<and> (\<forall>k. take (length (H k)) (H' k) = H k)"
  using assms
proof (induction ps arbitrary: n db H)
  case Nil
  then show ?case by (intro exI [of _ H]) simp
next
  case (Cons q ps)
  obtain db1 where one: "chainOne cr marshal (flt (pe_ID q)) key keyID now q db = Inr db1"
    and loop: "chainLoop cr marshal flt key keyID now ps (Suc n)
       (db1\<lparr>db_pending := filter (\<lambda>x. pe_ID x \<noteq> pe_ID q) (db_pending db1)\<rparr>) = Inr (m, db')"
    using Cons.prems(1) by (auto simp: bindE_eq_Inr split: if_splits)
  obtain H1 where H1: "ledger_ok cr key db1 H1 P" "seq_room db1 (length ps)" "chain_db.more db1 = chain_db.more db"
      "\<forall>k. take (length (H k)) (H1 k) = H k"
    using chainOne_ledger [OF one Cons.prems(2), of "length ps"] Cons.prems(3) by auto
  obtain H2 where H2: "ledger_ok cr key db' H2 P" "chain_db.more db' = chain_db.more db1"
      "\<forall>k. take (length (H1 k)) (H2 k) = H1 k"
    using Cons.IH [OF loop, of H1] H1 by auto
  have "take (length (H k)) (H2 k) = H k" for k
  proof -
    have "length (H k) \<le> length (H1 k)" using H1(4) by (metis length_take min.cobounded1)
    then have "take (length (H k)) (H2 k) = take (length (H k)) (take (length (H1 k)) (H2 k))" by (simp add: min_def)
    then show ?thesis using H1(4) H2(3) by simp
  qed
  then show ?case using H1 H2 by auto
qed

lemma ProcessBatch_ledger:
  assumes "ledger_ok cr key db H P" and "seq_room db (length (db_pending db))"
    and "ProcessBatch cr marshal rowflt flt key keyID now limit db = (r, db')"
  shows "\<exists>H'. ledger_ok cr key db' H' P \<and> chain_db.more db' = chain_db.more db \<and> (\<forall>k. take (length (H k)) (H' k) = H k)"
proof -
  let ?ps = "take limit (sort_key pe_ID (db_pending db))"
  have room: "seq_room db (length ?ps)" using assms(2) by (auto simp: seq_room_def)
  show ?thesis
  proof (cases "db' = db")
    case True
    then show ?thesis using assms(1) by (intro exI [of _ H]) simp
  next
    case False
    then obtain m where "chainLoop cr marshal rowflt key keyID now ?ps 0 db = Inr (m, db')"
      using assms(3) by (auto simp: ProcessBatch_def split: if_splits sum.splits)
    then show ?thesis using chainLoop_ledger [OF _ assms(1) room] by blast
  qed
qed

section \<open>An example\<close>

definition demo_crypto :: crypto where
  "demo_crypto = \<lparr>cr_hmac = \<lambda>k x. take 32 (rev x @ replicate 32 0), cr_sha256 = \<lambda>x. take 32 (rev x @ replicate 32 0),
     cr_public = \<lambda>k. k, cr_sign = \<lambda>k m. k @ m, cr_verify = \<lambda>p m s. s = p @ m\<rparr>"

lemma demo_crypto_laws: "crypto_laws demo_crypto"
  by (auto simp: crypto_laws_def demo_crypto_def min_def)

definition demo_marshal :: marshaler where
  "demo_marshal p = Some (stringBytes (pl_EventType p))"

definition demo_pending :: "id \<Rightarrow> string \<Rightarrow> audit_pending" where
  "demo_pending i ev = \<lparr>pe_ID = i, pe_TenantID = 1, pe_ChainClass = ''data'', pe_ActorID = 7, pe_ActorType = ''user'',
     pe_EventType = ev, pe_ResourceType = ''app'', pe_ResourceID = 9, pe_Before = None, pe_After = None,
     pe_IP = [], pe_UserAgent = [], pe_SessionID = [], pe_Detail = None, pe_OccurredAt = 0, pe_ActorName = None,
     pe_ResourceName = None, pe_GeoCity = None, pe_GeoCountry = None\<rparr>"

definition demo_ledger :: chain_db where
  "demo_ledger = snd (ProcessBatch demo_crypto demo_marshal (\<lambda>_ _. False) (\<lambda>_. False) [1] ''k'' 0 100
     \<lparr>db_pending = [demo_pending 2 ''b'', demo_pending 1 ''a''], db_entries = [], db_heads = []\<rparr>)"

lemma demo_ledger_pk: "entry_pk (db_entries demo_ledger)"
  by code_simp

lemma demo_ledger_rows:
  "map (\<lambda>e. (en_Seq e, en_TenantID e, en_ChainClass e, en_Payload e)) (db_entries demo_ledger) =
     [(1, 1, ''data'', stringBytes ''a''), (2, 1, ''data'', stringBytes ''b'')]"
  by code_simp

lemma demo_ledger_entries:
  "\<exists>x y. db_entries demo_ledger = [x, y] \<and> en_Seq x = 1 \<and> en_TenantID x = 1 \<and> en_ChainClass x = ''data'' \<and>
     en_Payload x = stringBytes ''a'' \<and> en_Seq y = 2 \<and> en_TenantID y = 1 \<and> en_ChainClass y = ''data''"
  using demo_ledger_rows by (auto simp: map_eq_Cons_conv)

lemma demo_ledger_verifies:
  "VerifyChainFrom demo_crypto (\<lambda>_. False) [1] 1 ''data'' GenesisCheckpoint (db_entries demo_ledger) =
     Inr \<lparr>vr_OK = True, vr_VerifiedThrough = 2, vr_FailSeq = 0, vr_Reason = []\<rparr>"
  by code_simp

theorem VerifyChainFrom_single_pass_witness:
  "VerifyChainFrom demo_crypto (\<lambda>_. False) [1] 1 ''data'' GenesisCheckpoint (db_entries demo_ledger) =
     Inr (verifyAll demo_crypto [1] GenesisPrevHash 1 (chainRows 1 ''data'' 0 (db_entries demo_ledger))) \<and>
   vr_OK (verifyAll demo_crypto [1] GenesisPrevHash 1 (chainRows 1 ''data'' 0 (db_entries demo_ledger)))"
proof -
  have "vr_OK (verifyAll demo_crypto [1] GenesisPrevHash 1 (chainRows 1 ''data'' 0 (db_entries demo_ledger)))" by code_simp
  then show ?thesis
    using VerifyChainFrom_single_pass [OF demo_ledger_pk, of GenesisCheckpoint 1 "''data''" demo_crypto "[1]"]
    by (simp add: GenesisCheckpoint_def Let_def)
qed


end
