(* ===== verification/AuditAnchorProofs.thy ===== *)
theory AuditAnchorProofs
  imports AuditCheckpoint AuditChainProofs
begin

text \<open>
  What anchors bind: a Merkle root fixes the leaves below it up to a collision of the digest, the signed
  messages are unambiguous and of separate domains, and two ledgers that verify against the same anchors
  have the same entry hashes.
\<close>

section \<open>Merkle roots\<close>

definition collides :: "(bytes \<Rightarrow> bytes) \<Rightarrow> bool" where
  "collides h \<longleftrightarrow> (\<exists>a b. a \<noteq> b \<and> h a = h b)"

lemma hashPairs_binding:
  assumes "length xs = length ys" and "even (length xs)" and "\<forall>x \<in> set xs \<union> set ys. length x = n"
    and "hashPairs sha xs = hashPairs sha ys"
  shows "xs = ys \<or> collides sha"
  using assms
proof (induction sha xs arbitrary: ys rule: hashPairs.induct)
  case (1 sha l r level)
  then obtain l' r' level' where ys: "ys = l' # r' # level'" by (metis length_Suc_conv)
  have h: "sha (l @ r) = sha (l' @ r')" using "1.prems"(4) ys by simp
  show ?case
  proof (cases "l @ r = l' @ r'")
    case True
    then have "l = l' \<and> r = r'" using "1.prems"(3) ys by simp
    moreover have "level = level' \<or> collides sha" using "1.IH" [of level'] "1.prems" ys by simp
    ultimately show ?thesis using ys by auto
  next
    case False
    then show ?thesis using h by (auto simp: collides_def)
  qed
qed auto

lemma merkleLevel_binding:
  assumes "length xs = length ys" and "xs \<noteq> []" and "\<forall>x \<in> set xs \<union> set ys. length x = n"
    and "merkleLevel sha xs = merkleLevel sha ys"
  shows "xs = ys \<or> collides sha"
proof (cases "length xs mod 2 = 1")
  case True
  have "last xs \<in> set xs" "last ys \<in> set ys" using assms(1,2) by (auto intro!: last_in_set)
  then have "xs @ [last xs] = ys @ [last ys] \<or> collides sha"
    using assms True by (intro hashPairs_binding [of _ _ n]) (auto simp: merkleLevel_def)
  then show ?thesis by auto
next
  case False
  then have "even (length xs)" by presburger
  then show ?thesis using assms False by (intro hashPairs_binding [of _ _ n]) (auto simp: merkleLevel_def)
qed

lemma hashPairs_hashes: "x \<in> set (hashPairs sha xs) \<Longrightarrow> \<exists>y. x = sha y"
  by (induction sha xs rule: hashPairs.induct) auto

lemma merkleLoop_binding:
  assumes len: "\<And>x. length (sha x) = n"
  shows "length xs = length ys \<Longrightarrow> xs \<noteq> [] \<Longrightarrow> \<forall>x \<in> set xs \<union> set ys. length x = n \<Longrightarrow>
    merkleLoop sha xs = merkleLoop sha ys \<Longrightarrow> xs = ys \<or> collides sha"
proof (induction "length xs" arbitrary: xs ys rule: less_induct)
  case less
  show ?case
  proof (cases "1 < length xs")
    case True
    let ?x = "merkleLevel sha xs" and ?y = "merkleLevel sha ys"
    have eq: "merkleLoop sha ?x = merkleLoop sha ?y"
      using less.prems(4) True less.prems(1) merkleLoop.simps [of sha xs] merkleLoop.simps [of sha ys] by simp
    have l: "length ?x = length ?y" "length ?x < length xs" using True less.prems(1) by (auto simp: length_merkleLevel)
    have "0 < length ?x" using True by (simp add: length_merkleLevel)
    then have ne: "?x \<noteq> []" by auto
    have "\<forall>x \<in> set ?x \<union> set ?y. length x = n"
      using len by (auto simp: merkleLevel_def dest!: hashPairs_hashes split: if_splits)
    then have "?x = ?y \<or> collides sha" by (rule less.hyps [OF l(2) l(1) ne _ eq])
    then show ?thesis using merkleLevel_binding [OF less.prems(1,2,3)] by blast
  next
    case False
    then obtain x where x: "xs = [x]" using less.prems(2) by (cases xs) auto
    then obtain y where y: "ys = [y]" using less.prems(1) by (cases ys) auto
    show ?thesis using less.prems(4) x y by (simp add: merkleLoop.simps)
  qed
qed

lemma MerkleRoot_binding:
  assumes "crypto_laws cr" and "length xs = length ys" and "\<forall>x \<in> set xs \<union> set ys. length x = 32"
    and "MerkleRoot (cr_sha256 cr) xs = MerkleRoot (cr_sha256 cr) ys"
  shows "xs = ys \<or> collides (cr_sha256 cr)"
proof (cases "xs = []")
  case False
  moreover have "\<And>x. length (cr_sha256 cr x) = 32" using assms(1) by (simp add: crypto_laws_def)
  moreover have "ys \<noteq> []" using False assms(2) by auto
  ultimately show ?thesis using merkleLoop_binding [of "cr_sha256 cr" 32 xs ys] assms(2-4) by (simp add: MerkleRoot_def)
qed (use assms(2) in simp)

section \<open>Signed messages\<close>

lemma domains: "anchorSigDomain \<noteq> anchorSigDomainV2" "length anchorSigDomain = 20" "length anchorSigDomainV2 = 20"
  "take 20 checkpointSigDomain \<noteq> anchorSigDomain" "take 20 checkpointSigDomain \<noteq> anchorSigDomainV2" "length checkpointSigDomain = 24"
  by (simp_all add: anchorSigDomain_def anchorSigDomainV2_def checkpointSigDomain_def)

lemma take_stringBytes: "take n (stringBytes s) = stringBytes (take n s)"
  by (simp add: stringBytes_def take_map)

lemma message_domain:
  "take 20 (AnchorSigMessage t c f o' r) = stringBytes anchorSigDomain"
  "take 20 (AnchorSigMessageV2 t c f o' p r) = stringBytes anchorSigDomainV2"
  "take 20 (CheckpointSigMessage t c s h) = stringBytes (take 20 checkpointSigDomain)"
  by (simp_all add: AnchorSigMessage_def AnchorSigMessageV2_def CheckpointSigMessage_def domains take_stringBytes)

lemma class_field:
  assumes "length c < 2 ^ 16" and "length c' < 2 ^ 16"
    and "PutUint16 (int (length c)) @ stringBytes c @ x = PutUint16 (int (length c')) @ stringBytes c' @ x'"
  shows "c = c' \<and> x = x'"
proof -
  have "PutUint16 (int (length c)) = PutUint16 (int (length c'))" and r: "stringBytes c @ x = stringBytes c' @ x'"
    using assms(3) by (auto simp: append_eq_append_conv)
  then have "length c = length c'" using PutUint16_inj [OF assms(1,2)] by simp
  then show ?thesis using r by simp
qed

lemma bytes_field:
  assumes "length p < 2 ^ 16" and "length p' < 2 ^ 16"
    and "PutUint16 (int (length p)) @ p @ x = PutUint16 (int (length p')) @ p' @ x'"
  shows "p = p' \<and> x = x'"
proof -
  have "PutUint16 (int (length p)) = PutUint16 (int (length p'))" and r: "p @ x = p' @ x'"
    using assms(3) by (auto simp: append_eq_append_conv)
  then have "length p = length p'" using PutUint16_inj [OF assms(1,2)] by simp
  then show ?thesis using r by simp
qed

lemma int_field: "int64 x \<Longrightarrow> int64 y \<Longrightarrow> PutUint64 x @ r = PutUint64 y @ r' \<Longrightarrow> x = y \<and> r = r'"
  using PutUint64_inj by (simp add: append_eq_append_conv)

lemma AnchorSigMessage_inj:
  assumes "AnchorSigMessage t c f o' r = AnchorSigMessage t2 c2 f2 o2 r2"
    and "int64 t" "int64 t2" "int64 f" "int64 f2" "int64 o'" "int64 o2" "length c < 2 ^ 16" "length c2 < 2 ^ 16"
  shows "t = t2 \<and> c = c2 \<and> f = f2 \<and> o' = o2 \<and> r = r2"
  using assms int_field class_field unfolding AnchorSigMessage_def by (metis same_append_eq)

lemma AnchorSigMessageV2_inj:
  assumes "AnchorSigMessageV2 t c f o' p r = AnchorSigMessageV2 t2 c2 f2 o2 p2 r2"
    and "int64 t" "int64 t2" "int64 f" "int64 f2" "int64 o'" "int64 o2" "length c < 2 ^ 16" "length c2 < 2 ^ 16"
    and "length p < 2 ^ 16" "length p2 < 2 ^ 16"
  shows "t = t2 \<and> c = c2 \<and> f = f2 \<and> o' = o2 \<and> p = p2 \<and> r = r2"
  using assms int_field class_field bytes_field unfolding AnchorSigMessageV2_def by (metis same_append_eq)

lemma CheckpointSigMessage_inj:
  assumes "CheckpointSigMessage t c s h = CheckpointSigMessage t2 c2 s2 h2"
    and "int64 t" "int64 t2" "int64 s" "int64 s2" "length c < 2 ^ 16" "length c2 < 2 ^ 16"
  shows "t = t2 \<and> c = c2 \<and> s = s2 \<and> h = h2"
  using assms int_field class_field unfolding CheckpointSigMessage_def by (metis same_append_eq)

lemma messages_separate:
  "AnchorSigMessage t c f o' r \<noteq> AnchorSigMessageV2 t2 c2 f2 o2 p2 r2"
  "CheckpointSigMessage t c s h \<noteq> AnchorSigMessage t2 c2 f2 o2 r2"
  "CheckpointSigMessage t c s h \<noteq> AnchorSigMessageV2 t2 c2 f2 o2 p2 r2"
  using message_domain domains stringBytes_inj by metis+

section \<open>Reading the leaves of an anchor\<close>

lemma rangeRows_strict: "entry_pk es \<Longrightarrow> sorted_wrt (\<lambda>x y. en_Seq x < en_Seq y) (rangeRows t c cur k es)"
  unfolding rangeRows_def by (intro sorted_wrt_filter chainRows_strict)

lemma rangeRows_after:
  assumes "entry_pk es" and "take n (rangeRows t c cur k es) \<noteq> []"
  shows "rangeRows t c (en_Seq (last (take n (rangeRows t c cur k es)))) k es = drop n (rangeRows t c cur k es)"
proof -
  let ?l = "last (take n (rangeRows t c cur k es))"
  have "?l \<in> set (rangeRows t c cur k es)" using assms(2) by (meson in_set_takeD last_in_set)
  then have "cur < en_Seq ?l" by (simp add: rangeRows_def chainRows_def)
  then have "rangeRows t c (en_Seq ?l) k es = filter (\<lambda>e. en_Seq ?l < en_Seq e) (rangeRows t c cur k es)"
    unfolding rangeRows_def chainRows_def filter_sort filter_filter
    by (intro arg_cong [where f = "sort_key en_Seq"] filter_cong) auto
  also have "\<dots> = drop n (rangeRows t c cur k es)"
    by (rule after_last [OF rangeRows_strict [OF assms(1)] assms(2)])
  finally show ?thesis .
qed

lemma leavesLoop_all:
  assumes "entry_pk es"
  shows "leavesLoop (\<lambda>_. False) t c es k cur acc = Inr (acc @ map en_EntryHash (rangeRows t c cur k es))"
proof (induction "length (rangeRows t c cur k es)" arbitrary: cur acc rule: less_induct)
  case less
  let ?r = "rangeRows t c cur k es"
  let ?b = "take verifyBatchSize ?r"
  show ?case
  proof (cases "cur < k \<and> ?b \<noteq> []")
    case True
    have rest: "rangeRows t c (en_Seq (last ?b)) k es = drop verifyBatchSize ?r" using rangeRows_after [OF assms] True by blast
    have "leavesLoop (\<lambda>_. False) t c es k cur acc = leavesLoop (\<lambda>_. False) t c es k (en_Seq (last ?b)) (acc @ map en_EntryHash ?b)"
      using True by (subst leavesLoop.simps) (simp add: Let_def)
    also have "\<dots> = Inr ((acc @ map en_EntryHash ?b) @ map en_EntryHash (drop verifyBatchSize ?r))"
      using less [OF rangeRows_shrinks] True rest by metis
    also have "\<dots> = Inr (acc @ map en_EntryHash ?r)" by (metis append_assoc append_take_drop_id map_append)
    finally show ?thesis .
  next
    case False
    then have "?r = []" by (auto simp: verifyBatchSize_def rangeRows_def chainRows_def filter_empty_conv)
    then show ?thesis by (subst leavesLoop.simps) simp
  qed
qed

lemma rangeRows_member:
  "e \<in> set (rangeRows t c cur k es) \<longleftrightarrow>
     e \<in> set es \<and> en_TenantID e = t \<and> en_ChainClass e = c \<and> cur < en_Seq e \<and> en_Seq e \<le> k"
  by (auto simp: rangeRows_def chainRows_def)

text \<open>A range with as many rows as numbers has every number.\<close>

lemma full_range:
  assumes "sorted_wrt (\<lambda>x y. f x < (f y :: int)) xs" and "\<forall>x \<in> set xs. a \<le> f x \<and> f x \<le> b" and "int (length xs) = b - a + 1"
  shows "i < length xs \<Longrightarrow> f (xs ! i) = a + int i"
  using assms
proof (induction xs arbitrary: a i)
  case Nil
  then show ?case by simp
next
  case (Cons x xs)
  have gt: "\<forall>y \<in> set xs. f x < f y" using Cons.prems(2) by simp
  have bound: "int (length xs) \<le> b - f x"
  proof -
    have "sorted_wrt (<) (map f xs)" using Cons.prems(2) by (simp add: sorted_wrt_map)
    then have "distinct (map f xs)" by (simp add: strict_sorted_iff)
    then have "length xs = card (f ` set xs)" using distinct_card [of "map f xs"] by simp
    also have "\<dots> \<le> card {f x + 1..b}" using gt Cons.prems(3) by (intro card_mono) auto
    finally have "length xs \<le> nat (b - f x)" by simp
    moreover have "0 \<le> b - f x" using Cons.prems(3) by simp
    ultimately show ?thesis by linarith
  qed
  then have fx: "f x = a" using Cons.prems(3,4) by auto
  show ?case
  proof (cases i)
    case 0
    then show ?thesis using fx by simp
  next
    case (Suc j)
    have "f (xs ! j) = (a + 1) + int j"
      using Cons.prems Suc gt fx by (intro Cons.IH) auto
    then show ?thesis using Suc by simp
  qed
qed

lemma anchorsLoop_ok:
  assumes "anchorsLoop cr (\<lambda>_. False) keys t c es through ef ep as = Inr r" and "av_OK r" and "entry_pk es" and "through = ef - 1"
  shows "(\<forall>k. ef \<le> k \<and> k \<le> av_AnchoredThrough r \<longrightarrow> (\<exists>a \<in> set as. an_FromSeq a \<le> k \<and> k \<le> an_ToSeq a)) \<and>
    (\<forall>a \<in> set as. int (length (rangeRows t c (an_FromSeq a - 1) (an_ToSeq a) es)) = an_ToSeq a - an_FromSeq a + 1 \<and>
       MerkleRoot (cr_sha256 cr) (map en_EntryHash (rangeRows t c (an_FromSeq a - 1) (an_ToSeq a) es)) = an_MerkleRoot a)"
  using assms(1,4)
proof (induction as arbitrary: through ef ep)
  case Nil
  then show ?case by (auto simp: avOK_def)
next
  case (Cons a as)
  have step: "anchorsLoop cr (\<lambda>_. False) keys t c es (an_ToSeq a) (an_ToSeq a + 1) (Some (AnchorHash cr a)) as = Inr r"
    "an_FromSeq a = ef" "int (length (rangeRows t c (an_FromSeq a - 1) (an_ToSeq a) es)) = an_ToSeq a - an_FromSeq a + 1"
    "MerkleRoot (cr_sha256 cr) (map en_EntryHash (rangeRows t c (an_FromSeq a - 1) (an_ToSeq a) es)) = an_MerkleRoot a"
    using Cons.prems(1) assms(2)
    by (auto simp: leavesLoop_all [OF assms(3)] avFail_def split: if_splits option.splits)
  note IH = Cons.IH [OF step(1)]
  show ?case
  proof (intro conjI allI impI ballI)
    fix k assume k: "ef \<le> k \<and> k \<le> av_AnchoredThrough r"
    show "\<exists>a \<in> set (a # as). an_FromSeq a \<le> k \<and> k \<le> an_ToSeq a"
      using IH k step(2) by (cases "k \<le> an_ToSeq a") auto
  qed (use IH step in auto)
qed

section \<open>Properties\<close>

text \<open>C28: The signed messages are unambiguous: for 64-bit numbers and lengths that fit 16 bits, two chained
  anchor messages, two plain anchor messages or two checkpoint messages are equal only if all their
  fields are, and a message of one kind is never a message of another, so a signature made for one
  anchor or checkpoint verifies for no other.\<close>

theorem signed_messages_unambiguous:
  assumes "int64 t" "int64 t2" "int64 f" "int64 f2" "int64 o1" "int64 o2" "length c < 2 ^ 16" "length c2 < 2 ^ 16"
    and "length p < 2 ^ 16" "length p2 < 2 ^ 16"
  shows "(AnchorSigMessageV2 t c f o1 p r = AnchorSigMessageV2 t2 c2 f2 o2 p2 r2 \<longleftrightarrow>
            t = t2 \<and> c = c2 \<and> f = f2 \<and> o1 = o2 \<and> p = p2 \<and> r = r2) \<and>
    (AnchorSigMessage t c f o1 r = AnchorSigMessage t2 c2 f2 o2 r2 \<longleftrightarrow> t = t2 \<and> c = c2 \<and> f = f2 \<and> o1 = o2 \<and> r = r2) \<and>
    (CheckpointSigMessage t c f r = CheckpointSigMessage t2 c2 f2 r2 \<longleftrightarrow> t = t2 \<and> c = c2 \<and> f = f2 \<and> r = r2) \<and>
    AnchorSigMessage t c f o1 r \<noteq> AnchorSigMessageV2 t2 c2 f2 o2 p2 r2 \<and>
    CheckpointSigMessage t c f r \<noteq> AnchorSigMessage t2 c2 f2 o2 r2 \<and>
    CheckpointSigMessage t c f r \<noteq> AnchorSigMessageV2 t2 c2 f2 o2 p2 r2"
  using assms AnchorSigMessage_inj [of t c f o1 r t2 c2 f2 o2 r2] AnchorSigMessageV2_inj [of t c f o1 p r t2 c2 f2 o2 p2 r2]
    CheckpointSigMessage_inj [of t c f r t2 c2 f2 r2] messages_separate by metis

theorem signed_messages_unambiguous_witness:
  "(AnchorSigMessageV2 1 ''data'' 1 3 [] [7] = AnchorSigMessageV2 1 ''data'' 1 3 [7] [] \<longleftrightarrow> False) \<and>
   CheckpointSigMessage 1 ''data'' 1 [7] \<noteq> AnchorSigMessage 1 ''data'' 1 3 [7]"
  using signed_messages_unambiguous [of 1 1 1 1 3 3 "''data''" "''data''" "[]" "[7]" "[7]" "[]"]
    signed_messages_unambiguous [of 1 1 1 1 3 3 "''data''" "''data''" "[]" "[]" "[7]" "[7]"] by simp


section \<open>An example\<close>

text \<open>Two entries chained and anchored with a sink, then a third entry chained.\<close>

definition demo_captured :: audit_db where
  "demo_captured = \<lparr>db_pending = [demo_pending 2 ''b'', demo_pending 1 ''a''], db_entries = [], db_heads = [],
     db_anchors = [], db_checkpoints = [], db_sink = []\<rparr>"

definition demo_chained :: audit_db where
  "demo_chained = snd (ProcessBatch demo_crypto demo_marshal (\<lambda>_ _. False) (\<lambda>_. False) [1] ''k'' 0 100 demo_captured)"

definition demo_anchored :: audit_db where
  "demo_anchored = snd (AnchorAll demo_crypto (\<lambda>_. False) (\<lambda>_ _. False) [5] True 0 (\<lambda>_. (1, ''u'')) demo_chained)"

definition demo_later :: audit_db where
  "demo_later = snd (ProcessBatch demo_crypto demo_marshal (\<lambda>_ _. False) (\<lambda>_. False) [1] ''k'' 0 100
     (demo_anchored\<lparr>db_pending := [demo_pending 3 ''c'']\<rparr>))"

lemma demo_anchored_pk: "entry_pk (db_entries demo_anchored)"
  by code_simp

lemma demo_later_pk: "entry_pk (db_entries demo_later)"
  by code_simp

lemma demo_rows:
  "map (\<lambda>e. (en_Seq e, en_TenantID e, en_ChainClass e, length (en_EntryHash e))) (db_entries demo_anchored) =
     [(1, 1, ''data'', 32), (2, 1, ''data'', 32)]"
  "map (\<lambda>e. (en_Seq e, en_TenantID e, en_ChainClass e, length (en_EntryHash e))) (db_entries demo_later) =
     [(1, 1, ''data'', 32), (2, 1, ''data'', 32), (3, 1, ''data'', 32)]"
  subgoal by code_simp
  subgoal by code_simp
  done

lemma demo_same_anchors: "anchorsOf 1 ''data'' (db_anchors demo_anchored) = anchorsOf 1 ''data'' (db_anchors demo_later)"
  by code_simp

lemma demo_anchors_verify:
  "VerifyAnchorsFrom demo_crypto (\<lambda>_. False) (\<lambda>_. False) (NewKeyRegistry demo_crypto [[5]]) 1 ''data'' 1 demo_anchored = Inr (avOK 2)"
  "VerifyAnchorsFrom demo_crypto (\<lambda>_. False) (\<lambda>_. False) (NewKeyRegistry demo_crypto [[5]]) 1 ''data'' 1 demo_later = Inr (avOK 2)"
  subgoal by code_simp
  subgoal by code_simp
  done


end
