(* ===== verification/AuditSystem.thy ===== *)
theory AuditSystem
  imports AuditAnchorProofs
begin

text \<open>
  The audit ledger as a whole: rows are captured, the chainer chains them, the anchorer anchors the
  chains, the pruner removes anchored history behind a signed checkpoint. In every state these
  processes reach, the operator's check passes. Then what the check does not see: a chain cut off
  behind its last anchor.
\<close>

section \<open>Tables and histories\<close>

lemma pk_of_chains:
  assumes "\<And>t c. distinct (map en_Seq (filter (\<lambda>e. en_TenantID e = t \<and> en_ChainClass e = c) es))"
  shows "entry_pk es"
  using assms
proof (induction es)
  case Nil
  then show ?case by (simp add: entry_pk_def)
next
  case (Cons e es)
  have "distinct (map en_Seq (filter (\<lambda>x. en_TenantID x = t \<and> en_ChainClass x = c) es))" for t c
    using Cons.prems [of t c] by (simp split: if_splits)
  then have "entry_pk es" by (rule Cons.IH)
  moreover have "\<not> (\<exists>x \<in> set es. en_TenantID x = en_TenantID e \<and> en_ChainClass x = en_ChainClass e \<and> en_Seq x = en_Seq e)"
    using Cons.prems [of "en_TenantID e" "en_ChainClass e"] by (auto simp: image_iff)
  ultimately show ?case by (auto simp: entry_pk_def)
qed

lemma linked_sorted: "linked cr key prev n es \<Longrightarrow> sorted_wrt (\<lambda>x y. en_Seq x < en_Seq y) es"
  by (auto simp: sorted_wrt_iff_nth_less linked_seq)

lemma linked_seqs_strict: "linked cr key prev n es \<Longrightarrow> sorted_wrt (<) (map en_Seq es)"
  by (simp add: sorted_wrt_map linked_sorted)

lemma chain_linked_drop:
  "linked cr key prev n hist \<Longrightarrow> p \<le> length hist \<Longrightarrow>
     linked cr key (lastHash prev (take p hist)) (n + int p) (drop p hist)"
  using linked_append [of cr key prev n "take p hist" "drop p hist"] by (simp add: min_def split: if_splits)

lemma ledger_pk:
  assumes "ledger_ok cr key db H P" shows "entry_pk (db_entries db)"
proof (rule pk_of_chains)
  fix t c
  have ok: "chain_ok cr key db t c (H (t, c)) (P (t, c))" using assms by (simp add: ledger_ok_def)
  then have "linked cr key (lastHash GenesisPrevHash (take (P (t, c)) (H (t, c)))) (1 + int (P (t, c))) (drop (P (t, c)) (H (t, c)))"
    by (intro chain_linked_drop) (simp_all add: chain_ok_def)
  then show "distinct (map en_Seq (filter (\<lambda>e. en_TenantID e = t \<and> en_ChainClass e = c) (db_entries db)))"
    using ok linked_seqs_strict by (fastforce simp: chain_ok_def strict_sorted_iff)
qed

text \<open>The rows alone, without the head.\<close>

definition rows_ok :: "crypto \<Rightarrow> bytes \<Rightarrow> audit_entry list \<Rightarrow> id \<Rightarrow> string \<Rightarrow> audit_entry list \<Rightarrow> nat \<Rightarrow> bool" where
  "rows_ok cr key es t c hist p \<longleftrightarrow> linked cr key GenesisPrevHash 1 hist \<and> p \<le> length hist \<and>
     filter (\<lambda>e. en_TenantID e = t \<and> en_ChainClass e = c) es = drop p hist"

lemma chain_rows: "chain_ok cr key db t c hist p \<Longrightarrow> rows_ok cr key (db_entries db) t c hist p"
  by (simp add: chain_ok_def rows_ok_def)

text \<open>The rows of a chain after a number that has not been pruned: the rest of its history.\<close>

lemma chainRows_hist:
  assumes ok: "rows_ok cr key es t c hist p" and q: "p \<le> q"
  shows "chainRows t c (int q) es = drop q hist"
proof -
  let ?f = "filter (\<lambda>e. en_TenantID e = t \<and> en_ChainClass e = c) es"
  have l: "linked cr key GenesisPrevHash 1 hist" and f: "?f = drop p hist" using ok by (simp_all add: rows_ok_def)
  have seq: "en_Seq (hist ! i) = 1 + int i" if "i < length hist" for i using linked_seq [OF l that] .
  have "filter (\<lambda>e. int q < en_Seq e) (drop p hist) = drop q hist"
  proof -
    have "drop p hist = take (q - p) (drop p hist) @ drop q hist"
      using q by (metis append_take_drop_id drop_drop le_add_diff_inverse2)
    moreover have "filter (\<lambda>e. int q < en_Seq e) (take (q - p) (drop p hist)) = []"
      using seq q by (auto simp: filter_empty_conv in_set_conv_nth)
    moreover have "filter (\<lambda>e. int q < en_Seq e) (drop q hist) = drop q hist"
      using seq by (auto simp: filter_id_conv in_set_conv_nth)
    ultimately show ?thesis by (metis append_Nil filter_append)
  qed
  moreover have "filter (\<lambda>e. en_TenantID e = t \<and> en_ChainClass e = c \<and> int q < en_Seq e) es =
      filter (\<lambda>e. int q < en_Seq e) ?f"
    by (auto intro!: filter_cong)
  moreover have "sorted (map en_Seq (drop q hist))"
    using linked_seqs_strict [OF l] by (metis drop_map sorted_wrt_drop strict_sorted_imp_sorted)
  ultimately show ?thesis using f by (simp add: chainRows_def sorted_sort_id sort_key_id_if_sorted)
qed

section \<open>Anchored histories\<close>

definition hashesOf :: "audit_entry list \<Rightarrow> int \<Rightarrow> int \<Rightarrow> bytes list" where
  "hashesOf hist from to = map en_EntryHash (take (nat (to - from + 1)) (drop (nat (from - 1)) hist))"

fun anchored ::
  "crypto \<Rightarrow> bytes \<Rightarrow> id \<Rightarrow> string \<Rightarrow> audit_entry list \<Rightarrow> bytes \<Rightarrow> int \<Rightarrow> audit_anchor list \<Rightarrow> bool" where
  "anchored cr priv t c hist prev n [] = True"
| "anchored cr priv t c hist prev n (a # as) \<longleftrightarrow>
     an_TenantID a = t \<and> an_ChainClass a = c \<and> an_FromSeq a = n \<and> n \<le> an_ToSeq a \<and> an_ToSeq a \<le> int (length hist) \<and>
     an_Version a = AnchorV2 \<and> an_PrevAnchorHash a = prev \<and>
     an_MerkleRoot a = MerkleRoot (cr_sha256 cr) (hashesOf hist (an_FromSeq a) (an_ToSeq a)) \<and>
     an_Signature a = SignAnchorV2 cr priv t c (an_FromSeq a) (an_ToSeq a) prev (an_MerkleRoot a) \<and>
     an_KeyID a = KeyIDForPublic cr (cr_public cr priv) \<and>
     anchored cr priv t c hist (AnchorHash cr a) (an_ToSeq a + 1) as"

definition anchoredTo :: "int \<Rightarrow> audit_anchor list \<Rightarrow> int" where
  "anchoredTo n as = (if as = [] then n - 1 else an_ToSeq (last as))"

definition lastAnchorHash :: "crypto \<Rightarrow> bytes \<Rightarrow> audit_anchor list \<Rightarrow> bytes" where
  "lastAnchorHash cr prev as = (if as = [] then prev else AnchorHash cr (last as))"

lemma anchoredTo_simps [simp]: "anchoredTo n [] = n - 1" "anchoredTo n (a # as) = anchoredTo (an_ToSeq a + 1) as"
  by (simp_all add: anchoredTo_def)

lemma lastAnchorHash_simps [simp]:
  "lastAnchorHash cr prev [] = prev" "lastAnchorHash cr prev (a # as) = lastAnchorHash cr (AnchorHash cr a) as"
  by (simp_all add: lastAnchorHash_def)

lemma anchored_append:
  "anchored cr priv t c hist prev n (xs @ ys) \<longleftrightarrow> anchored cr priv t c hist prev n xs \<and>
     anchored cr priv t c hist (lastAnchorHash cr prev xs) (anchoredTo n xs + 1) ys"
  by (induction cr priv t c hist prev n xs rule: anchored.induct) auto

lemma anchored_bounds:
  "anchored cr priv t c hist prev n as \<Longrightarrow> n - 1 \<le> anchoredTo n as \<and>
     (\<forall>a \<in> set as. n \<le> an_FromSeq a \<and> an_FromSeq a \<le> an_ToSeq a \<and> an_ToSeq a \<le> anchoredTo n as \<and> an_ToSeq a \<le> int (length hist))"
proof (induction cr priv t c hist prev n as rule: anchored.induct)
  case (2 cr priv t c hist prev n b as)
  then have IH: "an_ToSeq b \<le> anchoredTo (an_ToSeq b + 1) as"
    "\<forall>a \<in> set as. an_ToSeq b + 1 \<le> an_FromSeq a \<and> an_FromSeq a \<le> an_ToSeq a \<and> an_ToSeq a \<le> anchoredTo (an_ToSeq b + 1) as \<and> an_ToSeq a \<le> int (length hist)"
    by auto
  then show ?case using "2.prems" by force
qed simp

lemma anchored_to_length: "anchored cr priv t c hist prev n as \<Longrightarrow> n - 1 \<le> int (length hist) \<Longrightarrow> anchoredTo n as \<le> int (length hist)"
  by (induction cr priv t c hist prev n as rule: anchored.induct) auto

lemma anchored_sorted: "anchored cr priv t c hist prev n as \<Longrightarrow> sorted_wrt (\<lambda>x y. an_FromSeq x < an_FromSeq y \<and> an_ToSeq x < an_ToSeq y) as"
proof (induction cr priv t c hist prev n as rule: anchored.induct)
  case (2 cr priv t c hist prev n b as)
  then have "anchored cr priv t c hist (AnchorHash cr b) (an_ToSeq b + 1) as" by simp
  from conjunct2 [OF anchored_bounds [OF this]] show ?case using 2 by fastforce
qed simp

lemma hashesOf_prefix:
  assumes "take (length hist) hist' = hist" and "1 \<le> from" and "to \<le> int (length hist)"
  shows "hashesOf hist' from to = hashesOf hist from to"
proof -
  have "take m (drop k hist') = take m (drop k hist)" if "m + k \<le> length hist" for m k
    using that assms(1) by (metis drop_take min.absorb1 take_drop take_take)
  moreover have "nat (to - from + 1) + nat (from - 1) \<le> length hist \<or> nat (to - from + 1) = 0" using assms(2,3) by auto
  ultimately show ?thesis unfolding hashesOf_def by (metis take_0)
qed

lemma anchored_prefix:
  assumes "take (length hist) hist' = hist"
  shows "anchored cr priv t c hist prev n as \<Longrightarrow> 1 \<le> n \<Longrightarrow> anchored cr priv t c hist' prev n as"
  using assms
proof (induction cr priv t c hist prev n as rule: anchored.induct)
  case (2 cr priv t c hist prev n a as)
  have "length hist \<le> length hist'" using "2.prems"(3) by (metis length_take min.cobounded1)
  moreover have "hashesOf hist' (an_FromSeq a) (an_ToSeq a) = hashesOf hist (an_FromSeq a) (an_ToSeq a)"
    using "2.prems" by (intro hashesOf_prefix) auto
  ultimately show ?case using 2 by auto
qed simp

lemma sorted_latest:
  assumes "sorted_wrt (\<lambda>x y. an_FromSeq x < an_FromSeq y \<and> an_ToSeq x < an_ToSeq y) as"
  shows "latestAnchor as = (if as = [] then None else Some (last as))"
proof (cases as rule: rev_cases)
  case Nil
  then show ?thesis by (simp add: latestAnchor_def)
next
  case (snoc xs a)
  have lt: "\<forall>x \<in> set xs. an_ToSeq x < an_ToSeq a" using assms snoc by (simp add: sorted_wrt_append)
  obtain b r where br: "sort_key (\<lambda>a. - an_ToSeq a) as = b # r"
    using snoc by (metis length_0_conv length_sort list.exhaust snoc_eq_iff_butlast)
  have "sorted (map (\<lambda>a. - an_ToSeq a) (b # r))" by (metis br sorted_sort_key)
  moreover have sets: "set (b # r) = set as" by (metis br set_sort)
  ultimately have "- an_ToSeq b \<le> - an_ToSeq a" using snoc by (auto simp: ball_Un)
  moreover have "b \<in> set xs \<or> b = a" using sets snoc by (metis UnE empty_iff insert_iff list.set_intros(1) list.simps(15) set_append list.set(1))
  ultimately have "b = a" using lt by force
  then show ?thesis using snoc br by (simp add: latestAnchor_def)
qed

lemma sorted_max:
  assumes "sorted_wrt (\<lambda>x y. an_FromSeq x < an_FromSeq y \<and> an_ToSeq x < an_ToSeq y) as"
  shows "maxToSeq as = (if as = [] then 0 else an_ToSeq (last as))"
proof -
  have "foldl (\<lambda>m b. max m (an_ToSeq b)) m xs = (if xs = [] then m else an_ToSeq (last xs))"
    if "sorted_wrt (\<lambda>x y. an_FromSeq x < an_FromSeq y \<and> an_ToSeq x < an_ToSeq y) xs" and "\<forall>x \<in> set xs. m < an_ToSeq x" for m xs
    using that by (induction xs arbitrary: m) auto
  note fold = this
  show ?thesis
  proof (cases as)
    case (Cons a list)
    have "foldl (\<lambda>m b. max m (an_ToSeq b)) (an_ToSeq a) list = (if list = [] then an_ToSeq a else an_ToSeq (last list))"
      by (rule fold) (use assms Cons in auto)
    then show ?thesis using Cons by (simp add: maxToSeq_def)
  qed (simp add: maxToSeq_def)
qed

section \<open>The invariant of the ledger\<close>

text \<open>The checkpoint of a chain of which the first \<open>p\<close> rows are pruned.\<close>

definition checkpoint_ok :: "crypto \<Rightarrow> bytes \<Rightarrow> audit_db \<Rightarrow> id \<Rightarrow> string \<Rightarrow> audit_entry list \<Rightarrow> nat \<Rightarrow> bool" where
  "checkpoint_ok cr priv db t c hist p \<longleftrightarrow>
     (case checkpointOf t c (db_checkpoints db) of
        None \<Rightarrow> p = 0
      | Some k \<Rightarrow> ck_PrunedThroughSeq k = int p \<and> ck_PrevHash k = lastHash GenesisPrevHash (take p hist) \<and>
          ck_Signature k = cr_sign cr priv (CheckpointSigMessage t c (int p) (ck_PrevHash k)) \<and>
          ck_KeyID k = KeyIDForPublic cr (cr_public cr priv))"

text \<open>With a sink, its records of a chain are those of the anchors, in order.\<close>

definition sink_ok :: "bool \<Rightarrow> audit_db \<Rightarrow> id \<Rightarrow> string \<Rightarrow> bool" where
  "sink_ok useSink db t c \<longleftrightarrow> (useSink \<longrightarrow>
     map (\<lambda>r. (sr_FromSeq r, sr_ToSeq r, sr_MerkleRoot r, sr_Signature r))
         (filter (\<lambda>r. sr_TenantID r = t \<and> sr_ChainClass r = c) (db_sink db)) =
     map (\<lambda>a. (an_FromSeq a, an_ToSeq a, an_MerkleRoot a, an_Signature a)) (anchorsOf t c (db_anchors db)))"

definition audit_chain_ok ::
  "crypto \<Rightarrow> bytes \<Rightarrow> bytes \<Rightarrow> bool \<Rightarrow> audit_db \<Rightarrow> id \<Rightarrow> string \<Rightarrow> audit_entry list \<Rightarrow> nat \<Rightarrow> bool" where
  "audit_chain_ok cr key priv useSink db t c hist p \<longleftrightarrow>
     chain_ok cr key db t c hist p \<and> anchored cr priv t c hist [] 1 (anchorsOf t c (db_anchors db)) \<and>
     (p = 0 \<or> (\<exists>a \<in> set (anchorsOf t c (db_anchors db)). an_ToSeq a = int p)) \<and>
     checkpoint_ok cr priv db t c hist p \<and> sink_ok useSink db t c"

definition audit_ok ::
  "crypto \<Rightarrow> bytes \<Rightarrow> bytes \<Rightarrow> bool \<Rightarrow> audit_db \<Rightarrow> (id \<times> string \<Rightarrow> audit_entry list) \<Rightarrow> (id \<times> string \<Rightarrow> nat) \<Rightarrow> bool" where
  "audit_ok cr key priv useSink db H P \<longleftrightarrow> (\<forall>t c. audit_chain_ok cr key priv useSink db t c (H (t, c)) (P (t, c)))"

lemma audit_ledger: "audit_ok cr key priv u db H P \<Longrightarrow> ledger_ok cr key db H P"
  by (simp add: audit_ok_def audit_chain_ok_def ledger_ok_def)

lemma more_fields:
  assumes "chain_db.more db' = chain_db.more (db :: audit_db)"
  shows "db_anchors db' = db_anchors db \<and> db_checkpoints db' = db_checkpoints db \<and> db_sink db' = db_sink db"
  using assms by (cases db; cases db') simp

text \<open>Chaining a batch.\<close>

lemma audit_batch:
  assumes inv: "audit_ok cr key priv u db H P" and room: "seq_room db (length (db_pending db))"
    and b: "ProcessBatch cr marshal rowflt flt key keyID now limit db = (r, db')"
  shows "\<exists>H'. audit_ok cr key priv u db' H' P"
proof -
  obtain H' where H': "ledger_ok cr key db' H' P" "chain_db.more db' = chain_db.more db" "\<forall>k. take (length (H k)) (H' k) = H k"
    using ProcessBatch_ledger [OF audit_ledger [OF inv] room b] by blast
  note same = more_fields [OF H'(2)]
  have "audit_chain_ok cr key priv u db' t c (H' (t, c)) (P (t, c))" for t c
  proof -
    have ok: "audit_chain_ok cr key priv u db t c (H (t, c)) (P (t, c))" using inv by (simp add: audit_ok_def)
    have "P (t, c) \<le> length (H (t, c))" using ok by (simp add: audit_chain_ok_def chain_ok_def)
    then have "take (P (t, c)) (H' (t, c)) = take (P (t, c)) (H (t, c))"
      using H'(3) by (metis min.absorb1 take_take)
    moreover have "anchored cr priv t c (H' (t, c)) [] 1 (anchorsOf t c (db_anchors db))"
      by (rule anchored_prefix [OF H'(3) [rule_format]]) (use ok in \<open>simp_all add: audit_chain_ok_def\<close>)
    moreover have "chain_ok cr key db' t c (H' (t, c)) (P (t, c))" using H'(1) by (simp add: ledger_ok_def)
    ultimately show ?thesis using ok same by (simp add: audit_chain_ok_def checkpoint_ok_def sink_ok_def split: option.splits)
  qed
  then show ?thesis by (auto simp: audit_ok_def)
qed

lemma audit_capture: "audit_ok cr key priv u (db\<lparr>db_pending := ps\<rparr>) H P = audit_ok cr key priv u db H P"
  by (simp add: audit_ok_def audit_chain_ok_def chain_ok_def checkpoint_ok_def sink_ok_def)

section \<open>Anchoring keeps the invariant\<close>

lemma anchored_chain:
  assumes "audit_chain_ok cr key priv u db t c hist p"
  shows "sorted_wrt (\<lambda>x y. an_FromSeq x < an_FromSeq y \<and> an_ToSeq x < an_ToSeq y) (anchorsOf t c (db_anchors db)) \<and>
    maxToSeq (anchorsOf t c (db_anchors db)) = anchoredTo 1 (anchorsOf t c (db_anchors db)) \<and>
    int p \<le> anchoredTo 1 (anchorsOf t c (db_anchors db)) \<and> anchoredTo 1 (anchorsOf t c (db_anchors db)) \<le> int (length hist)"
proof -
  let ?as = "anchorsOf t c (db_anchors db)"
  have a: "anchored cr priv t c hist [] 1 ?as" using assms by (simp add: audit_chain_ok_def)
  have s: "sorted_wrt (\<lambda>x y. an_FromSeq x < an_FromSeq y \<and> an_ToSeq x < an_ToSeq y) ?as" by (rule anchored_sorted [OF a])
  moreover have "maxToSeq ?as = anchoredTo 1 ?as" using sorted_max [OF s] by (simp add: anchoredTo_def)
  moreover have "int p \<le> anchoredTo 1 ?as"
    using assms anchored_bounds [OF a] by (auto simp: audit_chain_ok_def)
  moreover have "anchoredTo 1 ?as \<le> int (length hist)" using anchored_to_length [OF a] by simp
  ultimately show ?thesis by blast
qed

lemma anchorsOf_append:
  "anchorsOf t c (as @ [a]) = anchorsOf t c as @ (if an_TenantID a = t \<and> an_ChainClass a = c then [a] else [])"
  by (simp add: anchorsOf_def)

text \<open>What a successful anchoring adds: the anchor of everything after the last one, and its sink record.\<close>

lemma AnchorChain_effect:
  assumes ok: "audit_chain_ok cr key priv u db t c hist p" and run: "AnchorChain cr flt priv u now i uri t c db = (r, db')"
    and nofail: "u \<longrightarrow> \<not> flt ''createAnchor''"
  shows "db' = db \<or> (\<exists>a sr. anchored cr priv t c hist [] 1 (anchorsOf t c (db_anchors db) @ [a]) \<and>
     db' = db\<lparr>db_sink := (if u then db_sink db @ [sr] else db_sink db), db_anchors := db_anchors db @ [a]\<rparr> \<and>
     sr_TenantID sr = t \<and> sr_ChainClass sr = c \<and> sr_FromSeq sr = an_FromSeq a \<and> sr_ToSeq sr = an_ToSeq a \<and>
     sr_MerkleRoot sr = an_MerkleRoot a \<and> sr_Signature sr = an_Signature a \<and> an_TenantID a = t \<and> an_ChainClass a = c)"
proof -
  let ?as = "anchorsOf t c (db_anchors db)"
  note ac = anchored_chain [OF ok]
  have a: "anchored cr priv t c hist [] 1 ?as" and ch: "chain_ok cr key db t c hist p" using ok by (simp_all add: audit_chain_ok_def)
  define m where "m = nat (anchoredTo 1 ?as)"
  have m: "int m = anchoredTo 1 ?as" using ac by (simp add: m_def)
  have rows: "chainRows t c (maxToSeq ?as) (db_entries db) = drop m hist"
    using chainRows_hist [OF chain_rows [OF ch], of m] ac m by simp
  show ?thesis
  proof (cases "drop m hist = []")
    case True
    then show ?thesis using run rows by (auto simp: AnchorChain_def Let_def split: if_splits)
  next
    case False
    have l: "linked cr key GenesisPrevHash 1 hist" using ch by (simp add: chain_ok_def)
    have f: "en_Seq (hd (drop m hist)) = int m + 1" using False linked_seq [OF l, of m] by (simp add: hd_drop_conv_nth)
    have lst: "en_Seq (last (drop m hist)) = int (length hist)"
      using False linked_seq [OF l, of "length hist - 1"] by (simp add: last_drop last_conv_nth)
    have mlen: "m < length hist" using False by simp
    let ?root = "MerkleRoot (cr_sha256 cr) (map en_EntryHash (drop m hist))"
    let ?prev = "lastAnchorHash cr [] ?as"
    let ?sig = "SignAnchorV2 cr priv t c (int m + 1) (int (length hist)) ?prev ?root"
    let ?a = "\<lparr>an_ID = i, an_TenantID = t, an_ChainClass = c, an_FromSeq = int m + 1, an_ToSeq = int (length hist),
       an_MerkleRoot = ?root, an_Signature = ?sig, an_KeyID = KeyIDForPublic cr (cr_public cr priv), an_Version = AnchorV2,
       an_PrevAnchorHash = ?prev, an_ExternalURI = (if u then uri else []), an_CreatedAt = now\<rparr>"
    let ?sr = "\<lparr>sr_TenantID = t, sr_ChainClass = c, sr_FromSeq = int m + 1, sr_ToSeq = int (length hist), sr_MerkleRoot = ?root,
       sr_Signature = ?sig, sr_KeyID = KeyIDForPublic cr (cr_public cr priv), sr_CreatedAt = now\<rparr>"
    have prev: "(case latestAnchor ?as of None \<Rightarrow> [] | Some a \<Rightarrow> AnchorHash cr a) = ?prev"
      using sorted_latest ac by (simp add: lastAnchorHash_def)
    have nodup: "\<not> list_ex (\<lambda>a. an_FromSeq a = int m + 1 \<and> an_ToSeq a = int (length hist)) ?as"
      using anchored_bounds [OF a] m by (fastforce simp: list_ex_iff)
    have "hashesOf hist (int m + 1) (int (length hist)) = map en_EntryHash (drop m hist)" by (simp add: hashesOf_def)
    then have "anchored cr priv t c hist [] 1 (?as @ [?a])" using a m mlen by (simp add: anchored_append)
    moreover have "db' = db \<or> db' = db\<lparr>db_sink := (if u then db_sink db @ [?sr] else db_sink db), db_anchors := db_anchors db @ [?a]\<rparr>"
      using run nofail unfolding AnchorChain_def Let_def rows f lst prev
      by (auto simp: False nodup sinkPut_def split: if_splits)
    ultimately show ?thesis
      by (elim disjE) (rule disjI1, simp, rule disjI2, rule exI [of _ ?a], rule exI [of _ ?sr], simp)
  qed
qed

lemma AnchorChain_ok:
  assumes inv: "audit_ok cr key priv u db H P" and run: "AnchorChain cr flt priv u now i uri t c db = (r, db')"
    and nofail: "u \<longrightarrow> \<not> flt ''createAnchor''"
  shows "audit_ok cr key priv u db' H P \<and> db_heads db' = db_heads db"
proof -
  have ok: "audit_chain_ok cr key priv u db t' c' (H (t', c')) (P (t', c'))" for t' c' using inv by (simp add: audit_ok_def)
  from AnchorChain_effect [OF ok run nofail] show ?thesis
  proof (elim disjE exE conjE)
    fix a sr
    assume n: "anchored cr priv t c (H (t, c)) [] 1 (anchorsOf t c (db_anchors db) @ [a])"
      and db': "db' = db\<lparr>db_sink := (if u then db_sink db @ [sr] else db_sink db), db_anchors := db_anchors db @ [a]\<rparr>"
      and sr: "sr_TenantID sr = t" "sr_ChainClass sr = c" "sr_FromSeq sr = an_FromSeq a" "sr_ToSeq sr = an_ToSeq a"
        "sr_MerkleRoot sr = an_MerkleRoot a" "sr_Signature sr = an_Signature a"
      and a: "an_TenantID a = t" "an_ChainClass a = c"
    have "audit_chain_ok cr key priv u db' t' c' (H (t', c')) (P (t', c'))" for t' c'
      using ok [of t' c'] n sr a
      by (cases "t' = t \<and> c' = c") (auto simp: audit_chain_ok_def chain_ok_def checkpoint_ok_def sink_ok_def db' anchorsOf_append)
    then show ?thesis by (simp add: audit_ok_def db')
  qed (use inv in simp)
qed

lemma anchorLoop_ok:
  assumes "audit_ok cr key priv u db H P" and "anchorLoop cr flt priv u now fresh hs n db = (r, db')"
    and "u \<longrightarrow> (\<forall>k. \<not> flt k ''createAnchor'')"
  shows "audit_ok cr key priv u db' H P"
  using assms(1,2)
proof (induction hs arbitrary: n db)
  case (Cons h hs)
  let ?k = "(hd_TenantID h, hd_ChainClass h)"
  obtain x db1 where x: "AnchorChain cr (flt ?k) priv u now (fst (fresh ?k)) (snd (fresh ?k)) (hd_TenantID h) (hd_ChainClass h) db = (x, db1)"
    by fastforce
  have "audit_ok cr key priv u db1 H P" using AnchorChain_ok [OF Cons.prems(1) x] assms(3) by blast
  then show ?case using Cons.IH Cons.prems(2) x by (auto simp: Let_def split: sum.splits option.splits)
qed auto

section \<open>Pruning keeps the invariant\<close>

lemma checkpointOf_upsert:
  "checkpointOf t c (upsertCheckpoint k ks) =
     (if ck_TenantID k = t \<and> ck_ChainClass k = c
      then Some (case checkpointOf t c ks of None \<Rightarrow> k
        | Some r \<Rightarrow> r\<lparr>ck_PrunedThroughSeq := ck_PrunedThroughSeq k, ck_PrevHash := ck_PrevHash k, ck_Signature := ck_Signature k,
                      ck_KeyID := ck_KeyID k, ck_CreatedAt := ck_CreatedAt k\<rparr>)
      else checkpointOf t c ks)"
proof -
  have app: "checkpointOf t c (ks @ [k]) = (case checkpointOf t c ks of Some r \<Rightarrow> Some r
      | None \<Rightarrow> if ck_TenantID k = t \<and> ck_ChainClass k = c then Some k else None)"
    by (induction ks) (auto simp: checkpointOf_def)
  let ?f = "\<lambda>r. if ck_TenantID r = ck_TenantID k \<and> ck_ChainClass r = ck_ChainClass k
      then r\<lparr>ck_PrunedThroughSeq := ck_PrunedThroughSeq k, ck_PrevHash := ck_PrevHash k, ck_Signature := ck_Signature k,
             ck_KeyID := ck_KeyID k, ck_CreatedAt := ck_CreatedAt k\<rparr> else r"
  have map: "checkpointOf t c (map ?f ks) = map_option ?f (checkpointOf t c ks)"
    by (induction ks) (auto simp: checkpointOf_def)
  have key: "ck_TenantID r = t \<and> ck_ChainClass r = c" if "checkpointOf t c ks = Some r" for r
    using that by (auto simp: checkpointOf_def find_Some_iff)
  show ?thesis
  proof (cases "checkpointOf (ck_TenantID k) (ck_ChainClass k) ks = None")
    case True
    then show ?thesis using app by (auto simp: upsertCheckpoint_def split: option.split)
  next
    case False
    then have "checkpointOf t c (upsertCheckpoint k ks) = map_option ?f (checkpointOf t c ks)"
      using map unfolding upsertCheckpoint_def by (simp only: if_False)
    then show ?thesis using False key by (cases "checkpointOf t c ks") auto
  qed
qed

lemma PruneChain_ok:
  assumes inv: "audit_ok cr key priv u db H P" and a: "a \<in> set (anchorsOf t c (db_anchors db))"
    and run: "PruneChain cr flt priv now i t c (an_ToSeq a) db = (r, db')"
  shows "\<exists>P'. audit_ok cr key priv u db' H P' \<and> db_anchors db' = db_anchors db \<and> db_heads db' = db_heads db"
proof (cases "db' = db")
  case True
  then show ?thesis using inv by blast
next
  case False
  let ?as = "anchorsOf t c (db_anchors db)" and ?q = "nat (an_ToSeq a)" and ?hist = "H (t, c)"
  have ok: "audit_chain_ok cr key priv u db t' c' (H (t', c')) (P (t', c'))" for t' c' using inv by (simp add: audit_ok_def)
  have an: "anchored cr priv t c ?hist [] 1 ?as" and ch: "chain_ok cr key db t c ?hist (P (t, c))"
    using ok [of t c] by (simp_all add: audit_chain_ok_def)
  have l: "linked cr key GenesisPrevHash 1 ?hist" using ch by (simp add: chain_ok_def)
  have q: "1 \<le> an_ToSeq a" "an_ToSeq a \<le> anchoredTo 1 ?as" "?q \<le> length ?hist" using anchored_bounds [OF an] a by force+
  have latest: "latestAnchor ?as = Some (last ?as)" "an_ToSeq (last ?as) = anchoredTo 1 ?as"
    using sorted_latest anchored_chain [OF ok [of t c]] a by (auto simp: anchoredTo_def)
  have through: "(if an_ToSeq a < an_ToSeq (last ?as) then an_ToSeq a else an_ToSeq (last ?as)) = an_ToSeq a"
    using q(2) latest(2) by simp
  let ?find = "find (\<lambda>e. en_TenantID e = t \<and> en_ChainClass e = c \<and> en_Seq e = an_ToSeq a) (db_entries db)"
  obtain b where b: "?find = Some b"
    using run False through latest(1) by (auto simp: PruneChain_def Let_def split: if_splits option.splits)
  have "b \<in> set (filter (\<lambda>e. en_TenantID e = t \<and> en_ChainClass e = c) (db_entries db))" "en_Seq b = an_ToSeq a"
    using b by (auto simp: find_Some_iff)
  moreover have "filter (\<lambda>e. en_TenantID e = t \<and> en_ChainClass e = c) (db_entries db) = drop (P (t, c)) ?hist"
    using ch by (simp add: chain_ok_def)
  ultimately have bm: "b \<in> set (drop (P (t, c)) ?hist)" "en_Seq b = int ?q" using q(1) by (metis, simp)
  then obtain j where j: "j < length ?hist" "b = ?hist ! j" "P (t, c) \<le> j"
    by (auto simp: in_set_conv_nth) (metis add.commute le_add1 less_diff_conv)
  then have jq: "Suc j = ?q" using linked_seq [OF l j(1)] bm(2) j(2) q(1) by simp
  have pq: "P (t, c) \<le> ?q" using j(3) jq by simp
  have hash: "en_EntryHash b = lastHash GenesisPrevHash (take ?q ?hist)" using lastHash_take [OF j(1)] j(2) jq by simp
  let ?gone = "\<lambda>e. en_TenantID e = t \<and> en_ChainClass e = c \<and> en_Seq e \<le> an_ToSeq a"
  let ?cp = "\<lparr>ck_ID = i, ck_TenantID = t, ck_ChainClass = c, ck_PrunedThroughSeq = an_ToSeq a, ck_PrevHash = en_EntryHash b,
     ck_Signature = cr_sign cr priv (CheckpointSigMessage t c (an_ToSeq a) (en_EntryHash b)),
     ck_KeyID = KeyIDForPublic cr (cr_public cr priv), ck_CreatedAt = now\<rparr>"
  have db': "db' = db\<lparr>db_checkpoints := upsertCheckpoint ?cp (db_checkpoints db), db_entries := filter (\<lambda>e. \<not> ?gone e) (db_entries db)\<rparr>"
    using run False through latest(1) b by (auto simp: PruneChain_def Let_def split: if_splits)
  have rest: "filter (\<lambda>e. en_TenantID e = t \<and> en_ChainClass e = c) (filter (\<lambda>e. \<not> ?gone e) (db_entries db)) = drop ?q ?hist"
  proof -
    have "filter (\<lambda>e. en_TenantID e = t \<and> en_ChainClass e = c) (filter (\<lambda>e. \<not> ?gone e) (db_entries db)) =
        filter (\<lambda>e. int ?q < en_Seq e) (filter (\<lambda>e. en_TenantID e = t \<and> en_ChainClass e = c) (db_entries db))"
      using q(1) by (auto intro!: filter_cong)
    also have "\<dots> = filter (\<lambda>e. int ?q < en_Seq e) (drop (P (t, c)) ?hist)" using ch by (simp add: chain_ok_def)
    also have "\<dots> = chainRows t c (int ?q) (db_entries db)"
    proof -
      have "sorted (map en_Seq (filter (\<lambda>e. int ?q < en_Seq e) (drop (P (t, c)) ?hist)))"
        using linked_seqs_strict [OF l] by (metis drop_map sorted_wrt_drop strict_sorted_imp_sorted sorted_filter)
      moreover have "filter (\<lambda>e. int ?q < en_Seq e) (drop (P (t, c)) ?hist) =
          filter (\<lambda>e. en_TenantID e = t \<and> en_ChainClass e = c \<and> int ?q < en_Seq e) (db_entries db)"
      proof -
        have d: "drop (P (t, c)) ?hist = filter (\<lambda>e. en_TenantID e = t \<and> en_ChainClass e = c) (db_entries db)"
          using ch by (simp add: chain_ok_def)
        show ?thesis unfolding d by (auto intro!: filter_cong)
      qed
      ultimately show ?thesis unfolding chainRows_def by (metis sort_key_id_if_sorted)
    qed
    also have "\<dots> = drop ?q ?hist" by (rule chainRows_hist [OF chain_rows [OF ch] pq])
    finally show ?thesis .
  qed
  have other: "filter (\<lambda>e. en_TenantID e = t' \<and> en_ChainClass e = c') (filter (\<lambda>e. \<not> ?gone e) (db_entries db)) =
      filter (\<lambda>e. en_TenantID e = t' \<and> en_ChainClass e = c') (db_entries db)" if "(t', c') \<noteq> (t, c)" for t' c'
    using that by (auto intro!: filter_cong)
  let ?P = "P((t, c) := ?q)"
  have "audit_chain_ok cr key priv u db' t' c' (H (t', c')) (?P (t', c'))" for t' c'
  proof (cases "(t', c') = (t, c)")
    case True
    have "checkpoint_ok cr priv db' t c ?hist ?q"
      using hash q(1) by (auto simp: checkpoint_ok_def db' checkpointOf_upsert split: option.split)
    moreover have "chain_ok cr key db' t c ?hist ?q" using ch rest q(3) by (simp add: chain_ok_def db')
    ultimately show ?thesis using True ok [of t c] a q(1) by (auto simp: audit_chain_ok_def sink_ok_def db')
  next
    case False
    then show ?thesis using ok [of t' c'] other [OF False]
      by (auto simp: audit_chain_ok_def chain_ok_def checkpoint_ok_def sink_ok_def db' checkpointOf_upsert)
  qed
  then show ?thesis by (intro exI [of _ ?P]) (simp add: audit_ok_def db')
qed

lemma latest_member: "latestAnchor as = Some a \<Longrightarrow> a \<in> set as"
  unfolding latestAnchor_def by (metis (no_types, lifting) list.case_eq_if list.set_sel(1) option.distinct(1) option.inject set_sort sort_key_simps(1))

lemma pruneLoop_ok:
  assumes "audit_ok cr key priv u db H P" and "pruneLoop cr flt priv now fresh cutoff hs out db = (r, db')"
  shows "\<exists>P'. audit_ok cr key priv u db' H P'"
  using assms
proof (induction hs arbitrary: out db P)
  case (Cons h hs)
  let ?t = "hd_TenantID h" and ?c = "hd_ChainClass h"
  let ?l = "latestAnchor (filter (\<lambda>a. an_CreatedAt a < cutoff) (anchorsOf ?t ?c (db_anchors db)))"
  show ?case
  proof (cases "flt (?t, ?c) ''findBoundary'' \<or> ?l = None")
    case True
    then show ?thesis using Cons by (auto simp: Let_def split: if_splits)
  next
    case False
    then obtain a where a: "?l = Some a" by auto
    then have m: "a \<in> set (anchorsOf ?t ?c (db_anchors db))" using latest_member by fastforce
    obtain x db1 where x: "PruneChain cr (flt (?t, ?c)) priv now (fresh (?t, ?c)) ?t ?c (an_ToSeq a) db = (x, db1)" by fastforce
    obtain P1 where P1: "audit_ok cr key priv u db1 H P1" using PruneChain_ok [OF Cons.prems(1) m x] by blast
    show ?thesis using Cons.prems(2) Cons.IH [OF P1] P1 False a x
      by (auto simp: Let_def split: sum.splits)
  qed
qed auto

section \<open>The check passes\<close>

lemma rangeRows_hist:
  assumes ok: "rows_ok cr key es t c hist p" and f: "int p < from" "from \<le> to" "to \<le> int (length hist)"
  shows "map en_EntryHash (rangeRows t c (from - 1) to es) = hashesOf hist from to"
proof -
  let ?q = "nat (from - 1)" and ?n = "nat (to - from + 1)"
  have l: "linked cr key GenesisPrevHash 1 hist" using ok by (simp add: rows_ok_def)
  have "chainRows t c (from - 1) es = drop ?q hist" using chainRows_hist [OF ok, of ?q] f by simp
  moreover have "filter (\<lambda>e. en_Seq e \<le> to) (drop ?q hist) = take ?n (drop ?q hist)"
  proof -
    have seq: "en_Seq (hist ! i) = 1 + int i" if "i < length hist" for i using linked_seq [OF l that] .
    have "filter (\<lambda>e. en_Seq e \<le> to) (take ?n (drop ?q hist)) = take ?n (drop ?q hist)"
      using seq f by (auto simp: filter_id_conv in_set_conv_nth)
    moreover have "filter (\<lambda>e. en_Seq e \<le> to) (drop ?n (drop ?q hist)) = []"
      using seq f by (auto simp: filter_empty_conv in_set_conv_nth)
    ultimately show ?thesis by (metis append_Nil2 append_take_drop_id filter_append)
  qed
  ultimately show ?thesis by (simp add: rangeRows_def hashesOf_def)
qed

lemma length_hashesOf: "1 \<le> from \<Longrightarrow> from \<le> to \<Longrightarrow> to \<le> int (length hist) \<Longrightarrow> int (length (hashesOf hist from to)) = to - from + 1"
  by (simp add: hashesOf_def)

lemma anchorsLoop_complete:
  assumes laws: "crypto_laws cr" and key: "KeyFor keys (KeyIDForPublic cr (cr_public cr priv)) = Some (cr_public cr priv)"
    and ok: "rows_ok cr k es t c hist p" and pk: "entry_pk es"
  shows "anchored cr priv t c hist prev n as \<Longrightarrow> int p < n \<Longrightarrow> ep = None \<or> ep = Some prev \<Longrightarrow>
    anchorsLoop cr (\<lambda>_. False) keys t c es (n - 1) n ep as = Inr (avOK (anchoredTo n as))"
proof (induction as arbitrary: prev n ep)
  case (Cons a as)
  have a: "an_FromSeq a = n" "n \<le> an_ToSeq a" "an_ToSeq a \<le> int (length hist)" "an_Version a = AnchorV2" "an_TenantID a = t"
    "an_ChainClass a = c" "an_PrevAnchorHash a = prev" "an_KeyID a = KeyIDForPublic cr (cr_public cr priv)"
    "an_MerkleRoot a = MerkleRoot (cr_sha256 cr) (hashesOf hist n (an_ToSeq a))"
    "an_Signature a = SignAnchorV2 cr priv t c n (an_ToSeq a) prev (an_MerkleRoot a)"
    "anchored cr priv t c hist (AnchorHash cr a) (an_ToSeq a + 1) as"
    using Cons.prems(1) by simp_all
  have sig: "VerifyAnchorSig cr (cr_public cr priv) a"
    using laws a(1,4-7,10) unfolding VerifyAnchorSig_def SignAnchorV2_def crypto_laws_def by simp
  have leaves: "leavesLoop (\<lambda>_. False) t c es (an_ToSeq a) (n - 1) [] = Inr (hashesOf hist n (an_ToSeq a))"
    using leavesLoop_all [OF pk] rangeRows_hist [OF ok Cons.prems(2) a(2,3)] by simp
  have len: "int (length (hashesOf hist n (an_ToSeq a))) = an_ToSeq a - n + 1"
    using length_hashesOf [OF _ a(2,3)] Cons.prems(2) by simp
  have "anchorsLoop cr (\<lambda>_. False) keys t c es (an_ToSeq a) (an_ToSeq a + 1) (Some (AnchorHash cr a)) as =
      Inr (avOK (anchoredTo (an_ToSeq a + 1) as))"
    using Cons.IH [OF a(11), of "Some (AnchorHash cr a)"] Cons.prems(2) a(2) by simp
  then show ?case using a(1,2,7) key a(8) sig leaves len a(9) Cons.prems(3) by auto
qed simp

text \<open>The anchors that end after the pruned part.\<close>

lemma anchored_rest:
  assumes "anchored cr priv t c hist [] 1 as" and "p = 0 \<or> (\<exists>a \<in> set as. an_ToSeq a = int p)"
  shows "\<exists>prev. anchored cr priv t c hist prev (int p + 1) (filter (\<lambda>a. int p + 1 \<le> an_ToSeq a) as)"
proof (cases "p = 0")
  case True
  have "filter (\<lambda>a. 1 \<le> an_ToSeq a) as = as" using anchored_bounds [OF assms(1)] by (auto simp: filter_id_conv)
  then show ?thesis using True assms(1) by auto
next
  case False
  then obtain a where "a \<in> set as" "an_ToSeq a = int p" using assms(2) by auto
  then obtain xs ys where as: "as = xs @ a # ys" by (meson split_list)
  have x: "anchored cr priv t c hist [] 1 (xs @ [a])" and y: "anchored cr priv t c hist (AnchorHash cr a) (int p + 1) ys"
    using assms(1) as \<open>an_ToSeq a = int p\<close> by (simp_all add: anchored_append)
  have "anchoredTo 1 (xs @ [a]) = int p" using \<open>an_ToSeq a = int p\<close> by (simp add: anchoredTo_def)
  then have "filter (\<lambda>a. int p + 1 \<le> an_ToSeq a) (xs @ [a]) = []"
    using anchored_bounds [OF x] unfolding filter_empty_conv by fastforce
  moreover have "filter (\<lambda>a. int p + 1 \<le> an_ToSeq a) ys = ys"
    using anchored_bounds [OF y] unfolding filter_id_conv by fastforce
  ultimately show ?thesis using y as by (metis append.assoc append_Cons append_Nil filter_append)
qed

lemma AList_update_new: "k \<notin> fst ` set al \<Longrightarrow> AList.update k v al = al @ [(k, v)]"
  by (induction al) auto

lemma sinkIndex_distinct:
  assumes "distinct (map (\<lambda>r. (sr_FromSeq r, sr_ToSeq r)) (filter (\<lambda>r. sr_TenantID r = t \<and> sr_ChainClass r = c) recs))"
  shows "sinkIndex t c recs = map (\<lambda>r. ((sr_FromSeq r, sr_ToSeq r), r)) (filter (\<lambda>r. sr_TenantID r = t \<and> sr_ChainClass r = c) recs)"
  using assms
proof (induction recs rule: rev_induct)
  case (snoc r recs)
  let ?f = "filter (\<lambda>r. sr_TenantID r = t \<and> sr_ChainClass r = c)"
  have IH: "sinkIndex t c recs = map (\<lambda>r. ((sr_FromSeq r, sr_ToSeq r), r)) (?f recs)" using snoc by (simp split: if_splits)
  show ?case
  proof (cases "sr_TenantID r = t \<and> sr_ChainClass r = c")
    case True
    then have "(sr_FromSeq r, sr_ToSeq r) \<notin> fst ` set (sinkIndex t c recs)" using snoc.prems IH by (auto simp: image_iff)
    then show ?thesis using True IH by (simp add: sinkIndex_def AList_update_new)
  next
    case False
    then show ?thesis using IH by (auto simp: sinkIndex_def)
  qed
qed (simp add: sinkIndex_def)

lemma sink_check:
  assumes a: "anchored cr priv t c hist [] 1 (anchorsOf t c (db_anchors db))" and s: "sink_ok u db t c"
    and v: "VerifyAnchorsFrom cr (\<lambda>_. False) (\<lambda>_. False) keys t c from db = Inr (avOK n)"
  shows "VerifyAnchorsWithSinkFrom cr (\<lambda>_. False) (\<lambda>_. False) u keys t c from db = Inr (avOK n)"
proof (cases u)
  case False
  then show ?thesis using v by (simp add: VerifyAnchorsWithSinkFrom_def avOK_def)
next
  case True
  let ?as = "anchorsOf t c (db_anchors db)" and ?rs = "filter (\<lambda>r. sr_TenantID r = t \<and> sr_ChainClass r = c) (db_sink db)"
  have srt: "sorted_wrt (\<lambda>x y. an_FromSeq x < an_FromSeq y \<and> an_ToSeq x < an_ToSeq y) ?as" by (rule anchored_sorted [OF a])
  have eq: "map (\<lambda>r. (sr_FromSeq r, sr_ToSeq r, sr_MerkleRoot r, sr_Signature r)) ?rs =
      map (\<lambda>a. (an_FromSeq a, an_ToSeq a, an_MerkleRoot a, an_Signature a)) ?as" using s True by (simp add: sink_ok_def)
  have "sorted_wrt (<) (map an_FromSeq ?as)" using srt by (auto simp: sorted_wrt_map elim: sorted_wrt_mono_rel [rotated])
  then have d: "distinct (map an_FromSeq ?as)" and so: "sorted (map an_FromSeq ?as)" by (simp_all add: strict_sorted_iff)
  have keys: "map (\<lambda>r. (sr_FromSeq r, sr_ToSeq r)) ?rs = map (\<lambda>a. (an_FromSeq a, an_ToSeq a)) ?as"
    using arg_cong [OF eq, of "map (\<lambda>(f, g, h, i). (f, g))"] by (simp add: comp_def)
  have "distinct (map (\<lambda>a. (an_FromSeq a, an_ToSeq a)) ?as)" using d by (auto simp: distinct_map inj_on_def)
  then have dr: "distinct (map (\<lambda>r. (sr_FromSeq r, sr_ToSeq r)) ?rs)" using keys by simp
  note idx = sinkIndex_distinct [OF dr]
  have hit: "\<exists>r. map_of (sinkIndex t c (db_sink db)) (an_FromSeq a, an_ToSeq a) = Some r \<and>
      sr_MerkleRoot r = an_MerkleRoot a \<and> sr_Signature r = an_Signature a" if "a \<in> set ?as" for a
  proof -
    have "(an_FromSeq a, an_ToSeq a, an_MerkleRoot a, an_Signature a) \<in>
        (\<lambda>r. (sr_FromSeq r, sr_ToSeq r, sr_MerkleRoot r, sr_Signature r)) ` set ?rs"
      using arg_cong [OF eq, of set] that by (metis (no_types, lifting) image_eqI list.set_map)
    then obtain r where r: "r \<in> set ?rs" "sr_FromSeq r = an_FromSeq a" "sr_ToSeq r = an_ToSeq a" "sr_MerkleRoot r = an_MerkleRoot a"
        "sr_Signature r = an_Signature a" by auto
    have "map_of (sinkIndex t c (db_sink db)) (sr_FromSeq r, sr_ToSeq r) = Some r"
      unfolding idx using dr r(1) by (intro map_of_is_SomeI) (auto simp: comp_def)
    then show ?thesis using r by auto
  qed
  have conv: "\<exists>a \<in> set ?as. (an_FromSeq a, an_ToSeq a) = k" if "(k, r) \<in> set (sinkIndex t c (db_sink db))" for k r
  proof -
    have "k \<in> set (map (\<lambda>r. (sr_FromSeq r, sr_ToSeq r)) ?rs)" using that unfolding idx by auto
    then show ?thesis unfolding keys by auto
  qed
  have f1: "find (\<lambda>a. case map_of (sinkIndex t c (db_sink db)) (an_FromSeq a, an_ToSeq a) of None \<Rightarrow> True
      | Some sr \<Rightarrow> sr_MerkleRoot sr \<noteq> an_MerkleRoot a \<or> sr_Signature sr \<noteq> an_Signature a) ?as = None"
    using hit by (fastforce simp: find_None_iff)
  have f2: "find (\<lambda>(k, r). \<not> list_ex (\<lambda>a. (an_FromSeq a, an_ToSeq a) = k) ?as \<and>
      (case maxDBToSeqAt ?as (sr_FromSeq r) of None \<Rightarrow> True | Some m \<Rightarrow> m < sr_ToSeq r)) (sinkIndex t c (db_sink db)) = None"
    using conv by (auto simp: find_None_iff list_ex_iff)
  have "sort_key an_FromSeq ?as = ?as" by (rule sort_key_id_if_sorted [OF so])
  then show ?thesis using v f1 f2 by (simp add: VerifyAnchorsWithSinkFrom_def avOK_def sinkList_def Let_def)
qed

text \<open>The check of one chain needs its rows, anchors, checkpoint and sink records, not its head.\<close>

lemma verifyHead_ok:
  assumes laws: "crypto_laws cr"
    and key: "KeyFor (NewKeyRegistry cr pubs) (KeyIDForPublic cr (cr_public cr priv)) = Some (cr_public cr priv)"
    and rows: "rows_ok cr k (db_entries db) (hd_TenantID h) (hd_ChainClass h) hist p" and pk: "entry_pk (db_entries db)"
    and a: "anchored cr priv (hd_TenantID h) (hd_ChainClass h) hist [] 1 (anchorsOf (hd_TenantID h) (hd_ChainClass h) (db_anchors db))"
    and b: "p = 0 \<or> (\<exists>a \<in> set (anchorsOf (hd_TenantID h) (hd_ChainClass h) (db_anchors db)). an_ToSeq a = int p)"
    and cp: "checkpoint_ok cr priv db (hd_TenantID h) (hd_ChainClass h) hist p" and s: "sink_ok u db (hd_TenantID h) (hd_ChainClass h)"
  shows "\<exists>res ares. verifyHead cr (\<lambda>_. False) (\<lambda>_. False) k u pubs db h = Inr (res, ares) \<and> vr_OK res \<and>
    (case ares of None \<Rightarrow> True | Some r \<Rightarrow> av_OK r)"
proof -
  let ?t = "hd_TenantID h" and ?c = "hd_ChainClass h" and ?reg = "NewKeyRegistry cr pubs"
  let ?cp = "\<lparr>cp_Seq = int p + 1, cp_PrevHash = lastHash GenesisPrevHash (take p hist)\<rparr>"
  have keyed: "ck_TenantID x = ?t \<and> ck_ChainClass x = ?c" if "checkpointOf ?t ?c (db_checkpoints db) = Some x" for x
    using that by (auto simp: checkpointOf_def find_Some_iff)
  have load: "LoadCheckpoint cr (\<lambda>_. False) ?reg ?t ?c db = Inr ?cp"
    using cp key laws keyed
    by (auto simp: LoadCheckpoint_def checkpoint_ok_def VerifyCheckpointSig_def crypto_laws_def GenesisCheckpoint_def split: option.splits)
  have l: "linked cr k GenesisPrevHash 1 hist" "p \<le> length hist" using rows by (simp_all add: rows_ok_def)
  have chain: "VerifyChainFrom cr (\<lambda>_. False) k ?t ?c ?cp (db_entries db) = Inr (verifyAll cr k (cp_PrevHash ?cp) (int p + 1) (drop p hist))"
    using VerifyChainFrom_all [OF pk, of ?cp cr k ?t ?c] chainRows_hist [OF rows order_refl] by simp
  have clean: "vr_OK (verifyAll cr k (cp_PrevHash ?cp) (int p + 1) (drop p hist))"
    using chain_linked_drop [OF l] by (simp add: verifyAll_ok add.commute)
  let ?as = "anchorsOf ?t ?c (db_anchors db)"
  obtain prev where rest: "anchored cr priv ?t ?c hist prev (int p + 1) (filter (\<lambda>a. int p + 1 \<le> an_ToSeq a) ?as)"
    using anchored_rest [OF a b] by blast
  have "sorted_wrt (\<lambda>x y. an_FromSeq x < an_FromSeq y) (filter (\<lambda>a. int p + 1 \<le> an_ToSeq a) ?as)"
    by (rule sorted_wrt_mono_rel [OF _ anchored_sorted [OF rest]]) simp
  then have "sorted_wrt (<) (map an_FromSeq (filter (\<lambda>a. int p + 1 \<le> an_ToSeq a) ?as))" by (simp add: sorted_wrt_map)
  then have so: "sort_key an_FromSeq (filter (\<lambda>a. int p + 1 \<le> an_ToSeq a) ?as) = filter (\<lambda>a. int p + 1 \<le> an_ToSeq a) ?as"
    by (intro sort_key_id_if_sorted) (simp add: strict_sorted_iff)
  have "VerifyAnchorsFrom cr (\<lambda>_. False) (\<lambda>_. False) ?reg ?t ?c (int p + 1) db =
      Inr (avOK (anchoredTo (int p + 1) (filter (\<lambda>a. int p + 1 \<le> an_ToSeq a) ?as)))"
    using anchorsLoop_complete [OF laws key rows pk rest, of None] so by (simp add: VerifyAnchorsFrom_def Let_def)
  then have "VerifyAnchorsWithSinkFrom cr (\<lambda>_. False) (\<lambda>_. False) u ?reg ?t ?c (int p + 1) db =
      Inr (avOK (anchoredTo (int p + 1) (filter (\<lambda>a. int p + 1 \<le> an_ToSeq a) ?as)))"
    by (rule sink_check [OF a s])
  then show ?thesis using load chain clean by (simp add: verifyHead_def Let_def avOK_def)
qed

section \<open>All processes together\<close>

text \<open>One deployment: capture, chainer, anchorer and pruner in any order, with database and sink failures
  at any call. A sequence number fits 64 bits. With a sink, the insert of an anchor does not fail after
  its sink record was written: until the next tick re-anchors the range, the check reports that record.\<close>

inductive audit_run :: "crypto \<Rightarrow> marshaler \<Rightarrow> bytes \<Rightarrow> bytes \<Rightarrow> bool \<Rightarrow> audit_db \<Rightarrow> bool"
  for cr marshal key priv useSink where
  run_empty: "db_entries db = [] \<Longrightarrow> db_heads db = [] \<Longrightarrow> db_anchors db = [] \<Longrightarrow> db_checkpoints db = [] \<Longrightarrow> db_sink db = [] \<Longrightarrow>
    audit_run cr marshal key priv useSink db"
| run_capture: "audit_run cr marshal key priv useSink db \<Longrightarrow> audit_run cr marshal key priv useSink (db\<lparr>db_pending := ps\<rparr>)"
| run_batch: "audit_run cr marshal key priv useSink db \<Longrightarrow> seq_room db (length (db_pending db)) \<Longrightarrow>
    audit_run cr marshal key priv useSink (snd (ProcessBatch cr marshal rowflt flt key keyID now limit db))"
| run_anchor: "audit_run cr marshal key priv useSink db \<Longrightarrow> (useSink \<longrightarrow> (\<forall>k. \<not> cflt k ''createAnchor'')) \<Longrightarrow>
    audit_run cr marshal key priv useSink (snd (AnchorAll cr flt cflt priv useSink now fresh db))"
| run_prune: "audit_run cr marshal key priv useSink db \<Longrightarrow>
    audit_run cr marshal key priv useSink (snd (PruneChainsBefore cr flt cflt priv now ids cutoff db))"

lemma audit_run_ok:
  assumes "audit_run cr marshal key priv u db" shows "\<exists>H P. audit_ok cr key priv u db H P"
  using assms
proof induction
  case (run_empty db)
  then have "audit_ok cr key priv u db (\<lambda>_. []) (\<lambda>_. 0)"
    by (simp add: audit_ok_def audit_chain_ok_def chain_ok_def checkpoint_ok_def sink_ok_def anchorsOf_def headOf_def checkpointOf_def)
  then show ?case by blast
next
  case (run_capture db ps)
  then show ?case by (simp add: audit_capture)
next
  case (run_batch db rowflt flt keyID now limit)
  then obtain H P where inv: "audit_ok cr key priv u db H P" by blast
  obtain r db' where b: "ProcessBatch cr marshal rowflt flt key keyID now limit db = (r, db')" by (rule prod.exhaust)
  from audit_batch [OF inv run_batch.hyps(2) b] b show ?case by auto
next
  case (run_anchor db cflt flt now fresh)
  then obtain H P where inv: "audit_ok cr key priv u db H P" by blast
  obtain r db' where l: "anchorLoop cr cflt priv u now fresh (db_heads db) 0 db = (r, db')" by (rule prod.exhaust)
  from anchorLoop_ok [OF inv l run_anchor.hyps(2)] inv l show ?case by (auto simp: AnchorAll_def)
next
  case (run_prune db flt cflt now ids cutoff)
  then obtain H P where inv: "audit_ok cr key priv u db H P" by blast
  obtain r db' where l: "pruneLoop cr cflt priv now ids cutoff (db_heads db) [] db = (r, db')" by (rule prod.exhaust)
  from pruneLoop_ok [OF inv l] inv l show ?case by (auto simp: PruneChainsBefore_def)
qed

lemma verifyHeads_ok:
  assumes "\<And>h. h \<in> set hs \<Longrightarrow> \<exists>res ares. verifyHead cr flt lflt key u pubs db h = Inr (res, ares) \<and> vr_OK res \<and>
    (case ares of None \<Rightarrow> True | Some r \<Rightarrow> av_OK r)"
  shows "verifyHeads cr flt lflt key u pubs db False hs = Inr False"
  using assms
proof (induction hs)
  case (Cons h hs)
  obtain res ares where "verifyHead cr flt lflt key u pubs db h = Inr (res, ares)" "vr_OK res"
      "case ares of None \<Rightarrow> True | Some r \<Rightarrow> av_OK r" using Cons.prems [of h] by auto
  then show ?case using Cons by (auto split: option.splits)
qed simp


text \<open>A chain cut off after the row \<open>m\<close>, behind its last anchor.\<close>

definition cutAfter :: "id \<Rightarrow> string \<Rightarrow> nat \<Rightarrow> audit_db \<Rightarrow> audit_db" where
  "cutAfter t c m db = db\<lparr>db_entries := filter (\<lambda>e. \<not> (en_TenantID e = t \<and> en_ChainClass e = c \<and> int m < en_Seq e)) (db_entries db)\<rparr>"

lemma anchored_cut:
  "anchored cr priv t c hist prev n as \<Longrightarrow> 1 \<le> n \<Longrightarrow> \<forall>a \<in> set as. an_ToSeq a \<le> int m \<Longrightarrow> m \<le> length hist \<Longrightarrow>
     anchored cr priv t c (take m hist) prev n as"
proof (induction cr priv t c hist prev n as rule: anchored.induct)
  case (2 cr priv t c hist prev n a as)
  have "hashesOf hist (an_FromSeq a) (an_ToSeq a) = hashesOf (take m hist) (an_FromSeq a) (an_ToSeq a)"
    by (rule hashesOf_prefix) (use "2.prems" in simp_all)
  then show ?case using 2 by simp
qed simp

lemma rows_cut:
  assumes ok: "rows_ok cr key es t c hist p" and m: "p \<le> m" "m \<le> length hist"
  shows "rows_ok cr key (filter (\<lambda>e. \<not> (en_TenantID e = t \<and> en_ChainClass e = c \<and> int m < en_Seq e)) es) t c (take m hist) p"
proof -
  have l: "linked cr key GenesisPrevHash 1 hist" and f: "filter (\<lambda>e. en_TenantID e = t \<and> en_ChainClass e = c) es = drop p hist"
    using ok by (simp_all add: rows_ok_def)
  have seq: "en_Seq (hist ! i) = 1 + int i" if "i < length hist" for i using linked_seq [OF l that] .
  have "filter (\<lambda>e. en_TenantID e = t \<and> en_ChainClass e = c) (filter (\<lambda>e. \<not> (en_TenantID e = t \<and> en_ChainClass e = c \<and> int m < en_Seq e)) es) =
      filter (\<lambda>e. \<not> int m < en_Seq e) (filter (\<lambda>e. en_TenantID e = t \<and> en_ChainClass e = c) es)"
    by (auto intro!: filter_cong)
  also have "\<dots> = filter (\<lambda>e. \<not> int m < en_Seq e) (drop p (take m hist) @ drop m hist)"
  proof -
    have "drop p (take m hist @ drop m hist) = drop p (take m hist) @ drop m hist"
      by (subst drop_append) (use m in simp)
    then show ?thesis unfolding f by simp
  qed
  also have "\<dots> = drop p (take m hist)"
  proof -
    have "filter (\<lambda>e. \<not> int m < en_Seq e) (drop p (take m hist)) = drop p (take m hist)"
      using seq m by (auto simp: filter_id_conv in_set_conv_nth)
    moreover have "filter (\<lambda>e. \<not> int m < en_Seq e) (drop m hist) = []"
      using seq by (auto simp: filter_empty_conv in_set_conv_nth)
    ultimately show ?thesis by simp
  qed
  finally show ?thesis using linked_take [OF l] m by (simp add: rows_ok_def)
qed

text \<open>C30: Deleting every entry of a chain after its last anchor passes the check, although the head of the
  chain still names a later sequence number.\<close>

theorem cut_tail_passes:
  assumes run: "audit_run cr marshal key priv u db" and laws: "crypto_laws cr"
    and reg: "KeyFor (NewKeyRegistry cr pubs) (KeyIDForPublic cr (cr_public cr priv)) = Some (cr_public cr priv)"
    and m: "\<forall>a \<in> set (anchorsOf t c (db_anchors db)). an_ToSeq a \<le> int m"
    and h: "headOf t c (db_heads db) = Some tip" "int m < hd_LastSeq tip"
  shows "runVerifyAudit cr (\<lambda>_. False) (\<lambda>_. False) key u pubs (cutAfter t c m db) = Inr False \<and>
    headOf t c (db_heads (cutAfter t c m db)) = Some tip \<and>
    (\<forall>e \<in> set (db_entries (cutAfter t c m db)). en_TenantID e = t \<and> en_ChainClass e = c \<longrightarrow> en_Seq e < hd_LastSeq tip)"
proof -
  obtain H P where inv: "audit_ok cr key priv u db H P" using audit_run_ok [OF run] by blast
  let ?db = "cutAfter t c m db" and ?H = "H((t, c) := take m (H (t, c)))"
  have ok: "audit_chain_ok cr key priv u db t' c' (H (t', c')) (P (t', c'))" for t' c' using inv by (simp add: audit_ok_def)
  have len: "m \<le> length (H (t, c))" using ok [of t c] h by (auto simp: audit_chain_ok_def chain_ok_def)
  have pm: "P (t, c) \<le> m" using ok [of t c] m by (auto simp: audit_chain_ok_def)
  have "\<exists>res ares. verifyHead cr (\<lambda>_. False) (\<lambda>_. False) key u pubs ?db h = Inr (res, ares) \<and> vr_OK res \<and>
      (case ares of None \<Rightarrow> True | Some r \<Rightarrow> av_OK r)" for h
  proof (rule verifyHead_ok [OF laws reg])
    let ?t = "hd_TenantID h" and ?c = "hd_ChainClass h"
    note okh = ok [of ?t ?c, unfolded audit_chain_ok_def]
    show "rows_ok cr key (db_entries ?db) ?t ?c (?H (?t, ?c)) (P (?t, ?c))"
    proof (cases "(?t, ?c) = (t, c)")
      case True
      have "chain_ok cr key db t c (H (t, c)) (P (t, c))" using ok [of t c] by (simp add: audit_chain_ok_def)
      from rows_cut [OF chain_rows [OF this] pm len] show ?thesis using True unfolding cutAfter_def by simp
    next
      case False
      then have "filter (\<lambda>e. en_TenantID e = ?t \<and> en_ChainClass e = ?c) (db_entries ?db) =
          filter (\<lambda>e. en_TenantID e = ?t \<and> en_ChainClass e = ?c) (db_entries db)"
        by (auto simp: cutAfter_def intro!: filter_cong)
      moreover have "rows_ok cr key (db_entries db) ?t ?c (H (?t, ?c)) (P (?t, ?c))" using okh by (simp add: chain_rows)
      moreover have "?H (?t, ?c) = H (?t, ?c)" using False by (rule fun_upd_other)
      ultimately show ?thesis by (simp only: rows_ok_def)
    qed
    have "entry_pk (db_entries db)" by (rule ledger_pk [OF audit_ledger [OF inv]])
    then show "entry_pk (db_entries ?db)" by (simp add: entry_pk_def cutAfter_def distinct_map_filter)
    show "anchored cr priv ?t ?c (?H (?t, ?c)) [] 1 (anchorsOf ?t ?c (db_anchors ?db))"
      using okh anchored_cut [of cr priv t c "H (t, c)" "[]" 1 _ m] m len by (auto simp: cutAfter_def)
    show "checkpoint_ok cr priv ?db ?t ?c (?H (?t, ?c)) (P (?t, ?c))"
      using okh pm by (auto simp: checkpoint_ok_def cutAfter_def min_def split: option.splits)
  qed (use ok in \<open>auto simp: audit_chain_ok_def cutAfter_def sink_ok_def\<close>)
  then show ?thesis using h by (auto simp: runVerifyAudit_def verifyHeads_ok cutAfter_def)
qed

section \<open>An example\<close>

lemma demo_room:
  "seq_room demo_captured (length (db_pending demo_captured))"
  "seq_room (demo_anchored\<lparr>db_pending := [demo_pending 3 ''c'']\<rparr>) (length [demo_pending 3 ''c''])"
  subgoal by code_simp
  subgoal by code_simp
  done

lemma demo_run_anchored: "audit_run demo_crypto demo_marshal [1] [5] True demo_anchored"
proof -
  have "audit_run demo_crypto demo_marshal [1] [5] True demo_captured"
    by (rule run_empty) (simp_all add: demo_captured_def)
  from run_batch [OF this demo_room(1)] have "audit_run demo_crypto demo_marshal [1] [5] True demo_chained"
    unfolding demo_chained_def .
  from run_anchor [OF this] show ?thesis unfolding demo_anchored_def by simp
qed

lemma demo_run_later: "audit_run demo_crypto demo_marshal [1] [5] True demo_later"
  unfolding demo_later_def
  by (rule run_batch [OF run_capture [OF demo_run_anchored]]) (use demo_room(2) in simp)

lemma demo_registry:
  "KeyFor (NewKeyRegistry demo_crypto [[5]]) (KeyIDForPublic demo_crypto (cr_public demo_crypto [5])) =
     Some (cr_public demo_crypto [5])"
  by code_simp

lemma demo_last_anchor: "map an_ToSeq (anchorsOf 1 ''data'' (db_anchors demo_later)) = [2]"
  by code_simp

lemma demo_tip: "map_option hd_LastSeq (headOf 1 ''data'' (db_heads demo_later)) = Some 3"
  by code_simp


theorem cut_tail_passes_witness:
  "runVerifyAudit demo_crypto (\<lambda>_. False) (\<lambda>_. False) [1] True [[5]] (cutAfter 1 ''data'' 2 demo_later) = Inr False \<and>
   (\<exists>tip. headOf 1 ''data'' (db_heads (cutAfter 1 ''data'' 2 demo_later)) = Some tip \<and> hd_LastSeq tip = 3)"
proof -
  obtain tip where tip: "headOf 1 ''data'' (db_heads demo_later) = Some tip" "hd_LastSeq tip = 3" using demo_tip by auto
  have "\<forall>a \<in> set (anchorsOf 1 ''data'' (db_anchors demo_later)). an_ToSeq a \<le> int 2"
    using demo_last_anchor by (auto simp: map_eq_Cons_conv)
  from cut_tail_passes [OF demo_run_later demo_crypto_laws demo_registry this tip(1)] tip show ?thesis by simp
qed

end
