(* ===== verification/Session.thy ===== *)
theory Session
  imports Redis
begin

text \<open>
  Login sessions: \<open>pkg/session/manager.go\<close>. A session is one JSON value under \<open>namespace:id\<close> whose Redis
  expiry is the absolute timeout, and one member of the index set \<open>namespace:user:uid\<close>. The clock readings
  of an operation are arguments: \<open>now\<close> for the first, \<open>now1\<close> for the one \<open>save\<close> takes with its Redis write.
  The operations that change one field read the value and write it back in two commands, so that they are
  written here as a read and a \<open>save\<close> between which other requests may run.
\<close>

section \<open>Data\<close>

definition NamespaceConsole :: string where "NamespaceConsole = ''mxid:session:console''"
definition NamespacePortal :: string where "NamespacePortal = ''mxid:session:portal''"
definition NamespaceProtocol :: string where "NamespaceProtocol = ''mxid:session:protocol''"

record session =
  ss_ID :: string
  ss_UserID :: id
  ss_TenantID :: id
  ss_Namespace :: string
  ss_IP :: string
  ss_UserAgent :: string
  ss_AuthType :: string
  ss_MFAVerified :: bool
  ss_CreatedAt :: time
  ss_ExpiresAt :: time
  ss_LastActiveAt :: time
  ss_MFAVerifiedAt :: "time option"
  ss_MFAEnrollPending :: bool
  ss_PwdChangePending :: bool

definition StepUpFresh :: "session \<Rightarrow> time \<Rightarrow> dur \<Rightarrow> bool" where
  "StepUpFresh s now window =
     (case ss_MFAVerifiedAt s of
        None \<Rightarrow> False
      | Some at \<Rightarrow> if window \<le> 0 then False else now < at + window)"

text \<open>The manager; \<open>mg_policy\<close> is what the policy provider answers at the call.\<close>

record session_manager =
  mg_idleTimeout :: dur
  mg_absoluteTimeout :: dur
  mg_policy :: "(dur \<times> dur) option"
  mg_enrollDecider :: "(id \<Rightarrow> id \<Rightarrow> bool) option"
  mg_pwdDecider :: "(id \<Rightarrow> id \<Rightarrow> bool) option"

definition NewManager :: "dur \<Rightarrow> dur \<Rightarrow> session_manager" where
  "NewManager idleTimeout absoluteTimeout =
     \<lparr>mg_idleTimeout = idleTimeout, mg_absoluteTimeout = absoluteTimeout, mg_policy = None,
      mg_enrollDecider = None, mg_pwdDecider = None\<rparr>"

definition resolveTimeouts :: "session_manager \<Rightarrow> dur \<times> dur" where
  "resolveTimeouts m =
     (case mg_policy m of
        None \<Rightarrow> (mg_idleTimeout m, mg_absoluteTimeout m)
      | Some (pIdle, pAbs) \<Rightarrow>
          if 0 < pIdle \<and> 0 < pAbs then (pIdle, pAbs) else (mg_idleTimeout m, mg_absoluteTimeout m))"

definition sessionKey :: "string \<Rightarrow> string \<Rightarrow> string" where
  "sessionKey namespace sessionID = namespace @ '':'' @ sessionID"

definition userKey :: "string \<Rightarrow> id \<Rightarrow> string" where
  "userKey namespace userID = namespace @ '':user:'' @ FormatInt userID"

datatype session_error = ErrSessionGet | ErrSessionUnmarshal | ErrSessionSet | ErrSessionDel | ErrSessionList | ErrSessionScan

type_synonym 'r session_redis = "('r, session json) redis_sets"

section \<open>Operations\<close>

definition save :: "'r session_redis \<Rightarrow> time \<Rightarrow> session \<Rightarrow> 'r \<Rightarrow> (session_error + unit) \<times> 'r" where
  "save rd now sess r =
     (let ttl = ss_ExpiresAt sess - now
      in if ttl \<le> 0 then (Inr (), r)
         else case rd_set rd r now (sessionKey (ss_Namespace sess) (ss_ID sess)) (Json sess) ttl of
                (ok, r') \<Rightarrow> (if ok then Inr () else Inl ErrSessionSet, r'))"

text \<open>The session \<open>Create\<close> stores; \<open>newID\<close> is the fresh UUID.\<close>

definition newSession ::
  "session_manager \<Rightarrow> time \<Rightarrow> string \<Rightarrow> string \<Rightarrow> id \<Rightarrow> id \<Rightarrow> string \<Rightarrow> string \<Rightarrow> string \<Rightarrow> session" where
  "newSession m now newID namespace userID tenantID ip userAgent authType =
     \<lparr>ss_ID = newID, ss_UserID = userID, ss_TenantID = tenantID, ss_Namespace = namespace, ss_IP = ip,
      ss_UserAgent = userAgent, ss_AuthType = authType, ss_MFAVerified = False, ss_CreatedAt = now,
      ss_ExpiresAt = now + snd (resolveTimeouts m), ss_LastActiveAt = now, ss_MFAVerifiedAt = None,
      ss_MFAEnrollPending = (case mg_enrollDecider m of None \<Rightarrow> False | Some d \<Rightarrow> d tenantID userID),
      ss_PwdChangePending = (case mg_pwdDecider m of None \<Rightarrow> False | Some d \<Rightarrow> d tenantID userID)\<rparr>"

definition Create ::
  "'r session_redis \<Rightarrow> session_manager \<Rightarrow> time \<Rightarrow> time \<Rightarrow> string \<Rightarrow> string \<Rightarrow> id \<Rightarrow> id \<Rightarrow> string \<Rightarrow> string \<Rightarrow> string \<Rightarrow>
   'r \<Rightarrow> (session_error + session) \<times> 'r" where
  "Create rd m now now1 newID namespace userID tenantID ip userAgent authType r =
     (let sess = newSession m now newID namespace userID tenantID ip userAgent authType
      in case save rd now1 sess r of
           (Inl e, r1) \<Rightarrow> (Inl e, r1)
         | (Inr _, r1) \<Rightarrow>
             let r2 = snd (rd_sadd rd r1 now1 (userKey namespace userID) (ss_ID sess));
                 r3 = snd (rd_sexpire rd r2 now1 (userKey namespace userID) (snd (resolveTimeouts m)))
             in (Inr sess, r3))"

definition Delete :: "'r session_redis \<Rightarrow> time \<Rightarrow> string \<Rightarrow> string \<Rightarrow> 'r \<Rightarrow> (session_error + unit) \<times> 'r" where
  "Delete rd now namespace sessionID r =
     (case rd_del rd r now [sessionKey namespace sessionID] of
        (ok, r') \<Rightarrow> (if ok then Inr () else Inl ErrSessionDel, r'))"

text \<open>\<open>GET\<close> and \<open>json.Unmarshal\<close>, the first half of every operation on one session.\<close>

definition readSession :: "'r session_redis \<Rightarrow> time \<Rightarrow> string \<Rightarrow> string \<Rightarrow> 'r \<Rightarrow> session_error + session option" where
  "readSession rd now namespace sessionID r =
     (case rd_get rd r now (sessionKey namespace sessionID) of
        Inl _ \<Rightarrow> Inl ErrSessionGet
      | Inr None \<Rightarrow> Inr None
      | Inr (Some data) \<Rightarrow> (case Unmarshal data of None \<Rightarrow> Inl ErrSessionUnmarshal | Some sess \<Rightarrow> Inr (Some sess)))"

definition Get ::
  "'r session_redis \<Rightarrow> session_manager \<Rightarrow> time \<Rightarrow> string \<Rightarrow> string \<Rightarrow> 'r \<Rightarrow> (session_error + session option) \<times> 'r" where
  "Get rd m now namespace sessionID r =
     (case readSession rd now namespace sessionID r of
        Inl e \<Rightarrow> (Inl e, r)
      | Inr None \<Rightarrow> (Inr None, r)
      | Inr (Some sess) \<Rightarrow>
          if ss_ExpiresAt sess < now \<or> ss_LastActiveAt sess + fst (resolveTimeouts m) < now
          then (Inr None, snd (Delete rd now namespace sessionID r))
          else (Inr (Some sess), r))"

text \<open>The changes the read-modify-write operations make.\<close>

definition touched :: "time \<Rightarrow> session \<Rightarrow> session" where
  "touched now s = s\<lparr>ss_LastActiveAt := now\<rparr>"

definition mfaVerified :: "time \<Rightarrow> session \<Rightarrow> session" where
  "mfaVerified at s = s\<lparr>ss_MFAVerifiedAt := Some at\<rparr>"

definition enrollPending :: "bool \<Rightarrow> session \<Rightarrow> session" where
  "enrollPending pending s = s\<lparr>ss_MFAEnrollPending := pending\<rparr>"

definition pwdChangePending :: "bool \<Rightarrow> session \<Rightarrow> session" where
  "pwdChangePending pending s = s\<lparr>ss_PwdChangePending := pending\<rparr>"

definition rewrite ::
  "'r session_redis \<Rightarrow> (session \<Rightarrow> session) \<Rightarrow> time \<Rightarrow> time \<Rightarrow> string \<Rightarrow> string \<Rightarrow> 'r \<Rightarrow> (session_error + unit) \<times> 'r" where
  "rewrite rd f now now1 namespace sessionID r =
     (case readSession rd now namespace sessionID r of
        Inl e \<Rightarrow> (Inl e, r)
      | Inr None \<Rightarrow> (Inr (), r)
      | Inr (Some sess) \<Rightarrow> save rd now1 (f sess) r)"

definition Touch :: "'r session_redis \<Rightarrow> time \<Rightarrow> time \<Rightarrow> string \<Rightarrow> string \<Rightarrow> 'r \<Rightarrow> (session_error + unit) \<times> 'r" where
  "Touch rd now now1 namespace sessionID r = rewrite rd (touched now) now now1 namespace sessionID r"

definition MarkMFAVerified :: "'r session_redis \<Rightarrow> time \<Rightarrow> time \<Rightarrow> string \<Rightarrow> string \<Rightarrow> 'r \<Rightarrow> (session_error + unit) \<times> 'r" where
  "MarkMFAVerified rd now now1 namespace sessionID r = rewrite rd (mfaVerified now) now now1 namespace sessionID r"

text \<open>\<open>at\<close> is \<open>None\<close> for a nil pointer and for the zero time.\<close>

definition CarryMFAVerifiedAt ::
  "'r session_redis \<Rightarrow> time \<Rightarrow> time \<Rightarrow> string \<Rightarrow> string \<Rightarrow> time option \<Rightarrow> 'r \<Rightarrow> (session_error + unit) \<times> 'r" where
  "CarryMFAVerifiedAt rd now now1 namespace sessionID at r =
     (case at of None \<Rightarrow> (Inr (), r) | Some t \<Rightarrow> rewrite rd (mfaVerified t) now now1 namespace sessionID r)"

definition SetEnrollPending ::
  "'r session_redis \<Rightarrow> time \<Rightarrow> time \<Rightarrow> string \<Rightarrow> string \<Rightarrow> bool \<Rightarrow> 'r \<Rightarrow> (session_error + unit) \<times> 'r" where
  "SetEnrollPending rd now now1 namespace sessionID pending r =
     rewrite rd (enrollPending pending) now now1 namespace sessionID r"

definition SetPwdChangePending ::
  "'r session_redis \<Rightarrow> time \<Rightarrow> time \<Rightarrow> string \<Rightarrow> string \<Rightarrow> bool \<Rightarrow> 'r \<Rightarrow> (session_error + unit) \<times> 'r" where
  "SetPwdChangePending rd now now1 namespace sessionID pending r =
     rewrite rd (pwdChangePending pending) now now1 namespace sessionID r"

text \<open>The loop of \<open>ListByUser\<close> over the ids of the index.\<close>

fun listLoop ::
  "'r session_redis \<Rightarrow> session_manager \<Rightarrow> time \<Rightarrow> string \<Rightarrow> id \<Rightarrow> string list \<Rightarrow> session list \<Rightarrow> 'r \<Rightarrow> session list \<times> 'r" where
  "listLoop rd m now namespace userID [] sessions r = (sessions, r)"
| "listLoop rd m now namespace userID (i # ids) sessions r =
     (case Get rd m now namespace i r of
        (Inl _, r1) \<Rightarrow> listLoop rd m now namespace userID ids sessions r1
      | (Inr (Some sess), r1) \<Rightarrow> listLoop rd m now namespace userID ids (sessions @ [sess]) r1
      | (Inr None, r1) \<Rightarrow>
          listLoop rd m now namespace userID ids sessions (snd (rd_srem rd r1 now (userKey namespace userID) i)))"

definition ListByUser ::
  "'r session_redis \<Rightarrow> session_manager \<Rightarrow> time \<Rightarrow> string \<Rightarrow> id \<Rightarrow> 'r \<Rightarrow> (session_error + session list) \<times> 'r" where
  "ListByUser rd m now namespace userID r =
     (case rd_smembers rd r now (userKey namespace userID) of
        Inl _ \<Rightarrow> (Inl ErrSessionList, r)
      | Inr ids \<Rightarrow> (case listLoop rd m now namespace userID ids [] r of (sessions, r') \<Rightarrow> (Inr sessions, r')))"

definition DeleteAllByUser ::
  "'r session_redis \<Rightarrow> session_manager \<Rightarrow> time \<Rightarrow> string \<Rightarrow> id \<Rightarrow> 'r \<Rightarrow> (session_error + unit) \<times> 'r" where
  "DeleteAllByUser rd m now namespace userID r =
     (case ListByUser rd m now namespace userID r of
        (Inl e, r1) \<Rightarrow> (Inl e, r1)
      | (Inr sessions, r1) \<Rightarrow>
          let r2 = foldl (\<lambda>r s. snd (Delete rd now namespace (ss_ID s) r)) r1 sessions
          in case rd_sdel rd r2 now (userKey namespace userID) of
               (ok, r3) \<Rightarrow> (if ok then Inr () else Inl ErrSessionDel, r3))"

text \<open>\<open>CountActive\<close> over the replies of \<open>SCAN\<close>, which the server ends with cursor 0: a page of keys
  with the prefix of the namespace, or an error.\<close>

fun CountActive :: "string \<Rightarrow> (unit + string list) list \<Rightarrow> int \<Rightarrow> (session_error + unit) \<times> int" where
  "CountActive namespace [] count = (Inr (), count)"
| "CountActive namespace (Inl _ # pages) count = (Inl ErrSessionScan, count)"
| "CountActive namespace (Inr keys # pages) count =
     CountActive namespace pages
       (count + int (length (filter (\<lambda>k. \<not> HasPrefix k (namespace @ '':user:'')) keys)))"

end
