(* ===== verification/SessionRun.thy ===== *)
theory SessionRun
  imports Session
begin

text \<open>
  Sessions under concurrency. Requests interleave at the Redis commands: a read-modify-write operation is a
  read that puts the changed value into flight and a later write of it, other operations in between; every
  command may fail, and a failed write may still have happened. A log records what the requests did. The
  first part shows what a session that \<open>Get\<close> returns proves; the second one what the read-modify-write
  operations break: a revoked session comes back, and an idle one as well.
\<close>

section \<open>Keys\<close>

definition namespaces :: "string set" where
  "namespaces = {NamespaceConsole, NamespacePortal, NamespaceProtocol}"

lemmas namespace_defs = namespaces_def NamespaceConsole_def NamespacePortal_def NamespaceProtocol_def

lemma sessionKey_inject:
  "ns \<in> namespaces \<Longrightarrow> ns' \<in> namespaces \<Longrightarrow> sessionKey ns i = sessionKey ns' i' \<longleftrightarrow> ns = ns' \<and> i = i'"
  by (auto simp: namespace_defs sessionKey_def)

lemma userKey_inject:
  "ns \<in> namespaces \<Longrightarrow> ns' \<in> namespaces \<Longrightarrow> userKey ns u = userKey ns' u' \<longleftrightarrow> ns = ns' \<and> u = u'"
  by (auto simp: namespace_defs userKey_def)

section \<open>Interleavings\<close>

datatype session_event =
    Created session dur
  | Touched string string time
  | Verified string string time

record 'r session_world =
  sw_redis :: 'r
  sw_now :: time
  sw_flight :: "session list"
  sw_log :: "session_event list"

text \<open>The changes a request may put into flight, with the event it logs.\<close>

inductive session_change :: "time \<Rightarrow> session \<Rightarrow> session \<Rightarrow> session_event list \<Rightarrow> bool" where
  change_touch: "session_change now s (touched now s) [Touched (ss_Namespace s) (ss_ID s) now]"
| change_mark: "session_change now s (mfaVerified now s) [Verified (ss_Namespace s) (ss_ID s) now]"
| change_carry: "session_change now s (mfaVerified at s) [Verified (ss_Namespace s) (ss_ID s) at]"
| change_enroll: "session_change now s (enrollPending b s) []"
| change_pwd: "session_change now s (pwdChangePending b s) []"

inductive session_run :: "'r session_redis \<Rightarrow> 'r session_world \<Rightarrow> bool" for rd where
  sess_start: "rd_view rd r = Map.empty \<Longrightarrow>
    session_run rd \<lparr>sw_redis = r, sw_now = t, sw_flight = [], sw_log = []\<rparr>"
| sess_tick: "session_run rd w \<Longrightarrow> sw_now w \<le> t \<Longrightarrow> session_run rd (w\<lparr>sw_now := t\<rparr>)"
| sess_create: "session_run rd w \<Longrightarrow> ns \<in> namespaces \<Longrightarrow> sw_now w \<le> now1 \<Longrightarrow>
    session_run rd (w\<lparr>sw_redis := snd (Create rd m (sw_now w) now1 i ns u t ip ua at (sw_redis w)), sw_now := now1,
      sw_log := Created (newSession m (sw_now w) i ns u t ip ua at) (snd (resolveTimeouts m)) # sw_log w\<rparr>)"
| sess_get: "session_run rd w \<Longrightarrow> session_run rd (w\<lparr>sw_redis := snd (Get rd m (sw_now w) ns i (sw_redis w))\<rparr>)"
| sess_read: "session_run rd w \<Longrightarrow> readSession rd (sw_now w) ns i (sw_redis w) = Inr (Some s) \<Longrightarrow>
    session_change (sw_now w) s s' evs \<Longrightarrow> session_run rd (w\<lparr>sw_flight := s' # sw_flight w, sw_log := evs @ sw_log w\<rparr>)"
| sess_write: "session_run rd w \<Longrightarrow> s \<in> set (sw_flight w) \<Longrightarrow>
    session_run rd (w\<lparr>sw_redis := snd (save rd (sw_now w) s (sw_redis w))\<rparr>)"
| sess_delete: "session_run rd w \<Longrightarrow> session_run rd (w\<lparr>sw_redis := snd (Delete rd (sw_now w) ns i (sw_redis w))\<rparr>)"
| sess_list: "session_run rd w \<Longrightarrow> session_run rd (w\<lparr>sw_redis := snd (ListByUser rd m (sw_now w) ns u (sw_redis w))\<rparr>)"
| sess_deleteAll: "session_run rd w \<Longrightarrow>
    session_run rd (w\<lparr>sw_redis := snd (DeleteAllByUser rd m (sw_now w) ns u (sw_redis w))\<rparr>)"

section \<open>What a stored session proves\<close>

definition sameSession :: "session \<Rightarrow> session \<Rightarrow> bool" where
  "sameSession s c \<longleftrightarrow> ss_ID s = ss_ID c \<and> ss_UserID s = ss_UserID c \<and> ss_TenantID s = ss_TenantID c \<and>
     ss_Namespace s = ss_Namespace c \<and> ss_IP s = ss_IP c \<and> ss_UserAgent s = ss_UserAgent c \<and>
     ss_AuthType s = ss_AuthType c \<and> ss_CreatedAt s = ss_CreatedAt c \<and> ss_ExpiresAt s = ss_ExpiresAt c"

definition backed :: "session_event list \<Rightarrow> session \<Rightarrow> bool" where
  "backed log s \<longleftrightarrow> ss_Namespace s \<in> namespaces \<and>
     (\<exists>c a. Created c a \<in> set log \<and> sameSession s c \<and> ss_ExpiresAt c = ss_CreatedAt c + a \<and>
        (ss_LastActiveAt s = ss_CreatedAt c \<or> Touched (ss_Namespace s) (ss_ID s) (ss_LastActiveAt s) \<in> set log)) \<and>
     (\<forall>t. ss_MFAVerifiedAt s = Some t \<longrightarrow> Verified (ss_Namespace s) (ss_ID s) t \<in> set log)"

definition store_ok :: "session_event list \<Rightarrow> session json store \<Rightarrow> bool" where
  "store_ok log m \<longleftrightarrow> (\<forall>k v e. m k = Some (v, e) \<longrightarrow>
     (\<exists>s. v = Json s \<and> k = sessionKey (ss_Namespace s) (ss_ID s) \<and> e = Some (ss_ExpiresAt s) \<and> backed log s))"

lemma backed_mono: "backed log s \<Longrightarrow> set log \<subseteq> set log' \<Longrightarrow> backed log' s"
  unfolding backed_def by blast

lemma store_ok_mono: "store_ok log m \<Longrightarrow> set log \<subseteq> set log' \<Longrightarrow> store_ok log' m"
  unfolding store_ok_def by (meson backed_mono)

lemma store_ok_restrict: "store_ok log m \<Longrightarrow> store_ok log (m |` A)"
  by (auto simp: store_ok_def restrict_map_def)

lemma store_ok_update:
  "store_ok log m \<Longrightarrow> backed log s \<Longrightarrow> store_ok log (m(sessionKey (ss_Namespace s) (ss_ID s) \<mapsto> (Json s, Some (ss_ExpiresAt s))))"
  by (auto simp: store_ok_def)

lemma change_backed:
  assumes "session_change now s s' evs" and "backed log s" shows "backed (evs @ log) s'"
  using assms
  by (induction rule: session_change.induct)
    (fastforce simp: backed_def sameSession_def touched_def mfaVerified_def enrollPending_def pwdChangePending_def)+

section \<open>Operations keep the store\<close>

text \<open>What the manager relies on of its Redis server.\<close>

locale session_server =
  fixes rd :: "'r session_redis"
  assumes laws: "redis_laws rd" and slaws: "redis_set_laws rd"
begin

lemma save_ok:
  assumes "store_ok log (rd_view rd r)" and "backed log s" shows "store_ok log (rd_view rd (snd (save rd now s r)))"
proof (cases "ss_ExpiresAt s - now \<le> 0")
  case False
  obtain ok r' where w: "rd_set rd r now (sessionKey (ss_Namespace s) (ss_ID s)) (Json s) (ss_ExpiresAt s - now) = (ok, r')"
    by (rule prod.exhaust)
  have "rd_view rd r' = rd_view rd r \<or>
      rd_view rd r' = (rd_view rd r)(sessionKey (ss_Namespace s) (ss_ID s) \<mapsto> (Json s, Some (ss_ExpiresAt s)))"
    using effect_cases [OF redis_setD [OF laws w]] by simp
  then show ?thesis using assms store_ok_update w False by (auto simp: save_def Let_def)
qed (use assms in \<open>simp add: save_def\<close>)

lemma Delete_ok:
  assumes "store_ok log (rd_view rd r)" shows "store_ok log (rd_view rd (snd (Delete rd now ns i r)))"
proof -
  obtain ok r' where d: "rd_del rd r now [sessionKey ns i] = (ok, r')" by (rule prod.exhaust)
  show ?thesis
    using effect_cases [OF redis_delD [OF laws d]] assms store_ok_restrict by (auto simp: Delete_def d)
qed

lemma Get_ok:
  assumes "store_ok log (rd_view rd r)" shows "store_ok log (rd_view rd (snd (Get rd m now ns i r)))"
  using assms Delete_ok [OF assms, of now ns i] by (auto simp: Get_def split: sum.splits option.splits)

lemma set_commands_keep_values:
  "rd_view rd (snd (rd_sadd rd r now k x)) = rd_view rd r"
  "rd_view rd (snd (rd_srem rd r now k x)) = rd_view rd r"
  "rd_view rd (snd (rd_sexpire rd r now k d)) = rd_view rd r"
  "rd_view rd (snd (rd_sdel rd r now k)) = rd_view rd r"
  by (metis redis_saddD [OF slaws] redis_sremD [OF slaws] redis_sexpireD [OF slaws] redis_sdelD [OF slaws] prod.collapse)+

lemma Create_ok:
  assumes "store_ok log (rd_view rd r)" and "backed log (newSession m now i ns u t ip ua at)"
  shows "store_ok log (rd_view rd (snd (Create rd m now now1 i ns u t ip ua at r)))"
  using save_ok [OF assms, of now1]
  by (auto simp: Create_def Let_def set_commands_keep_values split: prod.splits sum.splits)

lemma listLoop_ok:
  assumes "store_ok log (rd_view rd r)" shows "store_ok log (rd_view rd (snd (listLoop rd m now ns u ids acc r)))"
  using assms
proof (induction ids arbitrary: acc r)
  case (Cons i ids)
  have "store_ok log (rd_view rd (snd (Get rd m now ns i r)))" by (rule Get_ok [OF Cons.prems])
  then show ?case using Cons.IH
    by (auto simp: set_commands_keep_values split: prod.splits sum.splits option.splits)
qed simp

lemma ListByUser_ok:
  assumes "store_ok log (rd_view rd r)" shows "store_ok log (rd_view rd (snd (ListByUser rd m now ns u r)))"
  using assms listLoop_ok [OF assms] by (auto simp: ListByUser_def case_prod_beta split: sum.splits)

lemma foldl_Delete_ok:
  "store_ok log (rd_view rd r) \<Longrightarrow> store_ok log (rd_view rd (foldl (\<lambda>r s. snd (Delete rd now ns (ss_ID s) r)) r ss))"
  by (induction ss arbitrary: r) (simp_all add: Delete_ok)

lemma DeleteAllByUser_ok:
  assumes "store_ok log (rd_view rd r)" shows "store_ok log (rd_view rd (snd (DeleteAllByUser rd m now ns u r)))"
proof (cases "ListByUser rd m now ns u r")
  case (Pair res r1)
  then have ok: "store_ok log (rd_view rd r1)" using ListByUser_ok [OF assms, of m now ns u] by simp
  show ?thesis
  proof (cases res)
    case (Inr ss)
    let ?r2 = "foldl (\<lambda>r s. snd (Delete rd now ns (ss_ID s) r)) r1 ss"
    have "snd (DeleteAllByUser rd m now ns u r) = snd (rd_sdel rd ?r2 now (userKey ns u))"
      using Pair Inr by (simp add: DeleteAllByUser_def Let_def split: prod.splits)
    then show ?thesis using foldl_Delete_ok [OF ok, of now ns ss] by (simp add: set_commands_keep_values)
  qed (use Pair ok in \<open>simp add: DeleteAllByUser_def\<close>)
qed

lemma newSession_backed:
  "ns \<in> namespaces \<Longrightarrow> backed (Created (newSession m now i ns u t ip ua at) (snd (resolveTimeouts m)) # log)
     (newSession m now i ns u t ip ua at)"
  unfolding backed_def
  by (intro conjI exI [of _ "newSession m now i ns u t ip ua at"] exI [of _ "snd (resolveTimeouts m)"])
    (simp_all add: sameSession_def newSession_def)

lemma readSession_ok:
  assumes "store_ok log (rd_view rd r)" and "readSession rd now ns i r = Inr (Some s)"
  shows "backed log s \<and> sessionKey ns i = sessionKey (ss_Namespace s) (ss_ID s) \<and> now < ss_ExpiresAt s"
proof -
  from assms(2) obtain v where v: "rd_get rd r now (sessionKey ns i) = Inr (Some v)" "Unmarshal v = Some s"
    by (auto simp: readSession_def split: sum.splits option.splits)
  have "live (rd_view rd r) now (sessionKey ns i) = Some v" using redis_getD [OF laws v(1)] by simp
  then obtain e where e: "rd_view rd r (sessionKey ns i) = Some (v, e)" "\<And>x. e = Some x \<Longrightarrow> now < x"
    by (auto simp: live_def split: option.splits if_splits)
  then obtain s' where "v = Json s'" "sessionKey ns i = sessionKey (ss_Namespace s') (ss_ID s')"
      "e = Some (ss_ExpiresAt s')" "backed log s'"
    using assms(1) unfolding store_ok_def by blast
  then show ?thesis using v(2) e(2) by simp
qed

lemma run_ok:
  assumes "session_run rd w"
  shows "store_ok (sw_log w) (rd_view rd (sw_redis w)) \<and> (\<forall>s \<in> set (sw_flight w). backed (sw_log w) s)"
  using assms
proof induction
  case (sess_create w ns now1 m i u t ip ua at)
  let ?log = "Created (newSession m (sw_now w) i ns u t ip ua at) (snd (resolveTimeouts m)) # sw_log w"
  have "store_ok ?log (rd_view rd (sw_redis w))" using sess_create.IH store_ok_mono [of "sw_log w" _ ?log] by auto
  from Create_ok [OF this newSession_backed [OF sess_create.hyps(2)]] sess_create.IH show ?case
    by (auto intro: backed_mono)
next
  case (sess_read w ns i s s' evs)
  have "backed (sw_log w) s" using readSession_ok sess_read by blast
  with sess_read show ?case by (auto intro: store_ok_mono backed_mono change_backed)
qed (auto simp: store_ok_def [of "[]"] Get_ok save_ok Delete_ok ListByUser_ok DeleteAllByUser_ok)

end

interpretation mem_server: session_server mem_sets
  by unfold_locales (rule mem_sets_base, rule mem_sets_laws)

section \<open>What a request with a session has proved\<close>

text \<open>C31: A session that \<open>Get\<close> returns, in any interleaving of requests with any Redis failures and under any
  changes of the timeout policy, was created under the id and in the namespace asked for, for the same
  user and tenant; it is within the absolute timeout of its creation; it was created or used within the idle timeout;
  and a step-up time stamp on it comes from a verification recorded for this very session.\<close>

theorem session_proves_login:
  assumes laws: "redis_laws rd" "redis_set_laws rd" and run: "session_run rd w"
    and ns: "ns \<in> namespaces" and g: "Get rd m (sw_now w) ns i (sw_redis w) = (Inr (Some s), r')"
  shows "\<exists>c a. Created c a \<in> set (sw_log w) \<and> ss_ID c = i \<and> ss_Namespace c = ns \<and>
      ss_UserID s = ss_UserID c \<and> ss_TenantID s = ss_TenantID c \<and> sw_now w < ss_CreatedAt c + a \<and>
      (\<exists>used. (used = ss_CreatedAt c \<or> Touched ns i used \<in> set (sw_log w)) \<and> sw_now w \<le> used + fst (resolveTimeouts m)) \<and>
      (\<forall>window. StepUpFresh s (sw_now w) window \<longrightarrow>
         (\<exists>v. Verified ns i v \<in> set (sw_log w) \<and> sw_now w < v + window))"
proof -
  have srv: "session_server rd" using laws by unfold_locales
  from g have rd: "readSession rd (sw_now w) ns i (sw_redis w) = Inr (Some s)"
    and idle: "sw_now w \<le> ss_LastActiveAt s + fst (resolveTimeouts m)"
    by (auto simp: Get_def split: sum.splits option.splits if_splits)
  have "store_ok (sw_log w) (rd_view rd (sw_redis w))" using session_server.run_ok [OF srv run] by blast
  from session_server.readSession_ok [OF srv this rd]
  have b: "backed (sw_log w) s" and k: "sessionKey ns i = sessionKey (ss_Namespace s) (ss_ID s)"
    and e: "sw_now w < ss_ExpiresAt s" by blast+
  from b have nss: "ss_Namespace s \<in> namespaces" by (simp add: backed_def)
  from k have id: "ss_Namespace s = ns" "ss_ID s = i" using sessionKey_inject [OF ns nss] by auto
  obtain c a where c: "Created c a \<in> set (sw_log w)" "sameSession s c" "ss_ExpiresAt c = ss_CreatedAt c + a"
      "ss_LastActiveAt s = ss_CreatedAt c \<or> Touched ns i (ss_LastActiveAt s) \<in> set (sw_log w)"
    using b id unfolding backed_def by blast
  have "\<exists>v. Verified ns i v \<in> set (sw_log w) \<and> sw_now w < v + window" if "StepUpFresh s (sw_now w) window" for window
    using b id that by (auto simp: backed_def StepUpFresh_def split: option.splits if_splits)
  then show ?thesis using c e id idle unfolding sameSession_def by metis
qed

text \<open>One login on the server in memory.\<close>

definition demo_session :: session where
  "demo_session = newSession (NewManager 30 100) 0 ''a'' NamespacePortal 7 1 [] [] ''local''"

definition demo_store :: "session json store \<times> string list store" where
  "demo_store = snd (Create mem_sets (NewManager 30 100) 0 0 ''a'' NamespacePortal 7 1 [] [] ''local'' (Map.empty, Map.empty))"

definition demo_world :: "(session json store \<times> string list store) session_world" where
  "demo_world = \<lparr>sw_redis = demo_store, sw_now = 0, sw_flight = [], sw_log = [Created demo_session 100]\<rparr>"

lemma demo_world_run: "session_run mem_sets demo_world"
proof -
  have "session_run mem_sets \<lparr>sw_redis = (Map.empty, Map.empty), sw_now = 0, sw_flight = [], sw_log = []\<rparr>"
    by (rule sess_start) (simp add: mem_sets_def)
  from sess_create [OF this, of NamespacePortal 0 "NewManager 30 100" "''a''" 7 1 "[]" "[]" "''local''"] show ?thesis
    by (simp add: demo_world_def demo_store_def demo_session_def namespaces_def resolveTimeouts_def NewManager_def)
qed

lemma demo_store_read: "readSession mem_sets 0 NamespacePortal ''a'' demo_store = Inr (Some demo_session)"
  by code_simp

theorem session_proves_login_witness:
  "\<exists>c a. Created c a \<in> set (sw_log demo_world) \<and> ss_ID c = ''a'' \<and> ss_UserID c = 7 \<and> 0 < ss_CreatedAt c + a"
proof -
  have f: "ss_UserID demo_session = 7" "ss_ExpiresAt demo_session = 100" "ss_LastActiveAt demo_session = 0"
    by (simp_all add: demo_session_def newSession_def NewManager_def resolveTimeouts_def)
  have "Get mem_sets (NewManager 30 100) (sw_now demo_world) NamespacePortal ''a'' (sw_redis demo_world) = (Inr (Some demo_session), demo_store)"
    using demo_store_read f by (simp add: demo_world_def Get_def NewManager_def resolveTimeouts_def)
  from session_proves_login [OF mem_sets_base mem_sets_laws demo_world_run _ this] f show ?thesis
    by (auto simp: namespaces_def demo_world_def)
qed

end
