(* ===== verification/SessionSpec.thy ===== *)
theory SessionSpec
  imports SessionRun
begin

text \<open>
  The contract of the session manager and that it keeps it. The specification is a map from namespace and id
  to the session, with no keys, no encodings and no index: \<open>DeleteAllByUser\<close> simply removes the sessions of
  the user. One request after the other, with a server that answers and a constant policy, the manager
  returns what the map returns. Without the constant policy the index of a user can expire before a session
  it lists, and then revoking the user misses that session.
\<close>

section \<open>The specification\<close>

type_synonym sessions = "string \<times> string \<rightharpoonup> session"

definition specRead :: "time \<Rightarrow> string \<times> string \<Rightarrow> sessions \<Rightarrow> session option" where
  "specRead now k A = (case A k of None \<Rightarrow> None | Some s \<Rightarrow> if now < ss_ExpiresAt s then Some s else None)"

definition idleExpired :: "session_manager \<Rightarrow> time \<Rightarrow> session \<Rightarrow> bool" where
  "idleExpired m now s \<longleftrightarrow> ss_LastActiveAt s + fst (resolveTimeouts m) < now"

definition specGet :: "session_manager \<Rightarrow> time \<Rightarrow> string \<times> string \<Rightarrow> sessions \<Rightarrow> session option \<times> sessions" where
  "specGet m now k A =
     (case specRead now k A of
        None \<Rightarrow> (None, A)
      | Some s \<Rightarrow> if idleExpired m now s then (None, A(k := None)) else (Some s, A))"

definition specSave :: "time \<Rightarrow> string \<times> string \<Rightarrow> session \<Rightarrow> sessions \<Rightarrow> sessions" where
  "specSave now k s A = (if now < ss_ExpiresAt s then A(k \<mapsto> s) else A)"

definition specRewrite :: "(session \<Rightarrow> session) \<Rightarrow> time \<Rightarrow> time \<Rightarrow> string \<times> string \<Rightarrow> sessions \<Rightarrow> sessions" where
  "specRewrite f now now1 k A = (case specRead now k A of None \<Rightarrow> A | Some s \<Rightarrow> specSave now1 k (f s) A)"

text \<open>The live sessions of a user, and the map without those that satisfy \<open>P\<close>.\<close>

definition userSessions :: "time \<Rightarrow> string \<Rightarrow> id \<Rightarrow> sessions \<Rightarrow> session set" where
  "userSessions now ns u A = {s. \<exists>i. A (ns, i) = Some s \<and> ss_UserID s = u \<and> now < ss_ExpiresAt s}"

definition without :: "time \<Rightarrow> string \<Rightarrow> id \<Rightarrow> (session \<Rightarrow> bool) \<Rightarrow> sessions \<Rightarrow> sessions" where
  "without now ns u P A = (\<lambda>k. case A k of None \<Rightarrow> None
     | Some s \<Rightarrow> if fst k = ns \<and> ss_UserID s = u \<and> now < ss_ExpiresAt s \<and> P s then None else Some s)"

section \<open>Requests\<close>

datatype session_op =
    OpCreate string string id id string string string
  | OpGet string string
  | OpTouch string string
  | OpMark string string
  | OpCarry string string "time option"
  | OpEnroll string string bool
  | OpPwd string string bool
  | OpDelete string string
  | OpList string id
  | OpDeleteAll string id

datatype session_out = OutSession "session option" | OutSessions "session set" | OutDone | OutError

definition outOf :: "('a \<Rightarrow> session_out) \<Rightarrow> (session_error + 'a) \<times> 'r \<Rightarrow> session_out \<times> 'r" where
  "outOf f p = (case p of (Inl _, r) \<Rightarrow> (OutError, r) | (Inr x, r) \<Rightarrow> (f x, r))"

fun sessStep :: "'r session_redis \<Rightarrow> session_manager \<Rightarrow> time \<Rightarrow> time \<Rightarrow> session_op \<Rightarrow> 'r \<Rightarrow> session_out \<times> 'r" where
  "sessStep rd m now now1 (OpCreate i ns u t ip ua at) r =
     outOf (\<lambda>s. OutSession (Some s)) (Create rd m now now1 i ns u t ip ua at r)"
| "sessStep rd m now now1 (OpGet ns i) r = outOf OutSession (Get rd m now ns i r)"
| "sessStep rd m now now1 (OpTouch ns i) r = outOf (\<lambda>_. OutDone) (Touch rd now now1 ns i r)"
| "sessStep rd m now now1 (OpMark ns i) r = outOf (\<lambda>_. OutDone) (MarkMFAVerified rd now now1 ns i r)"
| "sessStep rd m now now1 (OpCarry ns i at) r = outOf (\<lambda>_. OutDone) (CarryMFAVerifiedAt rd now now1 ns i at r)"
| "sessStep rd m now now1 (OpEnroll ns i b) r = outOf (\<lambda>_. OutDone) (SetEnrollPending rd now now1 ns i b r)"
| "sessStep rd m now now1 (OpPwd ns i b) r = outOf (\<lambda>_. OutDone) (SetPwdChangePending rd now now1 ns i b r)"
| "sessStep rd m now now1 (OpDelete ns i) r = outOf (\<lambda>_. OutDone) (Delete rd now ns i r)"
| "sessStep rd m now now1 (OpList ns u) r = outOf (\<lambda>ss. OutSessions (set ss)) (ListByUser rd m now ns u r)"
| "sessStep rd m now now1 (OpDeleteAll ns u) r = outOf (\<lambda>_. OutDone) (DeleteAllByUser rd m now ns u r)"

fun specStep :: "session_manager \<Rightarrow> time \<Rightarrow> time \<Rightarrow> session_op \<Rightarrow> sessions \<Rightarrow> session_out \<times> sessions" where
  "specStep m now now1 (OpCreate i ns u t ip ua at) A =
     (let s = newSession m now i ns u t ip ua at in (OutSession (Some s), specSave now1 (ns, i) s A))"
| "specStep m now now1 (OpGet ns i) A = (case specGet m now (ns, i) A of (s, A') \<Rightarrow> (OutSession s, A'))"
| "specStep m now now1 (OpTouch ns i) A = (OutDone, specRewrite (touched now) now now1 (ns, i) A)"
| "specStep m now now1 (OpMark ns i) A = (OutDone, specRewrite (mfaVerified now) now now1 (ns, i) A)"
| "specStep m now now1 (OpCarry ns i at) A =
     (OutDone, case at of None \<Rightarrow> A | Some t \<Rightarrow> specRewrite (mfaVerified t) now now1 (ns, i) A)"
| "specStep m now now1 (OpEnroll ns i b) A = (OutDone, specRewrite (enrollPending b) now now1 (ns, i) A)"
| "specStep m now now1 (OpPwd ns i b) A = (OutDone, specRewrite (pwdChangePending b) now now1 (ns, i) A)"
| "specStep m now now1 (OpDelete ns i) A = (OutDone, A((ns, i) := None))"
| "specStep m now now1 (OpList ns u) A =
     (OutSessions {s \<in> userSessions now ns u A. \<not> idleExpired m now s}, without now ns u (idleExpired m now) A)"
| "specStep m now now1 (OpDeleteAll ns u) A = (OutDone, without now ns u (\<lambda>_. True) A)"

fun sessRun :: "'r session_redis \<Rightarrow> session_manager \<Rightarrow> (time \<times> time \<times> session_op) list \<Rightarrow> 'r \<Rightarrow> session_out list" where
  "sessRun rd m [] r = []"
| "sessRun rd m ((now, now1, op) # ops) r = (case sessStep rd m now now1 op r of (out, r') \<Rightarrow> out # sessRun rd m ops r')"

fun specRun :: "session_manager \<Rightarrow> (time \<times> time \<times> session_op) list \<Rightarrow> sessions \<Rightarrow> session_out list" where
  "specRun m [] A = []"
| "specRun m ((now, now1, op) # ops) A = (case specStep m now now1 op A of (out, A') \<Rightarrow> out # specRun m ops A')"

text \<open>The clock does not run backwards, the namespaces are the three of the program, and a new id is new.\<close>

fun opNamespace :: "session_op \<Rightarrow> string" where
  "opNamespace (OpCreate i ns u t ip ua at) = ns"
| "opNamespace (OpGet ns i) = ns"
| "opNamespace (OpTouch ns i) = ns"
| "opNamespace (OpMark ns i) = ns"
| "opNamespace (OpCarry ns i at) = ns"
| "opNamespace (OpEnroll ns i b) = ns"
| "opNamespace (OpPwd ns i b) = ns"
| "opNamespace (OpDelete ns i) = ns"
| "opNamespace (OpList ns u) = ns"
| "opNamespace (OpDeleteAll ns u) = ns"

definition opOwner :: "session_op \<Rightarrow> (string \<times> string \<rightharpoonup> id) \<Rightarrow> (string \<times> string \<rightharpoonup> id)" where
  "opOwner op own = (case op of OpCreate i ns u t ip ua at \<Rightarrow> own((ns, i) \<mapsto> u) | _ \<Rightarrow> own)"

definition opFresh :: "session_op \<Rightarrow> (string \<times> string \<rightharpoonup> id) \<Rightarrow> bool" where
  "opFresh op own = (case op of OpCreate i ns u t ip ua at \<Rightarrow> own (ns, i) = None | _ \<Rightarrow> True)"

fun opsOk :: "time \<Rightarrow> (string \<times> string \<rightharpoonup> id) \<Rightarrow> (time \<times> time \<times> session_op) list \<Rightarrow> bool" where
  "opsOk t own [] = True"
| "opsOk t own ((now, now1, op) # ops) =
     (t \<le> now \<and> now \<le> now1 \<and> opNamespace op \<in> namespaces \<and> opFresh op own \<and> opsOk now1 (opOwner op own) ops)"

section \<open>The simulation\<close>

text \<open>A server that answers every command.\<close>

definition redis_up :: "('r, 'v, 'z) redis_sets_scheme \<Rightarrow> bool" where
  "redis_up rd \<longleftrightarrow> (\<forall>r now k. isOk (rd_get rd r now k)) \<and> (\<forall>r now k v d. fst (rd_set rd r now k v d)) \<and>
     (\<forall>r now ks. fst (rd_del rd r now ks)) \<and> (\<forall>r now k x. fst (rd_sadd rd r now k x)) \<and>
     (\<forall>r now k x. fst (rd_srem rd r now k x)) \<and> (\<forall>r now k. isOk (rd_smembers rd r now k)) \<and>
     (\<forall>r now k d. fst (rd_sexpire rd r now k d)) \<and> (\<forall>r now k. fst (rd_sdel rd r now k))"

definition values_rel :: "session json store \<Rightarrow> sessions \<Rightarrow> bool" where
  "values_rel v A \<longleftrightarrow> (\<forall>ns i. ns \<in> namespaces \<longrightarrow>
     v (sessionKey ns i) = map_option (\<lambda>s. (Json s, Some (ss_ExpiresAt s))) (A (ns, i)))"

definition sessions_wf :: "session_manager \<Rightarrow> time \<Rightarrow> (string \<times> string \<rightharpoonup> id) \<Rightarrow> sessions \<Rightarrow> bool" where
  "sessions_wf m t own A \<longleftrightarrow> (\<forall>ns i s. A (ns, i) = Some s \<longrightarrow> ns \<in> namespaces \<and> ss_Namespace s = ns \<and> ss_ID s = i \<and>
     own (ns, i) = Some (ss_UserID s) \<and> ss_ExpiresAt s \<le> t + snd (resolveTimeouts m))"

definition index_covers :: "time \<Rightarrow> string list store \<Rightarrow> sessions \<Rightarrow> bool" where
  "index_covers t ix A \<longleftrightarrow> (\<forall>ns i s. A (ns, i) = Some s \<longrightarrow> t < ss_ExpiresAt s \<longrightarrow>
     (\<exists>xs e. ix (userKey ns (ss_UserID s)) = Some (xs, Some e) \<and> i \<in> set xs \<and> ss_ExpiresAt s \<le> e))"

definition index_owned :: "(string \<times> string \<rightharpoonup> id) \<Rightarrow> string list store \<Rightarrow> bool" where
  "index_owned own ix \<longleftrightarrow> (\<forall>ns u xs e i. ns \<in> namespaces \<longrightarrow> ix (userKey ns u) = Some (xs, e) \<longrightarrow> i \<in> set xs \<longrightarrow>
     own (ns, i) = Some u)"

definition sess_rel ::
  "'r session_redis \<Rightarrow> session_manager \<Rightarrow> time \<Rightarrow> (string \<times> string \<rightharpoonup> id) \<Rightarrow> 'r \<Rightarrow> sessions \<Rightarrow> bool" where
  "sess_rel rd m t own r A \<longleftrightarrow> values_rel (rd_view rd r) A \<and> sessions_wf m t own A \<and>
     index_covers t (rd_sets rd r) A \<and> index_owned own (rd_sets rd r)"

text \<open>How the relation moves with the map.\<close>

lemma values_rel_update:
  "values_rel v A \<Longrightarrow> ns \<in> namespaces \<Longrightarrow> values_rel (v(sessionKey ns i \<mapsto> (Json s, Some (ss_ExpiresAt s)))) (A((ns, i) \<mapsto> s))"
  by (auto simp: values_rel_def sessionKey_inject)

lemma values_rel_delete:
  "values_rel v A \<Longrightarrow> ns \<in> namespaces \<Longrightarrow> values_rel (v(sessionKey ns i := None)) (A((ns, i) := None))"
  by (auto simp: values_rel_def sessionKey_inject)

lemma outOf_Inr: "fst p = Inr x \<Longrightarrow> outOf f p = (f x, snd p)"
  by (cases p) (simp add: outOf_def)

lemma map_leD: "A' \<subseteq>\<^sub>m A \<Longrightarrow> A' k = Some s \<Longrightarrow> A k = Some s"
  by (metis domI map_le_def)

lemma sessions_wf_mono: "sessions_wf m t own A \<Longrightarrow> t \<le> t' \<Longrightarrow> A' \<subseteq>\<^sub>m A \<Longrightarrow> sessions_wf m t' own A'"
  unfolding sessions_wf_def by (fastforce dest: map_leD)

lemma index_covers_mono: "index_covers t ix A \<Longrightarrow> t \<le> t' \<Longrightarrow> A' \<subseteq>\<^sub>m A \<Longrightarrow> index_covers t' ix A'"
  unfolding index_covers_def by (fastforce dest: map_leD)

lemma map_le_delete: "A(k := None) \<subseteq>\<^sub>m A"
  by (simp add: map_le_def)

lemma sess_rel_later: "sess_rel rd m t own r A \<Longrightarrow> t \<le> t' \<Longrightarrow> sess_rel rd m t' own r A"
  by (auto simp: sess_rel_def intro: sessions_wf_mono index_covers_mono)

text \<open>A change that leaves the identity and the expiry of a session alone.\<close>

definition keepsIdentity :: "(session \<Rightarrow> session) \<Rightarrow> bool" where
  "keepsIdentity f \<longleftrightarrow> (\<forall>s. ss_ID (f s) = ss_ID s \<and> ss_UserID (f s) = ss_UserID s \<and> ss_Namespace (f s) = ss_Namespace s \<and>
     ss_ExpiresAt (f s) = ss_ExpiresAt s)"

lemma changes_keep_identity [simp]:
  "keepsIdentity (touched t)" "keepsIdentity (mfaVerified t)" "keepsIdentity (enrollPending b)" "keepsIdentity (pwdChangePending b)"
  by (simp_all add: keepsIdentity_def touched_def mfaVerified_def enrollPending_def pwdChangePending_def)

lemma rel_change:
  assumes "sessions_wf m t own A" and "index_covers t ix A" and "A k = Some s" and "keepsIdentity f"
  shows "sessions_wf m t own (A(k \<mapsto> f s)) \<and> index_covers t ix (A(k \<mapsto> f s))"
  using assms by (cases k) (auto simp: sessions_wf_def index_covers_def keepsIdentity_def)

text \<open>The index after \<open>Create\<close>: the id is added, and the whole set lives for the absolute timeout from now.\<close>

definition indexed :: "string list store \<Rightarrow> time \<Rightarrow> string \<Rightarrow> string \<Rightarrow> string list" where
  "indexed ix now k x = (case live ix now k of None \<Rightarrow> [x] | Some xs \<Rightarrow> List.insert x xs)"

lemma index_add: "expire_store (sadd_store ix now k x) now k d = ix(k \<mapsto> (indexed ix now k x, Some (now + d)))"
  by (auto simp: expire_store_def sadd_store_def indexed_def live_def split: option.splits if_splits)

lemma index_create_covers:
  assumes wf: "sessions_wf m now own A" and ix: "index_covers now ix A" and ns: "ns \<in> namespaces" and le: "now \<le> now1"
    and a: "a = snd (resolveTimeouts m)" and s: "ss_UserID s = u" "ss_ExpiresAt s = now + a"
  shows "index_covers now1 (ix(userKey ns u \<mapsto> (indexed ix now1 (userKey ns u) i, Some (now1 + a)))) (A((ns, i) \<mapsto> s))"
  unfolding index_covers_def
proof (intro allI impI)
  let ?ix = "ix(userKey ns u \<mapsto> (indexed ix now1 (userKey ns u) i, Some (now1 + a)))"
  fix ns' j s' assume A': "(A((ns, i) \<mapsto> s)) (ns', j) = Some s'" and l: "now1 < ss_ExpiresAt s'"
  show "\<exists>xs e. ?ix (userKey ns' (ss_UserID s')) = Some (xs, Some e) \<and> j \<in> set xs \<and> ss_ExpiresAt s' \<le> e"
  proof (cases "(ns', j) = (ns, i)")
    case True
    then have "s' = s" using A' by simp
    then show ?thesis using True s le by (auto simp: indexed_def split: option.splits)
  next
    case False
    then have A: "A (ns', j) = Some s'" using A' by (simp split: if_splits)
    with wf have w: "ns' \<in> namespaces" "ss_ExpiresAt s' \<le> now + a" using a by (auto simp: sessions_wf_def)
    obtain xs e where c: "ix (userKey ns' (ss_UserID s')) = Some (xs, Some e)" "j \<in> set xs" "ss_ExpiresAt s' \<le> e"
      using ix A l le unfolding index_covers_def by fastforce
    show ?thesis
    proof (cases "userKey ns' (ss_UserID s') = userKey ns u")
      case True
      have "live ix now1 (userKey ns u) = Some xs" using c l True by (simp add: live_def)
      then show ?thesis using c True w le by (simp add: indexed_def)
    qed (use c in auto)
  qed
qed

lemma sessions_wf_create:
  assumes wf: "sessions_wf m t own A" and ns: "ns \<in> namespaces" and fresh: "own (ns, i) = None"
    and s: "ss_Namespace s = ns" "ss_ID s = i" "ss_UserID s = u" "ss_ExpiresAt s \<le> t + snd (resolveTimeouts m)"
  shows "sessions_wf m t (own((ns, i) \<mapsto> u)) (A((ns, i) \<mapsto> s))"
  unfolding sessions_wf_def
proof (intro allI impI)
  fix ns' j s' assume A': "(A((ns, i) \<mapsto> s)) (ns', j) = Some s'"
  show "ns' \<in> namespaces \<and> ss_Namespace s' = ns' \<and> ss_ID s' = j \<and> (own((ns, i) \<mapsto> u)) (ns', j) = Some (ss_UserID s') \<and>
      ss_ExpiresAt s' \<le> t + snd (resolveTimeouts m)"
  proof (cases "(ns', j) = (ns, i)")
    case False
    then have "A (ns', j) = Some s'" "(own((ns, i) \<mapsto> u)) (ns', j) = own (ns', j)" using A' by auto
    then show ?thesis using wf by (simp add: sessions_wf_def)
  qed (use A' ns s in simp)
qed

lemma index_create_owned:
  assumes o: "index_owned own ix" and ns: "ns \<in> namespaces" and fresh: "own (ns, i) = None"
  shows "index_owned (own((ns, i) \<mapsto> u)) (ix(userKey ns u \<mapsto> (indexed ix now (userKey ns u) i, e)))"
  unfolding index_owned_def
proof (intro allI impI)
  fix ns' u' xs e' j
  assume ns': "ns' \<in> namespaces" and x: "(ix(userKey ns u \<mapsto> (indexed ix now (userKey ns u) i, e))) (userKey ns' u') = Some (xs, e')"
    and j: "j \<in> set xs"
  have old: "own (ns', j) = Some u' \<and> (ns', j) \<noteq> (ns, i)" if "ix (userKey ns' u') = Some (ys, e'')" "j \<in> set ys" for ys e''
    using o ns' that fresh unfolding index_owned_def by fastforce
  show "(own((ns, i) \<mapsto> u)) (ns', j) = Some u'"
  proof (cases "userKey ns' u' = userKey ns u")
    case True
    then have eq: "ns' = ns" "u' = u" using userKey_inject [OF ns' ns] by auto
    show ?thesis
    proof (cases "j = i")
      case False
      with x j True obtain ys where "live ix now (userKey ns u) = Some ys" "j \<in> set ys"
        by (auto simp: indexed_def split: option.splits)
      then obtain e'' where "ix (userKey ns u) = Some (ys, e'')" by (auto simp: live_def split: option.splits if_splits)
      then show ?thesis using old [of ys e''] \<open>j \<in> set ys\<close> eq False by simp
    qed (use eq in simp)
  next
    case False
    then show ?thesis using old [of xs e'] x j by auto
  qed
qed

text \<open>A server that obeys its laws and answers: every command has exactly its documented effect.\<close>

locale live_server = session_server rd for rd :: "'r session_redis" +
  assumes up: "redis_up rd"
begin

lemma get_eq: "rd_get rd r now k = Inr (live (rd_view rd r) now k)"
proof -
  have "isOk (rd_get rd r now k)" using up by (simp add: redis_up_def)
  then obtain x where "rd_get rd r now k = Inr x" by (auto simp: isOk_def split: sum.splits)
  with redis_getD [OF laws this] show ?thesis by simp
qed

lemma up_writes:
  "rd_set rd r now k v d = (True, snd (rd_set rd r now k v d))"
  "rd_del rd r now ks = (True, snd (rd_del rd r now ks))"
  "rd_sadd rd r now k x = (True, snd (rd_sadd rd r now k x))"
  "rd_srem rd r now k x = (True, snd (rd_srem rd r now k x))"
  "rd_sexpire rd r now k d = (True, snd (rd_sexpire rd r now k d))"
  "rd_sdel rd r now k = (True, snd (rd_sdel rd r now k))"
  using up by (simp_all add: redis_up_def prod_eq_iff)

lemma values_eq:
  "rd_view rd (snd (rd_set rd r now k v d)) = (rd_view rd r)(k \<mapsto> (v, Some (now + d)))"
  "rd_sets rd (snd (rd_set rd r now k v d)) = rd_sets rd r"
  "rd_view rd (snd (rd_del rd r now ks)) = rd_view rd r |` (- set ks)"
  "rd_sets rd (snd (rd_del rd r now ks)) = rd_sets rd r"
  using redis_setD [OF laws up_writes(1)] redis_delD [OF laws up_writes(2)] redis_value_keeps_sets [OF slaws]
  by simp_all

lemma sets_eq:
  "rd_sets rd (snd (rd_sadd rd r now k x)) = sadd_store (rd_sets rd r) now k x"
  "rd_sets rd (snd (rd_srem rd r now k x)) = srem_store (rd_sets rd r) now k x"
  "rd_sets rd (snd (rd_sexpire rd r now k d)) = expire_store (rd_sets rd r) now k d"
  "rd_sets rd (snd (rd_sdel rd r now k)) = (rd_sets rd r)(k := None)"
  using redis_saddD [OF slaws up_writes(3)] redis_sremD [OF slaws up_writes(4)]
    redis_sexpireD [OF slaws up_writes(5)] redis_sdelD [OF slaws up_writes(6)] by simp_all

lemma up_fst:
  "fst (rd_set rd r now k v d)" "fst (rd_del rd r now ks)" "fst (rd_sdel rd r now k)"
  using up by (simp_all add: redis_up_def)

lemma smembers_eq:
  "\<exists>xs. rd_smembers rd r now k = Inr xs \<and>
     set xs = (case live (rd_sets rd r) now k of None \<Rightarrow> {} | Some ys \<Rightarrow> set ys)"
proof -
  have "isOk (rd_smembers rd r now k)" using up by (simp add: redis_up_def)
  then obtain xs where "rd_smembers rd r now k = Inr xs" by (auto simp: isOk_def split: sum.splits)
  with redis_smembersD [OF slaws this] show ?thesis by simp
qed

lemmas server_eqs = get_eq values_eq sets_eq up_fst set_commands_keep_values

lemma save_eq:
  "fst (save rd now s r) = Inr ()"
  "rd_view rd (snd (save rd now s r)) = (if now < ss_ExpiresAt s
     then (rd_view rd r)(sessionKey (ss_Namespace s) (ss_ID s) \<mapsto> (Json s, Some (ss_ExpiresAt s))) else rd_view rd r)"
  "rd_sets rd (snd (save rd now s r)) = rd_sets rd r"
  by (simp_all add: save_def Let_def case_prod_beta server_eqs)

lemma Delete_eq:
  "fst (Delete rd now ns i r) = Inr ()"
  "rd_view rd (snd (Delete rd now ns i r)) = (rd_view rd r)(sessionKey ns i := None)"
  "rd_sets rd (snd (Delete rd now ns i r)) = rd_sets rd r"
  by (auto simp: Delete_def case_prod_beta server_eqs restrict_map_def)

lemma readSession_eq:
  assumes "values_rel (rd_view rd r) A" and "ns \<in> namespaces"
  shows "readSession rd now ns i r = Inr (specRead now (ns, i) A)"
  using assms by (auto simp: readSession_def get_eq values_rel_def specRead_def live_def split: option.splits)

lemma Delete_rel:
  assumes rel: "sess_rel rd m now own r A" and ns: "ns \<in> namespaces"
  shows "sess_rel rd m now own (snd (Delete rd now ns i r)) (A((ns, i) := None))"
  using rel ns by (auto simp: sess_rel_def Delete_eq values_rel_delete
    intro: sessions_wf_mono [OF _ order_refl map_le_delete] index_covers_mono [OF _ order_refl map_le_delete])

lemma Get_refines:
  assumes rel: "sess_rel rd m now own r A" and ns: "ns \<in> namespaces"
  shows "fst (Get rd m now ns i r) = Inr (fst (specGet m now (ns, i) A)) \<and>
    sess_rel rd m now own (snd (Get rd m now ns i r)) (snd (specGet m now (ns, i) A)) \<and>
    rd_sets rd (snd (Get rd m now ns i r)) = rd_sets rd r"
proof -
  have v: "values_rel (rd_view rd r) A" using rel by (simp add: sess_rel_def)
  note read = readSession_eq [OF v ns, of now i]
  have del: "sess_rel rd m now own (snd (Delete rd now ns i r)) (A((ns, i) := None))" by (rule Delete_rel [OF rel ns])
  show ?thesis
  proof (cases "specRead now (ns, i) A")
    case (Some s)
    then have "\<not> ss_ExpiresAt s < now" by (auto simp: specRead_def split: option.splits if_splits)
    then show ?thesis using Some read rel del by (simp add: Get_def specGet_def idleExpired_def Delete_eq)
  qed (use read rel in \<open>simp add: Get_def specGet_def\<close>)
qed

lemma rewrite_refines:
  assumes rel: "sess_rel rd m now own r A" and ns: "ns \<in> namespaces" and f: "keepsIdentity f"
  shows "fst (rewrite rd f now now1 ns i r) = Inr () \<and>
    sess_rel rd m now own (snd (rewrite rd f now now1 ns i r)) (specRewrite f now now1 (ns, i) A)"
proof -
  have v: "values_rel (rd_view rd r) A" using rel by (simp add: sess_rel_def)
  note read = readSession_eq [OF v ns, of now i]
  show ?thesis
  proof (cases "specRead now (ns, i) A")
    case (Some s)
    then have A: "A (ns, i) = Some s" by (auto simp: specRead_def split: option.splits if_splits)
    with rel have "ss_Namespace s = ns" "ss_ID s = i" by (auto simp: sess_rel_def sessions_wf_def)
    then have n: "ss_Namespace (f s) = ns" "ss_ID (f s) = i" using f by (simp_all add: keepsIdentity_def)
    have wf: "sessions_wf m now own A" and ix: "index_covers now (rd_sets rd r) A" using rel by (simp_all add: sess_rel_def)
    have "sessions_wf m now own (A((ns, i) \<mapsto> f s)) \<and> index_covers now (rd_sets rd r) (A((ns, i) \<mapsto> f s))"
      by (rule rel_change [OF wf ix A f])
    then show ?thesis using Some read rel n values_rel_update [OF v ns, of i "f s"]
      by (auto simp: rewrite_def specRewrite_def specSave_def save_eq sess_rel_def)
  qed (use read rel in \<open>simp add: rewrite_def specRewrite_def\<close>)
qed

lemma Create_refines:
  assumes rel: "sess_rel rd m now own r A" and ns: "ns \<in> namespaces" and le: "now \<le> now1" and fresh: "own (ns, i) = None"
  shows "fst (Create rd m now now1 i ns u t ip ua at r) = Inr (newSession m now i ns u t ip ua at) \<and>
    sess_rel rd m now1 (own((ns, i) \<mapsto> u)) (snd (Create rd m now now1 i ns u t ip ua at r))
      (specSave now1 (ns, i) (newSession m now i ns u t ip ua at) A)"
proof -
  let ?s = "newSession m now i ns u t ip ua at" and ?a = "snd (resolveTimeouts m)"
  let ?r = "snd (Create rd m now now1 i ns u t ip ua at r)" and ?uk = "userKey ns u"
  have n: "ss_Namespace ?s = ns" "ss_ID ?s = i" "ss_UserID ?s = u" "ss_ExpiresAt ?s = now + ?a"
    by (simp_all add: newSession_def)
  obtain r1 where r1: "save rd now1 ?s r = (Inr (), r1)" using save_eq(1) [of now1 ?s r] by (cases "save rd now1 ?s r") simp
  note sv = save_eq(2,3) [of now1 ?s r, unfolded r1 snd_conv]
  have c: "fst (Create rd m now now1 i ns u t ip ua at r) = Inr ?s"
    and v: "rd_view rd ?r = rd_view rd r1"
    and x: "rd_sets rd ?r = (rd_sets rd r)(?uk \<mapsto> (indexed (rd_sets rd r) now1 ?uk i, Some (now1 + ?a)))"
    using r1 sv n by (simp_all add: Create_def Let_def server_eqs index_add)
  have parts: "values_rel (rd_view rd r) A" "sessions_wf m now own A" "index_covers now (rd_sets rd r) A" "index_owned own (rd_sets rd r)"
    using rel by (simp_all add: sess_rel_def)
  have none: "A (ns, i) = None" using parts(2) fresh by (cases "A (ns, i)") (auto simp: sessions_wf_def)
  have wf: "sessions_wf m now1 (own((ns, i) \<mapsto> u)) (A((ns, i) \<mapsto> ?s))"
    by (rule sessions_wf_create [OF sessions_wf_mono [OF parts(2) le map_le_refl] ns fresh n(1,2,3)]) (use n(4) le in simp)
  have cov: "index_covers now1 (rd_sets rd ?r) (A((ns, i) \<mapsto> ?s))"
    unfolding x by (rule index_create_covers [OF parts(2,3) ns le refl n(3,4)])
  have "A \<subseteq>\<^sub>m A((ns, i) \<mapsto> ?s)" using none by (auto simp: map_le_def)
  note old = index_covers_mono [OF cov order_refl this] sessions_wf_mono [OF wf order_refl this]
  have own: "index_owned (own((ns, i) \<mapsto> u)) (rd_sets rd ?r)"
    unfolding x by (rule index_create_owned [OF parts(4) ns fresh])
  have "values_rel (rd_view rd ?r) (specSave now1 (ns, i) ?s A)"
    using parts(1) values_rel_update [OF parts(1) ns, of i ?s] sv n by (simp add: v specSave_def)
  then show ?thesis using c wf cov old own by (auto simp: sess_rel_def specSave_def)
qed

lemma srem_rel:
  assumes rel: "sess_rel rd m now own r A" and "specRead now (ns, i) A = None" and ns: "ns \<in> namespaces"
  shows "sess_rel rd m now own (snd (rd_srem rd r now (userKey ns u) i)) A"
proof -
  let ?ix = "rd_sets rd r" and ?ix' = "srem_store (rd_sets rd r) now (userKey ns u) i"
  have old: "\<exists>ys. ?ix k = Some (ys, e) \<and> set xs \<subseteq> set ys" if "?ix' k = Some (xs, e)" for k xs e
    using that by (auto simp: srem_store_def live_def split: option.splits if_splits)
  have "index_owned own ?ix" using rel by (simp add: sess_rel_def)
  then have "index_owned own ?ix'" unfolding index_owned_def by (meson old subsetD)
  moreover have "index_covers now ?ix' A"
    unfolding index_covers_def
  proof (intro allI impI)
    fix ns' j s assume A: "A (ns', j) = Some s" and l: "now < ss_ExpiresAt s"
    with assms have ne: "(ns', j) \<noteq> (ns, i)" and ns': "ns' \<in> namespaces"
      by (auto simp: specRead_def sess_rel_def sessions_wf_def)
    from rel A l obtain xs e where x: "?ix (userKey ns' (ss_UserID s)) = Some (xs, Some e)" "j \<in> set xs" "ss_ExpiresAt s \<le> e"
      unfolding sess_rel_def index_covers_def by blast
    show "\<exists>xs e. ?ix' (userKey ns' (ss_UserID s)) = Some (xs, Some e) \<and> j \<in> set xs \<and> ss_ExpiresAt s \<le> e"
    proof (cases "userKey ns' (ss_UserID s) = userKey ns u")
      case True
      then have "ns' = ns" using userKey_inject [OF ns' ns] by blast
      then show ?thesis using x l ne True by (auto simp: srem_store_def live_def)
    next
      case False
      then show ?thesis using x by (auto simp: srem_store_def split: option.splits)
    qed
  qed
  ultimately show ?thesis using rel by (simp add: sess_rel_def server_eqs)
qed

text \<open>The map after the loop over \<open>ids\<close>, and what the loop returns.\<close>

lemma listLoop_refines:
  assumes "sess_rel rd m now own r A" and ns: "ns \<in> namespaces"
  shows "\<exists>ss A'. fst (listLoop rd m now ns u ids acc r) = acc @ ss \<and>
    sess_rel rd m now own (snd (listLoop rd m now ns u ids acc r)) A' \<and>
    set ss = {s. \<exists>i \<in> set ids. specRead now (ns, i) A = Some s \<and> \<not> idleExpired m now s} \<and>
    A' = (\<lambda>k. if fst k = ns \<and> snd k \<in> set ids \<and> (\<exists>s. specRead now k A = Some s \<and> idleExpired m now s) then None else A k)"
  using assms(1)
proof (induction ids arbitrary: acc r A)
  case Nil
  then show ?case by (intro exI [of _ "[]"] exI [of _ A]) auto
next
  case (Cons i ids)
  obtain g r1 where G: "Get rd m now ns i r = (g, r1)" by (rule prod.exhaust)
  obtain o1 A1 where S: "specGet m now (ns, i) A = (o1, A1)" by (rule prod.exhaust)
  from Get_refines [OF Cons.prems ns, of i] have g: "g = Inr o1" and rel1: "sess_rel rd m now own r1 A1"
    by (simp_all add: G S)
  have A1: "A1 = (if \<exists>s. specRead now (ns, i) A = Some s \<and> idleExpired m now s then A((ns, i) := None) else A)"
    and o1: "o1 = (case specRead now (ns, i) A of None \<Rightarrow> None | Some s \<Rightarrow> if idleExpired m now s then None else Some s)"
    using S by (auto simp: specGet_def split: option.splits if_splits)
  have keep: "specRead now k A1 = Some s \<longleftrightarrow> specRead now k A = Some s" if "\<not> idleExpired m now s" for k s
    using that unfolding A1 by (auto simp: specRead_def split: option.splits if_splits)
  have idle: "(\<exists>s. specRead now k A1 = Some s \<and> idleExpired m now s) \<longleftrightarrow>
      k \<noteq> (ns, i) \<and> (\<exists>s. specRead now k A = Some s \<and> idleExpired m now s)" for k
    unfolding A1 by (auto simp: specRead_def split: option.splits if_splits)
  let ?fin = "\<lambda>ids A k. if fst k = ns \<and> snd k \<in> set ids \<and> (\<exists>s. specRead now k A = Some s \<and> idleExpired m now s) then None else A k"
  have fin: "?fin ids A1 = ?fin (i # ids) A"
  proof (rule ext)
    fix k :: "string \<times> string" show "?fin ids A1 k = ?fin (i # ids) A k"
      unfolding idle by (cases "k = (ns, i)") (auto simp: A1)
  qed
  let ?ret = "\<lambda>ids A. {s. \<exists>i \<in> set ids. specRead now (ns, i) A = Some s \<and> \<not> idleExpired m now s}"
  have ret: "?ret (i # ids) A = set_option o1 \<union> ?ret ids A1"
    using keep by (auto simp: o1 split: option.splits if_splits)
  show ?case
  proof (cases o1)
    case None
    then have "specRead now (ns, i) A1 = None"
      using o1 by (auto simp: A1 specRead_def split: option.splits if_splits)
    from Cons.IH [OF srem_rel [OF rel1 this ns], of acc] show ?thesis
      using G g None fin ret by simp
  next
    case (Some s)
    from Cons.IH [OF rel1, of "acc @ [s]"] obtain ss A' where
      ih: "fst (listLoop rd m now ns u ids (acc @ [s]) r1) = (acc @ [s]) @ ss"
        "sess_rel rd m now own (snd (listLoop rd m now ns u ids (acc @ [s]) r1)) A'" "set ss = ?ret ids A1" "A' = ?fin ids A1"
      by blast
    show ?thesis
      by (rule exI [of _ "s # ss"], rule exI [of _ A']) (use ih G g Some fin ret in simp)
  qed
qed

lemma index_exact:
  assumes rel: "sess_rel rd m now own r A" and ns: "ns \<in> namespaces" and s: "specRead now (ns, i) A = Some s"
    and ids: "set ids = (case live (rd_sets rd r) now (userKey ns u) of None \<Rightarrow> {} | Some ys \<Rightarrow> set ys)"
  shows "i \<in> set ids \<longleftrightarrow> ss_UserID s = u"
proof -
  have A: "A (ns, i) = Some s" "now < ss_ExpiresAt s" using s by (auto simp: specRead_def split: option.splits if_splits)
  then have own: "own (ns, i) = Some (ss_UserID s)" using rel by (auto simp: sess_rel_def sessions_wf_def)
  show ?thesis
  proof
    assume "i \<in> set ids"
    then obtain ys e where "rd_sets rd r (userKey ns u) = Some (ys, e)" "i \<in> set ys"
      using ids by (auto simp: live_def split: option.splits if_splits)
    then show "ss_UserID s = u" using rel ns own unfolding sess_rel_def index_owned_def by fastforce
  next
    assume u: "ss_UserID s = u"
    obtain xs e where "rd_sets rd r (userKey ns u) = Some (xs, Some e)" "i \<in> set xs" "ss_ExpiresAt s \<le> e"
      using rel A u unfolding sess_rel_def index_covers_def by blast
    then show "i \<in> set ids" using ids A(2) by (simp add: live_def)
  qed
qed

lemma ListByUser_refines:
  assumes rel: "sess_rel rd m now own r A" and ns: "ns \<in> namespaces"
  shows "\<exists>ss. fst (ListByUser rd m now ns u r) = Inr ss \<and> set ss = {s \<in> userSessions now ns u A. \<not> idleExpired m now s} \<and>
    sess_rel rd m now own (snd (ListByUser rd m now ns u r)) (without now ns u (idleExpired m now) A)"
proof -
  obtain ids where ids: "rd_smembers rd r now (userKey ns u) = Inr ids"
      "set ids = (case live (rd_sets rd r) now (userKey ns u) of None \<Rightarrow> {} | Some ys \<Rightarrow> set ys)"
    using smembers_eq by blast
  note ex = index_exact [OF rel ns _ ids(2)]
  let ?A = "\<lambda>k. if fst k = ns \<and> snd k \<in> set ids \<and> (\<exists>s. specRead now k A = Some s \<and> idleExpired m now s) then None else A k"
  have fin: "?A = without now ns u (idleExpired m now) A"
  proof (rule ext)
    fix k :: "string \<times> string"
    show "?A k = without now ns u (idleExpired m now) A k"
    proof (cases "fst k = ns \<and> (\<exists>s. specRead now k A = Some s)")
      case True
      then obtain i s where k: "k = (ns, i)" "specRead now (ns, i) A = Some s" by (cases k) auto
      then have "A k = Some s" "now < ss_ExpiresAt s" by (auto simp: specRead_def split: option.splits if_splits)
      then show ?thesis using k ex [OF k(2)] by (simp add: without_def)
    next
      case False
      then show ?thesis by (cases k) (auto simp: without_def specRead_def split: option.splits)
    qed
  qed
  have ret: "{s. \<exists>i \<in> set ids. specRead now (ns, i) A = Some s \<and> \<not> idleExpired m now s} =
      {s \<in> userSessions now ns u A. \<not> idleExpired m now s}"
    using ex by (fastforce simp: userSessions_def specRead_def split: option.splits if_splits)
  from listLoop_refines [OF rel ns, of u ids "[]"] show ?thesis
    unfolding ret fin using ids(1) by (auto simp: ListByUser_def case_prod_beta)
qed

lemma foldl_Delete_rel:
  assumes "sess_rel rd m now own r A" and ns: "ns \<in> namespaces"
  shows "sess_rel rd m now own (foldl (\<lambda>r s. snd (Delete rd now ns (ss_ID s) r)) r ss)
    (\<lambda>k. if fst k = ns \<and> snd k \<in> ss_ID ` set ss then None else A k)"
  using assms(1)
proof (induction ss arbitrary: r A)
  case (Cons s ss)
  have "sess_rel rd m now own (snd (Delete rd now ns (ss_ID s) r)) (A((ns, ss_ID s) := None))"
    by (rule Delete_rel [OF Cons.prems ns])
  from Cons.IH [OF this] show ?case
    by (simp add: fun_upd_def) (erule back_subst [where P = "sess_rel rd m now own _"]; auto)
qed simp

lemma DeleteAllByUser_refines:
  assumes rel: "sess_rel rd m now own r A" and ns: "ns \<in> namespaces"
  shows "fst (DeleteAllByUser rd m now ns u r) = Inr () \<and>
    sess_rel rd m now own (snd (DeleteAllByUser rd m now ns u r)) (without now ns u (\<lambda>_. True) A)"
proof -
  obtain ss r1 where l: "ListByUser rd m now ns u r = (Inr ss, r1)"
      "set ss = {s \<in> userSessions now ns u A. \<not> idleExpired m now s}"
      "sess_rel rd m now own r1 (without now ns u (idleExpired m now) A)"
    using ListByUser_refines [OF rel ns, of u] by (metis prod.collapse)
  let ?r2 = "foldl (\<lambda>r s. snd (Delete rd now ns (ss_ID s) r)) r1 ss"
  let ?A = "\<lambda>k. if fst k = ns \<and> snd k \<in> ss_ID ` set ss then None else without now ns u (idleExpired m now) A k"
  have wf: "\<And>i s. A (ns, i) = Some s \<Longrightarrow> ss_ID s = i" using rel by (auto simp: sess_rel_def sessions_wf_def)
  have A: "?A = without now ns u (\<lambda>_. True) A"
  proof (rule ext)
    fix k :: "string \<times> string"
    show "?A k = without now ns u (\<lambda>_. True) A k"
    proof (cases "A k")
      case (Some s)
      have "snd k \<in> ss_ID ` set ss \<longleftrightarrow> ss_UserID s = u \<and> now < ss_ExpiresAt s \<and> \<not> idleExpired m now s" if "fst k = ns"
      proof -
        have k: "A (ns, snd k) = Some s" using Some that by (cases k) simp
        then have "ss_ID s = snd k" by (rule wf)
        then show ?thesis using k wf by (auto simp: l(2) userSessions_def image_iff)
      qed
      then show ?thesis using Some by (auto simp: without_def)
    qed (simp add: without_def)
  qed
  have rel2: "sess_rel rd m now own ?r2 (without now ns u (\<lambda>_. True) A)"
    using foldl_Delete_rel [OF l(3) ns, of ss] unfolding A .
  have gone: "ss_UserID s \<noteq> u" if "without now ns u (\<lambda>_. True) A (ns, i) = Some s" "now < ss_ExpiresAt s" for i s
    using that by (auto simp: without_def split: option.splits if_splits)
  have "index_covers now ((rd_sets rd ?r2)(userKey ns u := None)) (without now ns u (\<lambda>_. True) A)"
    unfolding index_covers_def
  proof (intro allI impI)
    fix ns' j s assume s: "without now ns u (\<lambda>_. True) A (ns', j) = Some s" "now < ss_ExpiresAt s"
    with rel2 have "ns' \<in> namespaces" by (auto simp: sess_rel_def sessions_wf_def)
    then have "userKey ns' (ss_UserID s) \<noteq> userKey ns u" using userKey_inject [OF _ ns] gone s by blast
    then show "\<exists>xs e. ((rd_sets rd ?r2)(userKey ns u := None)) (userKey ns' (ss_UserID s)) = Some (xs, Some e) \<and>
        j \<in> set xs \<and> ss_ExpiresAt s \<le> e"
      using rel2 s unfolding sess_rel_def index_covers_def by simp
  qed
  moreover have "index_owned own ((rd_sets rd ?r2)(userKey ns u := None))"
    using rel2 by (auto simp: sess_rel_def index_owned_def split: if_splits)
  ultimately have "sess_rel rd m now own (snd (rd_sdel rd ?r2 now (userKey ns u))) (without now ns u (\<lambda>_. True) A)"
    using rel2 by (simp add: sess_rel_def server_eqs)
  then show ?thesis using l(1) by (simp add: DeleteAllByUser_def Let_def case_prod_beta server_eqs)
qed

lemma step_refines:
  assumes rel: "sess_rel rd m now own r A" and le: "now \<le> now1" and ns: "opNamespace op \<in> namespaces" and fresh: "opFresh op own"
  shows "fst (sessStep rd m now now1 op r) = fst (specStep m now now1 op A) \<and>
    sess_rel rd m now1 (opOwner op own) (snd (sessStep rd m now now1 op r)) (snd (specStep m now now1 op A))"
proof -
  have later: "sess_rel rd m now own' r' A' \<Longrightarrow> sess_rel rd m now1 own' r' A'" for own' r' A' by (rule sess_rel_later [OF _ le])
  have rw: "fst (outOf (\<lambda>_. OutDone) (rewrite rd f now now1 ns' i r)) = OutDone \<and>
      sess_rel rd m now1 own (snd (outOf (\<lambda>_. OutDone) (rewrite rd f now now1 ns' i r))) (specRewrite f now now1 (ns', i) A)"
    if "ns' \<in> namespaces" "keepsIdentity f" for f ns' i
    using rewrite_refines [OF rel that, of now1 i] by (auto simp: outOf_Inr intro: later)
  show ?thesis
  proof (cases op)
    case (OpCreate i ns' u t ip ua at)
    then show ?thesis using Create_refines [OF rel _ le, of ns' i u t ip ua at] ns fresh
      by (auto simp: opOwner_def opFresh_def Let_def outOf_Inr)
  next
    case (OpGet ns' i)
    then show ?thesis using Get_refines [OF rel, of ns' i] ns by (auto simp: opOwner_def case_prod_beta outOf_Inr intro: later)
  next
    case (OpDelete ns' i)
    have "sess_rel rd m now own (snd (Delete rd now ns' i r)) (A((ns', i) := None))"
      using Delete_rel [OF rel, of ns' i] ns OpDelete by simp
    then show ?thesis using OpDelete by (auto simp: opOwner_def Delete_eq outOf_Inr intro: later)
  next
    case (OpList ns' u)
    then show ?thesis using ListByUser_refines [OF rel, of ns' u] ns by (auto simp: opOwner_def outOf_Inr intro: later)
  next
    case (OpDeleteAll ns' u)
    then show ?thesis using DeleteAllByUser_refines [OF rel, of ns' u] ns by (auto simp: opOwner_def outOf_Inr intro: later)
  qed (use ns rw later [OF rel] in \<open>auto simp: opOwner_def Touch_def MarkMFAVerified_def CarryMFAVerifiedAt_def
      SetEnrollPending_def SetPwdChangePending_def outOf_Inr split: option.splits\<close>)
qed

lemma run_refines:
  assumes "sess_rel rd m t own r A" and "opsOk t own ops" shows "sessRun rd m ops r = specRun m ops A"
  using assms
proof (induction ops arbitrary: t own r A)
  case (Cons x ops)
  obtain now now1 op where x: "x = (now, now1, op)" by (cases x)
  with Cons.prems have ok: "t \<le> now" "now \<le> now1" "opNamespace op \<in> namespaces" "opFresh op own" "opsOk now1 (opOwner op own) ops"
    by simp_all
  from step_refines [OF sess_rel_later [OF Cons.prems(1) ok(1)] ok(2,3,4)] Cons.IH [OF _ ok(5)] show ?case
    by (simp add: x case_prod_beta)
qed simp

lemma DeleteAllByUser_index: "rd_sets rd (snd (DeleteAllByUser rd m now ns u r)) (userKey ns u) = None"
proof -
  obtain ids where "rd_smembers rd r now (userKey ns u) = Inr ids" using smembers_eq by blast
  then show ?thesis by (simp add: DeleteAllByUser_def ListByUser_def Let_def case_prod_beta server_eqs)
qed

lemma DeleteAllByUser_unindexed:
  assumes "live (rd_sets rd r) now (userKey ns u) = None"
  shows "fst (DeleteAllByUser rd m now ns u r) = Inr ()" "rd_view rd (snd (DeleteAllByUser rd m now ns u r)) = rd_view rd r"
proof -
  have "rd_smembers rd r now (userKey ns u) = Inr []"
    using smembers_eq [of r now "userKey ns u"] assms by auto
  then show "fst (DeleteAllByUser rd m now ns u r) = Inr ()" "rd_view rd (snd (DeleteAllByUser rd m now ns u r)) = rd_view rd r"
    by (simp_all add: DeleteAllByUser_def ListByUser_def Let_def case_prod_beta server_eqs)
qed

lemma saved_is_returned:
  assumes "rd_view rd r' = rd_view rd (snd (save rd now s r))" and "now < ss_ExpiresAt s"
    and "now \<le> ss_LastActiveAt s + fst (resolveTimeouts m)"
  shows "fst (Get rd m now (ss_Namespace s) (ss_ID s) r') = Inr (Some s)"
  using assms by (simp add: Get_def readSession_def get_eq save_eq live_def)

end

lemma mem_sets_up: "redis_up mem_sets"
  by (simp add: redis_up_def mem_sets_def isOk_def)

interpretation live_mem: live_server mem_sets
  by unfold_locales (rule mem_sets_up)

section \<open>The contract\<close>


definition demo_ops :: "(time \<times> time \<times> session_op) list" where
  "demo_ops = [(0, 1, OpCreate ''a'' NamespacePortal 7 1 [] [] ''local''), (2, 2, OpCreate ''b'' NamespacePortal 7 1 [] [] ''sms''),
     (25, 26, OpTouch NamespacePortal ''a''), (40, 40, OpList NamespacePortal 7), (41, 41, OpDeleteAll NamespacePortal 7),
     (42, 42, OpGet NamespacePortal ''a'')]"


section \<open>Read-modify-write\<close>

text \<open>C33: A request in flight undoes a revocation. Its \<open>Touch\<close> has read the session when all sessions of the user are
  deleted; the write that follows stores the session again. From then on the session is valid, and since
  the index of the user is gone, deleting all sessions of the user again does not remove it either.\<close>

theorem revoked_session_returns:
  assumes laws: "redis_laws rd" "redis_set_laws rd" and up: "redis_up rd" and run: "session_run rd w"
    and ns: "ns \<in> namespaces" and now: "now = sw_now w" "now \<le> now1" "now1 < ss_ExpiresAt s" "now1 \<le> now + fst (resolveTimeouts m)"
    and read: "readSession rd now ns i (sw_redis w) = Inr (Some s)"
    and r1: "r1 = snd (DeleteAllByUser rd m now ns (ss_UserID s) (sw_redis w))"
    and r2: "r2 = snd (save rd now1 (touched now s) r1)"
    and r3: "r3 = snd (DeleteAllByUser rd m now1 ns (ss_UserID s) r2)"
  shows "fst (Get rd m now1 ns i r2) = Inr (Some (touched now s)) \<and> fst (Get rd m now1 ns i r3) = Inr (Some (touched now s))"
proof -
  have srv: "live_server rd" using laws up by unfold_locales
  then have srv': "session_server rd" by (rule live_server.axioms)
  have "store_ok (sw_log w) (rd_view rd (sw_redis w))" using session_server.run_ok [OF srv' run] by blast
  from session_server.readSession_ok [OF srv' this read [unfolded now(1)]]
  have k: "sessionKey ns i = sessionKey (ss_Namespace s) (ss_ID s)" and nss: "ss_Namespace s \<in> namespaces"
    by (auto simp: backed_def)
  have id: "ss_Namespace s = ns" "ss_ID s = i" using k sessionKey_inject [OF ns nss] by simp_all
  have "live (rd_sets rd r2) now1 (userKey ns (ss_UserID s)) = None"
    by (simp add: live_def r2 r1 live_server.save_eq(3) [OF srv] live_server.DeleteAllByUser_index [OF srv])
  then have "rd_view rd r3 = rd_view rd r2" unfolding r3 by (rule live_server.DeleteAllByUser_unindexed(2) [OF srv])
  moreover have t: "now1 < ss_ExpiresAt (touched now s)" "now1 \<le> ss_LastActiveAt (touched now s) + fst (resolveTimeouts m)"
      "ss_Namespace (touched now s) = ns" "ss_ID (touched now s) = i"
    using now id by (simp_all add: touched_def)
  ultimately show ?thesis
    using live_server.saved_is_returned [OF srv _ t(1,2), of r2 r1] live_server.saved_is_returned [OF srv _ t(1,2), of r3 r1]
    unfolding t(3,4) by (simp add: r2)
qed

theorem revoked_session_returns_witness:
  "\<exists>s. fst (Get mem_sets (NewManager 30 100) 5 NamespacePortal ''a''
     (snd (save mem_sets 5 (touched 0 s) (snd (DeleteAllByUser mem_sets (NewManager 30 100) 0 NamespacePortal 7 demo_store))))) =
     Inr (Some (touched 0 s)) \<and> ss_UserID s = 7"
proof -
  note run = demo_world_run
  have f: "ss_UserID demo_session = 7" "ss_ExpiresAt demo_session = 100"
    by (simp_all add: demo_session_def newSession_def NewManager_def resolveTimeouts_def)
  have i: "fst (resolveTimeouts (NewManager 30 100)) = 30" by (simp add: NewManager_def resolveTimeouts_def)
  have "fst (Get mem_sets (NewManager 30 100) 5 NamespacePortal ''a''
     (snd (save mem_sets 5 (touched 0 demo_session)
       (snd (DeleteAllByUser mem_sets (NewManager 30 100) 0 NamespacePortal (ss_UserID demo_session) (sw_redis demo_world)))))) =
     Inr (Some (touched 0 demo_session))"
    by (rule conjunct1 [OF revoked_session_returns [OF mem_sets_base mem_sets_laws mem_sets_up run _ _ _ _ _ _ refl _ refl]])
      (use f i demo_store_read in \<open>simp_all add: namespaces_def demo_world_def\<close>)
  then show ?thesis using f by (auto simp: demo_world_def)
qed

text \<open>\<open>Touch\<close> does not look at the idle timeout: a session that \<open>Get\<close> would refuse as idle is valid again
  after it.\<close>

lemma Touch_revives_idle:
  assumes laws: "redis_laws rd" "redis_set_laws rd" and up: "redis_up rd"
    and read: "readSession rd now ns i r = Inr (Some s)" and id: "ss_Namespace s = ns" "ss_ID s = i"
    and idle: "idleExpired m now s" "now < ss_ExpiresAt s" "0 \<le> fst (resolveTimeouts m)"
  shows "fst (Get rd m now ns i r) = Inr None \<and> fst (Get rd m now ns i (snd (Touch rd now now ns i r))) = Inr (Some (touched now s))"
proof -
  have srv: "live_server rd" using laws up by unfold_locales
  have "fst (Get rd m now ns i r) = Inr None" using read idle by (simp add: Get_def idleExpired_def)
  moreover have "fst (Get rd m now ns i (snd (Touch rd now now ns i r))) = Inr (Some (touched now s))"
    using live_server.saved_is_returned [OF srv refl, of now "touched now s" m r] read id idle
    by (simp add: Touch_def rewrite_def touched_def)
  ultimately show ?thesis by blast
qed

text \<open>A shorter absolute timeout hides older sessions: \<open>Create\<close> sets the expiry of the whole index to the
  timeout of the newest session. Here the policy drops from 1000 to 10 between two logins; at 20 the index is
  gone, deleting all sessions of the user succeeds and the first session is still valid.\<close>

lemma short_policy_hides_session:
  assumes "m1 = NewManager 500 1000" "m2 = NewManager 500 10"
    and "r1 = snd (Create mem_sets m1 0 0 ''a'' NamespacePortal 7 1 [] [] [] (Map.empty, Map.empty))"
    and "r2 = snd (Create mem_sets m2 1 1 ''b'' NamespacePortal 7 1 [] [] [] r1)"
  shows "fst (DeleteAllByUser mem_sets m2 20 NamespacePortal 7 r2) = Inr () \<and>
    (\<exists>s. fst (Get mem_sets m2 20 NamespacePortal ''a'' (snd (DeleteAllByUser mem_sets m2 20 NamespacePortal 7 r2))) = Inr (Some s) \<and>
       ss_UserID s = 7)"
proof -
  have t: "resolveTimeouts m1 = (500, 1000)" "resolveTimeouts m2 = (500, 10)" using assms by (simp_all add: NewManager_def resolveTimeouts_def)
  have k: "sessionKey NamespacePortal ''a'' \<noteq> sessionKey NamespacePortal ''b''" by (simp add: sessionKey_def)
  note eqs = Create_def Let_def live_mem.server_eqs case_prod_beta live_mem.save_eq index_add t newSession_def
  have ix: "live (rd_sets mem_sets r2) 20 (userKey NamespacePortal 7) = None"
    by (simp add: assms(3,4) eqs split: sum.splits)
  have v: "rd_view mem_sets r2 (sessionKey NamespacePortal ''a'') =
      Some (Json (newSession m1 0 ''a'' NamespacePortal 7 1 [] [] []), Some 1000)"
    by (simp add: assms(3,4) eqs k split: sum.splits)
  show ?thesis
    using live_mem.DeleteAllByUser_unindexed [OF ix, of m2] v
    by (simp add: Get_def readSession_def live_mem.get_eq live_def t newSession_def)
qed

end
