(* ===== verification/WebChain.thy ===== *)
theory WebChain
  imports SessionRun Gateway
begin

text \<open>
  The middlewares in front of the handlers, in the order \<open>app/run.go\<close> installs them on the console and the
  portal: the session check (\<open>internal/domain/authn/middleware.go\<close>), the per-user rate limit, the two
  obligation gates (\<open>obligation_gate.go\<close>, \<open>enroll_gate.go\<close>, \<open>password_gate.go\<close>), and on the console the authz
  service, the tenant override, step-up MFA (\<open>stepup.go\<close>), the gateway and the permission of the route.
  A middleware maps the request and the Redis state to a refusal or the request passed on.
\<close>

section \<open>Requests\<close>

definition CookieConsole :: string where "CookieConsole = ''mxid_console_sid''"
definition CookiePortal :: string where "CookiePortal = ''mxid_portal_sid''"
definition CookieProto :: string where "CookieProto = ''mxid_proto_sid''"

record actor =
  ac_ActorID :: id
  ac_ActorType :: string
  ac_TenantID :: id
  ac_SessionID :: string
  ac_IP :: string
  ac_UserAgent :: string

text \<open>The gin context: the route and the keys the authz middlewares read, the cookies, the keys the session
  check sets (with the zero values \<open>GetString\<close> and \<open>GetBool\<close> return for an absent key), and the audit actor
  on the request context.\<close>

record 'e web_request =
  wq_gin :: "'e request"
  wq_cookies :: "string \<rightharpoonup> string"
  wq_clientIP :: string
  wq_userAgent :: string
  wq_sessionID :: string
  wq_namespace :: string
  wq_enrollPending :: bool
  wq_pwdPending :: bool
  wq_actor :: "actor option"

datatype refusal = Aborted abort | Code403 int | TooMany429

definition CodeStepUpRequired :: int where "CodeStepUpRequired = 40330"
definition CodeMFAEnrollRequired :: int where "CodeMFAEnrollRequired = 40331"
definition NumPasswordChangeRequired :: int where "NumPasswordChangeRequired = 40333"

section \<open>middleware.go\<close>

definition actorTypeForNamespace :: "string \<Rightarrow> string" where
  "actorTypeForNamespace ns = (if ns = NamespaceConsole then ''admin'' else ''user'')"

definition cookieForNamespace :: "string \<Rightarrow> string" where
  "cookieForNamespace ns =
     (if ns = NamespaceConsole then CookieConsole else if ns = NamespacePortal then CookiePortal else [])"

text \<open>The keys a valid session puts into the context.\<close>

definition injectSession :: "string \<Rightarrow> session \<Rightarrow> 'e web_request \<Rightarrow> 'e web_request" where
  "injectSession ns sess wq =
     wq\<lparr>wq_gin := (wq_gin wq)\<lparr>rq_userID := Some (ss_UserID sess), rq_tenantID := Some (ss_TenantID sess)\<rparr>,
        wq_sessionID := ss_ID sess, wq_namespace := ns,
        wq_actor := Some \<lparr>ac_ActorID = ss_UserID sess, ac_ActorType = actorTypeForNamespace ns,
          ac_TenantID = ss_TenantID sess, ac_SessionID = ss_ID sess, ac_IP = wq_clientIP wq, ac_UserAgent = wq_userAgent wq\<rparr>\<rparr>"

definition AuthMiddleware ::
  "'r session_redis \<Rightarrow> session_manager \<Rightarrow> time \<Rightarrow> time \<Rightarrow> string \<Rightarrow> 'e web_request \<Rightarrow> 'r \<Rightarrow> (refusal + 'e web_request) \<times> 'r" where
  "AuthMiddleware rd m now now1 ns wq r =
     (let cookieName = cookieForNamespace ns in
      if cookieName = [] then (Inl (Aborted Unauthorized401), r)
      else case wq_cookies wq cookieName of
        None \<Rightarrow> (Inl (Aborted Unauthorized401), r)
      | Some sessionID \<Rightarrow>
          if sessionID = [] then (Inl (Aborted Unauthorized401), r)
          else case Get rd m now ns sessionID r of
            (Inl _, r1) \<Rightarrow> (Inl (Aborted Unauthorized401), r1)
          | (Inr None, r1) \<Rightarrow> (Inl (Aborted Unauthorized401), r1)
          | (Inr (Some sess), r1) \<Rightarrow>
              (let r2 = snd (Touch rd now now1 ns sessionID r1);
                   r3 = (case wq_cookies wq CookieProto of
                           None \<Rightarrow> r2
                         | Some pid \<Rightarrow> if pid = [] then r2 else snd (Touch rd now1 now1 NamespaceProtocol pid r2));
                   wq1 = injectSession ns sess wq
               in (Inr (wq1\<lparr>wq_gin := (wq_gin wq1)\<lparr>rq_ctx := WithTenant (rq_ctx (wq_gin wq)) (ss_TenantID sess)\<rparr>,
                           wq_enrollPending := ss_MFAEnrollPending sess, wq_pwdPending := ss_PwdChangePending sess\<rparr>), r3)))"

definition OptionalAuthMiddleware ::
  "'r session_redis \<Rightarrow> session_manager \<Rightarrow> time \<Rightarrow> string \<Rightarrow> 'e web_request \<Rightarrow> 'r \<Rightarrow> (refusal + 'e web_request) \<times> 'r" where
  "OptionalAuthMiddleware rd m now ns wq r =
     (let cookieName = cookieForNamespace ns in
      if cookieName = [] then (Inr wq, r)
      else case wq_cookies wq cookieName of
        None \<Rightarrow> (Inr wq, r)
      | Some sessionID \<Rightarrow>
          if sessionID = [] then (Inr wq, r)
          else case Get rd m now ns sessionID r of
            (Inl _, r1) \<Rightarrow> (Inr wq, r1)
          | (Inr None, r1) \<Rightarrow> (Inr wq, r1)
          | (Inr (Some sess), r1) \<Rightarrow> (Inr (injectSession ns sess wq), r1))"

section \<open>obligation_gate.go\<close>

definition pwdAllowedPathFragment :: string where "pwdAllowedPathFragment = ''/security/password''"
definition enrollAllowedPathFragment :: string where "enrollAllowedPathFragment = ''/security/mfa''"

definition remediationPathFragments :: "string list" where
  "remediationPathFragments = [pwdAllowedPathFragment, enrollAllowedPathFragment]"

definition isRemediationPath :: "string \<Rightarrow> bool" where
  "isRemediationPath fullPath = list_ex (\<lambda>fragment. Contains fullPath fragment) remediationPathFragments"

text \<open>A gate: the flag it looks at, the check against durable state (which may fail), the operation that
  clears the flag and the code of a refusal.\<close>

record ('e, 'r) obligation_gate =
  og_namespace :: string
  og_ctxFlag :: "'e web_request \<Rightarrow> bool"
  og_stillOwes :: "(id \<Rightarrow> unit + bool) option"
  og_clearFlag :: "string \<Rightarrow> string \<Rightarrow> bool \<Rightarrow> 'r \<Rightarrow> (session_error + unit) \<times> 'r"
  og_code :: int

definition obligationHandler ::
  "('e, 'r) obligation_gate \<Rightarrow> 'e web_request \<Rightarrow> 'r \<Rightarrow> (refusal + 'e web_request) \<times> 'r" where
  "obligationHandler g wq r =
     (if \<not> og_ctxFlag g wq then (Inr wq, r)
      else if (case og_stillOwes g of None \<Rightarrow> False | Some f \<Rightarrow> f (userIDFromCtx (wq_gin wq)) = Inr False)
      then (Inr wq, snd (og_clearFlag g (og_namespace g) (wq_sessionID wq) False r))
      else if isRemediationPath (rq_fullPath (wq_gin wq)) then (Inr wq, r)
      else (Inl (Code403 (og_code g)), r))"

definition EnrollGateMiddleware ::
  "'r session_redis \<Rightarrow> time \<Rightarrow> string \<Rightarrow> (id \<Rightarrow> unit + bool) option \<Rightarrow> ('e, 'r) obligation_gate" where
  "EnrollGateMiddleware rd now ns hasMFA =
     \<lparr>og_namespace = ns, og_ctxFlag = wq_enrollPending,
      og_stillOwes = Some (\<lambda>userID. case hasMFA of
        None \<Rightarrow> Inr True
      | Some f \<Rightarrow> (case f userID of Inl e \<Rightarrow> Inl e | Inr has \<Rightarrow> Inr (\<not> has))),
      og_clearFlag = SetEnrollPending rd now now, og_code = CodeMFAEnrollRequired\<rparr>"

definition PwdGateMiddleware ::
  "'r session_redis \<Rightarrow> time \<Rightarrow> string \<Rightarrow> (id \<Rightarrow> unit + bool) option \<Rightarrow> ('e, 'r) obligation_gate" where
  "PwdGateMiddleware rd now ns mustChange =
     \<lparr>og_namespace = ns, og_ctxFlag = wq_pwdPending,
      og_stillOwes = Some (\<lambda>userID. case mustChange of None \<Rightarrow> Inr True | Some f \<Rightarrow> f userID),
      og_clearFlag = SetPwdChangePending rd now now, og_code = NumPasswordChangeRequired\<rparr>"

section \<open>stepup.go\<close>

definition consolePathPrefix :: string where "consolePathPrefix = ''/api/v1/console/''"

definition highRiskWriteSuffixes :: "string list" where
  "highRiskWriteSuffixes = [''/super-admin'', ''/password'', ''/rotate-signing-key'', ''/regenerate-secret'',
     ''/emergency-revoke'', ''/mfa/lockout/clear'', ''/shared-credential'', ''/access-requests/:id/approve'',
     ''/access-requests/:id/revoke'', ''/identities/:iid/restore'', ''/restore'']"

definition IsHighRiskConsole :: "string \<Rightarrow> string \<Rightarrow> bool" where
  "IsHighRiskConsole method fullPath =
     (if \<not> HasPrefix fullPath consolePathPrefix then False
      else if method = ''DELETE'' then True
      else list_ex (\<lambda>suf. HasSuffix fullPath suf) highRiskWriteSuffixes)"

record step_up_deps =
  sd_Policy :: "id \<Rightarrow> string \<times> dur"
  sd_IsAdmin :: "(id \<Rightarrow> id \<Rightarrow> bool) option"
  sd_HasMFA :: "id \<Rightarrow> unit + bool"

definition modeApplies :: "step_up_deps \<Rightarrow> string \<Rightarrow> id \<Rightarrow> id \<Rightarrow> bool" where
  "modeApplies d mode tenantID userID =
     (if mode = ''all'' then True
      else if mode = ''admin_only'' then (case sd_IsAdmin d of None \<Rightarrow> False | Some f \<Rightarrow> f tenantID userID)
      else False)"

definition sessionNamespace :: "'e web_request \<Rightarrow> string" where
  "sessionNamespace wq = (if wq_namespace wq \<noteq> [] then wq_namespace wq else NamespaceConsole)"

definition StepUpMiddleware ::
  "'r session_redis \<Rightarrow> session_manager \<Rightarrow> time \<Rightarrow> step_up_deps \<Rightarrow> 'e web_request \<Rightarrow> 'r \<Rightarrow> (refusal + 'e web_request) \<times> 'r" where
  "StepUpMiddleware rd m now d wq r =
     (if \<not> IsHighRiskConsole (rq_method (wq_gin wq)) (rq_fullPath (wq_gin wq)) then (Inr wq, r)
      else
        let userID = userIDFromCtx (wq_gin wq); tenantID = tenantIDFromCtx (wq_gin wq);
            (mode, window) = sd_Policy d tenantID
        in if \<not> modeApplies d mode tenantID userID then (Inr wq, r)
           else case sd_HasMFA d userID of
             Inl _ \<Rightarrow> (Inl (Aborted Internal500), r)
           | Inr enrolled \<Rightarrow>
               if \<not> enrolled then (Inl (Code403 CodeMFAEnrollRequired), r)
               else case Get rd m now (sessionNamespace wq) (wq_sessionID wq) r of
                 (Inr (Some sess), r1) \<Rightarrow>
                   if StepUpFresh sess now window then (Inr wq, r1) else (Inl (Code403 CodeStepUpRequired), r1)
               | (_, r1) \<Rightarrow> (Inl (Code403 CodeStepUpRequired), r1))"

definition Fresh ::
  "'r session_redis \<Rightarrow> session_manager \<Rightarrow> time \<Rightarrow> step_up_deps \<Rightarrow> 'e web_request \<Rightarrow> id \<Rightarrow> 'r \<Rightarrow> bool \<times> 'r" where
  "Fresh rd m now d wq tenantID r =
     (case Get rd m now (sessionNamespace wq) (wq_sessionID wq) r of
        (Inr (Some sess), r1) \<Rightarrow> (StepUpFresh sess now (snd (sd_Policy d tenantID)), r1)
      | (_, r1) \<Rightarrow> (False, r1))"

section \<open>run.go\<close>

text \<open>The next middleware of a chain runs on what the previous one passed on.\<close>

definition andThen ::
  "(refusal + 'a) \<times> 'r \<Rightarrow> ('a \<Rightarrow> 'r \<Rightarrow> (refusal + 'b) \<times> 'r) \<Rightarrow> (refusal + 'b) \<times> 'r" where
  "andThen p f = (case p of (Inl a, r) \<Rightarrow> (Inl a, r) | (Inr wq, r) \<Rightarrow> f wq r)"

definition viaGin :: "('e request \<Rightarrow> 'e outcome) \<Rightarrow> 'e web_request \<Rightarrow> 'r \<Rightarrow> (refusal + 'e web_request) \<times> 'r" where
  "viaGin f wq r = (case f (wq_gin wq) of Inl a \<Rightarrow> (Inl (Aborted a), r) | Inr rq \<Rightarrow> (Inr (wq\<lparr>wq_gin := rq\<rparr>), r))"

text \<open>What the chain is configured with: the collaborators of the gates and of step-up, the verdict of the
  rate limiter, the authz service, and the permission of the route.\<close>

record 'e chain_config =
  cc_limited :: "'e web_request \<Rightarrow> bool"
  cc_hasMFA :: "id \<Rightarrow> unit + bool"
  cc_mustChange :: "id \<Rightarrow> unit + bool"
  cc_svc :: "'e authz_service option"
  cc_stepUp :: step_up_deps
  cc_lib :: "'e casbin_lib"
  cc_registry :: route_registry
  cc_perm :: string
  cc_scope :: "'e scope_fn option"

definition rateLimited :: "('e web_request \<Rightarrow> bool) \<Rightarrow> 'e web_request \<Rightarrow> 'r \<Rightarrow> (refusal + 'e web_request) \<times> 'r" where
  "rateLimited limited wq r = (if limited wq then (Inl TooMany429, r) else (Inr wq, r))"

definition portalChain ::
  "'r session_redis \<Rightarrow> session_manager \<Rightarrow> 'e chain_config \<Rightarrow> time \<Rightarrow> time \<Rightarrow> string \<Rightarrow> 'e web_request \<Rightarrow> 'r \<Rightarrow>
   (refusal + 'e web_request) \<times> 'r" where
  "portalChain rd m cc now now1 ns wq r =
     andThen (andThen (andThen (AuthMiddleware rd m now now1 ns wq r)
       (rateLimited (cc_limited cc)))
       (obligationHandler (EnrollGateMiddleware rd now1 ns (Some (cc_hasMFA cc)))))
       (obligationHandler (PwdGateMiddleware rd now1 ns (Some (cc_mustChange cc))))"

definition consoleChain ::
  "'r session_redis \<Rightarrow> session_manager \<Rightarrow> 'e chain_config \<Rightarrow> time \<Rightarrow> time \<Rightarrow> time \<Rightarrow> 'e web_request \<Rightarrow> 'r \<Rightarrow>
   (refusal + 'e web_request) \<times> 'r" where
  "consoleChain rd m cc now now1 now2 wq r =
     andThen (andThen (andThen (andThen (andThen
       (portalChain rd m cc now now1 NamespaceConsole wq r)
       (viaGin (\<lambda>rq. Inr (rq\<lparr>rq_svc := cc_svc cc\<rparr>))))
       (viaGin (TenantContext (cc_lib cc) now2)))
       (StepUpMiddleware rd m now2 (cc_stepUp cc)))
       (viaGin (Gateway \<lparr>gc_AuditOnly = False\<rparr> (cc_registry cc))))
       (viaGin (\<lambda>rq. snd (Require (cc_lib cc) now2 (cc_perm cc) (cc_scope cc) (cc_registry cc) rq)))"

section \<open>A request is a part of a run\<close>

text \<open>What a request leaves of a run: a later world whose log has new uses of sessions only.\<close>

definition later_world :: "'r session_redis \<Rightarrow> 'r session_world \<Rightarrow> time \<Rightarrow> 'r \<Rightarrow> 'r session_world \<Rightarrow> bool" where
  "later_world rd w t r w' \<longleftrightarrow> session_run rd w' \<and> sw_now w' = t \<and> sw_redis w' = r \<and> set (sw_log w) \<subseteq> set (sw_log w') \<and>
     (\<forall>e \<in> set (sw_log w'). e \<in> set (sw_log w) \<or> (\<exists>ns i at. e = Touched ns i at))"

lemma later_trans: "later_world rd w t r w' \<Longrightarrow> later_world rd w' t' r' w'' \<Longrightarrow> later_world rd w t' r' w''"
  by (fastforce simp: later_world_def)

lemma later_tick:
  assumes "session_run rd w" and "sw_now w \<le> t" shows "\<exists>w'. later_world rd w t (sw_redis w) w'"
  using sess_tick [OF assms] by (intro exI [of _ "w\<lparr>sw_now := t\<rparr>"]) (simp add: later_world_def)

lemma later_Get:
  assumes "session_run rd w" shows "\<exists>w'. later_world rd w (sw_now w) (snd (Get rd m (sw_now w) ns i (sw_redis w))) w'"
  using sess_get [OF assms, of m ns i]
  by (intro exI [of _ "w\<lparr>sw_redis := snd (Get rd m (sw_now w) ns i (sw_redis w))\<rparr>"]) (simp add: later_world_def)

definition usesOnly :: "time \<Rightarrow> (session \<Rightarrow> session) \<Rightarrow> bool" where
  "usesOnly now f \<longleftrightarrow> (\<forall>s. \<exists>evs. session_change now s (f s) evs \<and> (\<forall>e \<in> set evs. \<exists>ns i at. e = Touched ns i at))"

lemma usesOnly_changes: "usesOnly now (touched now)" "usesOnly now (enrollPending b)" "usesOnly now (pwdChangePending b)"
  unfolding usesOnly_def by (fastforce intro: session_change.intros)+

lemma later_rewrite:
  assumes run: "session_run rd w" and le: "sw_now w \<le> now1" and f: "usesOnly (sw_now w) f"
  shows "\<exists>w'. later_world rd w now1 (snd (rewrite rd f (sw_now w) now1 ns i (sw_redis w))) w'"
proof (cases "\<exists>s. readSession rd (sw_now w) ns i (sw_redis w) = Inr (Some s)")
  case True
  then obtain s where s: "readSession rd (sw_now w) ns i (sw_redis w) = Inr (Some s)" by blast
  from f obtain evs where c: "session_change (sw_now w) s (f s) evs" and e: "\<forall>e \<in> set evs. \<exists>ns i at. e = Touched ns i at"
    unfolding usesOnly_def by blast
  let ?w = "w\<lparr>sw_flight := f s # sw_flight w, sw_log := evs @ sw_log w\<rparr>"
  have "session_run rd (?w\<lparr>sw_now := now1\<rparr>)" by (rule sess_tick [OF sess_read [OF run s c]]) (use le in simp)
  from sess_write [OF this, of "f s"] have "session_run rd (?w\<lparr>sw_now := now1, sw_redis := snd (save rd now1 (f s) (sw_redis w))\<rparr>)"
    by simp
  then show ?thesis using s e
    by (intro exI [of _ "?w\<lparr>sw_now := now1, sw_redis := snd (save rd now1 (f s) (sw_redis w))\<rparr>"])
      (auto simp: later_world_def rewrite_def)
next
  case False
  then have "snd (rewrite rd f (sw_now w) now1 ns i (sw_redis w)) = sw_redis w"
    by (auto simp: rewrite_def split: sum.splits option.splits)
  then show ?thesis using later_tick [OF run le] by simp
qed

lemma later_AuthMiddleware:
  assumes run: "session_run rd w" and le: "sw_now w \<le> now1"
    and a: "AuthMiddleware rd m (sw_now w) now1 ns wq (sw_redis w) = (Inr wq', r')"
  shows "\<exists>w'. later_world rd w now1 r' w'"
proof -
  obtain sid sess r1 where g: "Get rd m (sw_now w) ns sid (sw_redis w) = (Inr (Some sess), r1)"
    and r': "r' = (case wq_cookies wq CookieProto of None \<Rightarrow> snd (Touch rd (sw_now w) now1 ns sid r1)
      | Some pid \<Rightarrow> if pid = [] then snd (Touch rd (sw_now w) now1 ns sid r1)
          else snd (Touch rd now1 now1 NamespaceProtocol pid (snd (Touch rd (sw_now w) now1 ns sid r1))))"
    using a by (auto simp: AuthMiddleware_def Let_def split: if_splits option.splits prod.splits sum.splits)
  obtain w1 where w1: "later_world rd w (sw_now w) r1 w1" using later_Get [OF run, of m ns sid] g by auto
  then have run1: "session_run rd w1" "sw_now w1 = sw_now w" "sw_redis w1 = r1" by (simp_all add: later_world_def)
  obtain w2 where w2: "later_world rd w1 now1 (snd (Touch rd (sw_now w) now1 ns sid r1)) w2"
    using later_rewrite [OF run1(1), of now1 "touched (sw_now w)" ns sid] le run1 usesOnly_changes(1) by (auto simp: Touch_def)
  then have run2: "session_run rd w2" "sw_now w2 = now1" "sw_redis w2 = snd (Touch rd (sw_now w) now1 ns sid r1)"
    by (simp_all add: later_world_def)
  have "\<exists>w3. later_world rd w2 now1 (snd (Touch rd now1 now1 NamespaceProtocol pid (sw_redis w2))) w3" for pid
    using later_rewrite [OF run2(1), of now1 "touched now1" NamespaceProtocol pid] run2 usesOnly_changes(1) by (auto simp: Touch_def)
  then have "\<exists>w3. later_world rd w now1 (snd (Touch rd now1 now1 NamespaceProtocol pid (snd (Touch rd (sw_now w) now1 ns sid r1)))) w3" for pid
    using later_trans [OF later_trans [OF w1 w2]] run2(3) by metis
  then show ?thesis using later_trans [OF w1 w2] unfolding r' by (auto split: option.split)
qed

lemma later_gate:
  assumes run: "session_run rd w" and g: "g = EnrollGateMiddleware rd (sw_now w) ns f \<or> g = PwdGateMiddleware rd (sw_now w) ns f"
  shows "\<exists>w'. later_world rd w (sw_now w) (snd (obligationHandler g wq (sw_redis w))) w'"
proof -
  have "\<exists>w'. later_world rd w (sw_now w) (snd (rewrite rd h (sw_now w) (sw_now w) n i (sw_redis w))) w'"
    if "h = enrollPending False \<or> h = pwdChangePending False" for h n i
    by (rule later_rewrite [OF run order_refl]) (use that usesOnly_changes in blast)
  then show ?thesis using g later_tick [OF run order_refl]
    by (auto simp: obligationHandler_def EnrollGateMiddleware_def PwdGateMiddleware_def SetEnrollPending_def SetPwdChangePending_def)
qed

section \<open>What the chains let through\<close>

lemma andThen_passes: "andThen p f = (Inr y, r') \<longleftrightarrow> (\<exists>x r. p = (Inr x, r) \<and> f x r = (Inr y, r'))"
  by (cases p) (auto simp: andThen_def split: sum.splits)

lemma viaGin_passes: "viaGin f wq r = (Inr wq', r') \<longleftrightarrow> r' = r \<and> (\<exists>rq. f (wq_gin wq) = Inr rq \<and> wq' = wq\<lparr>wq_gin := rq\<rparr>)"
  by (auto simp: viaGin_def split: sum.splits)

lemma rateLimited_passes: "rateLimited l wq r = (Inr wq', r') \<longleftrightarrow> wq' = wq \<and> r' = r \<and> \<not> l wq"
  by (auto simp: rateLimited_def)

lemma gate_passes:
  "obligationHandler g wq r = (Inr wq', r') \<Longrightarrow> wq' = wq \<and> (og_ctxFlag g wq \<longrightarrow>
     (\<exists>f. og_stillOwes g = Some f \<and> f (userIDFromCtx (wq_gin wq)) = Inr False) \<or> isRemediationPath (rq_fullPath (wq_gin wq)))"
  by (auto simp: obligationHandler_def split: if_splits option.splits)

lemma AuthMiddleware_passes:
  assumes "AuthMiddleware rd m now now1 ns wq r = (Inr wq', r')"
  shows "\<exists>sid s. wq_cookies wq (cookieForNamespace ns) = Some sid \<and> fst (Get rd m now ns sid r) = Inr (Some s) \<and>
    rq_method (wq_gin wq') = rq_method (wq_gin wq) \<and> rq_fullPath (wq_gin wq') = rq_fullPath (wq_gin wq) \<and>
    rq_tenantHeader (wq_gin wq') = rq_tenantHeader (wq_gin wq) \<and>
    rq_userID (wq_gin wq') = Some (ss_UserID s) \<and> rq_tenantID (wq_gin wq') = Some (ss_TenantID s) \<and>
    wq_sessionID wq' = ss_ID s \<and> wq_namespace wq' = ns \<and> wq_enrollPending wq' = ss_MFAEnrollPending s \<and>
    wq_pwdPending wq' = ss_PwdChangePending s"
  using assms by (auto simp: AuthMiddleware_def Let_def injectSession_def split: if_splits option.splits prod.splits sum.splits)

lemma portalChain_passes:
  assumes "portalChain rd m cc now now1 ns wq r = (Inr wq', r')"
  shows "\<exists>r1. AuthMiddleware rd m now now1 ns wq r = (Inr wq', r1) \<and>
    (wq_enrollPending wq' \<longrightarrow> cc_hasMFA cc (userIDFromCtx (wq_gin wq')) = Inr True \<or> isRemediationPath (rq_fullPath (wq_gin wq'))) \<and>
    (wq_pwdPending wq' \<longrightarrow> cc_mustChange cc (userIDFromCtx (wq_gin wq')) = Inr False \<or> isRemediationPath (rq_fullPath (wq_gin wq')))"
proof -
  obtain x r1 y r2 where a: "AuthMiddleware rd m now now1 ns wq r = (Inr x, r1)"
    and e: "obligationHandler (EnrollGateMiddleware rd now1 ns (Some (cc_hasMFA cc))) x r1 = (Inr y, r2)"
    and q: "obligationHandler (PwdGateMiddleware rd now1 ns (Some (cc_mustChange cc))) y r2 = (Inr wq', r')"
    using assms unfolding portalChain_def andThen_passes rateLimited_passes by blast
  show ?thesis using gate_passes [OF e] gate_passes [OF q] a
    by (auto simp: EnrollGateMiddleware_def PwdGateMiddleware_def split: sum.splits)
qed

lemma later_portalChain:
  assumes run: "session_run rd w" and le: "sw_now w \<le> now1"
    and c: "portalChain rd m cc (sw_now w) now1 ns wq (sw_redis w) = (Inr wq', r')"
  shows "\<exists>w'. later_world rd w now1 r' w'"
proof -
  let ?e = "EnrollGateMiddleware rd now1 ns (Some (cc_hasMFA cc))" and ?q = "PwdGateMiddleware rd now1 ns (Some (cc_mustChange cc))"
  obtain x r1 y r2 where a: "AuthMiddleware rd m (sw_now w) now1 ns wq (sw_redis w) = (Inr x, r1)"
    and e: "obligationHandler ?e x r1 = (Inr y, r2)" and q: "obligationHandler ?q y r2 = (Inr wq', r')"
    using c unfolding portalChain_def andThen_passes rateLimited_passes by blast
  obtain w1 where w1: "later_world rd w now1 r1 w1" using later_AuthMiddleware [OF run le a] by blast
  then have n1: "session_run rd w1" "sw_now w1 = now1" "sw_redis w1 = r1" by (simp_all add: later_world_def)
  obtain w2 where w2: "later_world rd w1 now1 r2 w2"
    using later_gate [OF n1(1), of ?e ns "Some (cc_hasMFA cc)" x] e n1 by auto
  then have n2: "session_run rd w2" "sw_now w2 = now1" "sw_redis w2 = r2" by (simp_all add: later_world_def)
  obtain w3 where w3: "later_world rd w2 now1 r' w3"
    using later_gate [OF n2(1), of ?q ns "Some (cc_mustChange cc)" y] q n2 by auto
  show ?thesis using later_trans [OF later_trans [OF w1 w2] w3] by blast
qed

lemma StepUp_passes:
  assumes "StepUpMiddleware rd m now d wq r = (Inr wq', r')"
    and "IsHighRiskConsole (rq_method (wq_gin wq)) (rq_fullPath (wq_gin wq))"
    and "sd_Policy d (tenantIDFromCtx (wq_gin wq)) = (mode, window)"
    and "modeApplies d mode (tenantIDFromCtx (wq_gin wq)) (userIDFromCtx (wq_gin wq))"
  shows "sd_HasMFA d (userIDFromCtx (wq_gin wq)) = Inr True \<and>
    (\<exists>s. fst (Get rd m now (sessionNamespace wq) (wq_sessionID wq) r) = Inr (Some s) \<and> StepUpFresh s now window)"
  using assms by (auto simp: StepUpMiddleware_def Let_def split: if_splits sum.splits prod.splits option.splits)

lemma StepUp_same: "StepUpMiddleware rd m now d wq r = (Inr wq', r') \<Longrightarrow> wq' = wq"
  by (auto simp: StepUpMiddleware_def Let_def split: if_splits sum.splits prod.splits option.splits)

lemma TenantContext_passes:
  assumes "TenantContext lib now rq = Inr rq'"
  shows "rq_method rq' = rq_method rq \<and> rq_fullPath rq' = rq_fullPath rq \<and> rq_userID rq' = rq_userID rq \<and> rq_svc rq' = rq_svc rq \<and>
    (rq_tenantID rq' = rq_tenantID rq \<or>
     (\<exists>tid svc. rq_tenantHeader rq = Some (Some tid) \<and> 0 < tid \<and> rq_tenantID rq' = Some tid \<and> rq_svc rq = Some svc \<and>
        Check lib svc now (case rq_tenantID rq of Some t \<Rightarrow> t | None \<Rightarrow> (case rq_sessionTenantID rq of None \<Rightarrow> 0 | Some t \<Rightarrow> t))
          (userIDFromCtx rq) ''*'' None = Inr True))"
  using assms
  by (auto simp: TenantContext_def Let_def FromContext_def userIDFromCtx_def split: option.splits sum.splits if_splits)

lemma later_proves_login:
  assumes laws: "redis_laws rd" "redis_set_laws rd" and l: "later_world rd w t r w'" and ns: "ns \<in> namespaces" and le: "t \<le> t'"
    and g: "fst (Get rd m t' ns i r) = Inr (Some s)"
  shows "(\<exists>c a. Created c a \<in> set (sw_log w) \<and> sameSession s c \<and> ss_ID c = i \<and> ss_Namespace c = ns \<and> t' < ss_CreatedAt c + a) \<and>
    (\<forall>window. StepUpFresh s t' window \<longrightarrow> (\<exists>v. Verified ns i v \<in> set (sw_log w) \<and> t' < v + window))"
proof -
  have srv: "session_server rd" using laws by unfold_locales
  have run: "session_run rd w'" and r: "sw_redis w' = r" "sw_now w' = t"
    and log: "\<forall>e \<in> set (sw_log w'). e \<in> set (sw_log w) \<or> (\<exists>ns i at. e = Touched ns i at)"
    using l by (simp_all add: later_world_def)
  have read: "readSession rd t' ns i r = Inr (Some s)"
    using g by (auto simp: Get_def split: sum.splits option.splits if_splits)
  have ok: "store_ok (sw_log w') (rd_view rd r)" using session_server.run_ok [OF srv run] r by simp
  note b = session_server.readSession_ok [OF srv ok read]
  from b have "ss_Namespace s \<in> namespaces" by (simp add: backed_def)
  then have id: "ss_Namespace s = ns" "ss_ID s = i" using b sessionKey_inject [OF ns, of "ss_Namespace s" i "ss_ID s"] by auto
  obtain c a where c: "Created c a \<in> set (sw_log w')" "sameSession s c" "ss_ExpiresAt c = ss_CreatedAt c + a"
    using b unfolding backed_def by blast
  then have "Created c a \<in> set (sw_log w) \<and> sameSession s c \<and> ss_ID c = i \<and> ss_Namespace c = ns \<and> t' < ss_CreatedAt c + a"
    using b id log by (auto simp: sameSession_def)
  moreover have "\<exists>v. Verified ns i v \<in> set (sw_log w) \<and> t' < v + window" if fr: "StepUpFresh s t' window" for window
  proof -
    obtain v where v: "ss_MFAVerifiedAt s = Some v" "t' < v + window"
      using fr by (auto simp: StepUpFresh_def split: option.splits if_splits)
    then have "Verified ns i v \<in> set (sw_log w')" using b id by (auto simp: backed_def)
    then show ?thesis using log v(2) by fastforce
  qed
  ultimately show ?thesis by blast
qed


section \<open>An example\<close>

text \<open>An administrator who logged in at 0, passed MFA at 5 and deletes a user at 6.\<close>

definition admin_manager :: session_manager where
  "admin_manager = NewManager 30 100"

definition admin_created :: "session json store \<times> string list store" where
  "admin_created = snd (Create mem_sets admin_manager 0 0 ''s'' NamespaceConsole 9 7 [] [] [] (Map.empty, Map.empty))"

definition admin_session :: session where
  "admin_session = newSession admin_manager 0 ''s'' NamespaceConsole 9 7 [] [] []"

definition admin_world :: "(session json store \<times> string list store) session_world" where
  "admin_world = \<lparr>sw_redis = snd (save mem_sets 5 (mfaVerified 5 admin_session) admin_created), sw_now = 5,
     sw_flight = [mfaVerified 5 admin_session], sw_log = [Verified NamespaceConsole ''s'' 5, Created admin_session 100]\<rparr>"

lemma admin_read: "readSession mem_sets 5 NamespaceConsole ''s'' admin_created = Inr (Some admin_session)"
  by code_simp

lemma admin_world_run: "session_run mem_sets admin_world"
proof -
  have n: "ss_Namespace admin_session = NamespaceConsole" "ss_ID admin_session = ''s''"
    by (simp_all add: admin_session_def newSession_def)
  have "session_run mem_sets \<lparr>sw_redis = (Map.empty, Map.empty), sw_now = 0, sw_flight = [], sw_log = []\<rparr>"
    by (rule sess_start) (simp add: mem_sets_def)
  from sess_create [OF this, of NamespaceConsole 0 admin_manager "''s''" 9 7 "[]" "[]" "[]"]
  have "session_run mem_sets \<lparr>sw_redis = admin_created, sw_now = 0, sw_flight = [], sw_log = [Created admin_session 100]\<rparr>"
    by (simp add: admin_created_def admin_session_def namespaces_def admin_manager_def resolveTimeouts_def NewManager_def)
  from sess_tick [OF this, of 5]
  have run: "session_run mem_sets \<lparr>sw_redis = admin_created, sw_now = 5, sw_flight = [], sw_log = [Created admin_session 100]\<rparr>"
    by simp
  have "session_run mem_sets \<lparr>sw_redis = admin_created, sw_now = 5, sw_flight = [mfaVerified 5 admin_session],
      sw_log = [Verified NamespaceConsole ''s'' 5, Created admin_session 100]\<rparr>"
    using sess_read [OF run, of NamespaceConsole "''s''" admin_session "mfaVerified 5 admin_session" "[Verified NamespaceConsole ''s'' 5]"]
      change_mark [of 5 admin_session] admin_read n by simp
  from sess_write [OF this, of "mfaVerified 5 admin_session"] show ?thesis by (simp add: admin_world_def)
qed

definition admin_service :: "list_enforcer authz_service" where
  "admin_service = \<lparr>as_bindings = Some (\<lambda>t u. Inr (if t = 7 \<and> u = 9 then [\<lparr>eb_RoleID = 1, eb_Permissions = {''user.delete''},
     eb_Source = ''direct'', eb_SourceID = 9, eb_ScopeType = ScopeGlobal, eb_ScopeID = 0, eb_ExpiresAt = None\<rparr>] else [])),
     as_orgTree = None, as_casbin = None\<rparr>"

definition admin_chain :: "list_enforcer chain_config" where
  "admin_chain = \<lparr>cc_limited = \<lambda>_. False, cc_hasMFA = \<lambda>_. Inr True, cc_mustChange = \<lambda>_. Inr False, cc_svc = Some admin_service,
     cc_stepUp = \<lparr>sd_Policy = \<lambda>_. (''all'', 10), sd_IsAdmin = None, sd_HasMFA = \<lambda>_. Inr True\<rparr>, cc_lib = list_casbin,
     cc_registry = Protect ''DELETE'' ''/api/v1/console/users/:id'' ''user.delete'' emptyRegistry, cc_perm = ''user.delete'', cc_scope = None\<rparr>"

definition admin_request :: "list_enforcer web_request" where
  "admin_request = \<lparr>wq_gin = \<lparr>rq_method = ''DELETE'', rq_fullPath = ''/api/v1/console/users/:id'', rq_tenantHeader = None,
       rq_userID = None, rq_tenantID = None, rq_sessionTenantID = None, rq_svc = None, rq_ctx = None\<rparr>,
     wq_cookies = [CookieConsole \<mapsto> ''s''], wq_clientIP = [], wq_userAgent = [], wq_sessionID = [], wq_namespace = [],
     wq_enrollPending = False, wq_pwdPending = False, wq_actor = None\<rparr>"

lemma admin_passes: "isOk (fst (consoleChain mem_sets admin_manager admin_chain 5 6 6 admin_request (sw_redis admin_world)))"
  by code_simp


end
