(* ===== verification/Snowflake.thy ===== *)
theory Snowflake
  imports Prelude
begin

unbundle bit_operations_syntax

text \<open>
  The id generator: \<open>pkg/snowflake/snowflake.go\<close>. The mutex makes \<open>Generate\<close> atomic, so the calls of one
  process form a sequence. The clock is the sequence of millisecond readings of the process; each call
  takes the next reading, and the loop that waits for the next millisecond takes as many as it needs. That
  loop has no bound of its own: it is a partial function, \<open>None\<close> when it never ends.
\<close>

section \<open>The generator\<close>

definition epoch :: int where "epoch = 1700000000000"
definition nodeBits :: nat where "nodeBits = 10"
definition sequenceBits :: nat where "sequenceBits = 12"
definition nodeMax :: int where "nodeMax = (- 1) XOR push_bit nodeBits (- 1)"
definition sequenceMask :: int where "sequenceMask = (- 1) XOR push_bit sequenceBits (- 1)"
definition nodeShift :: nat where "nodeShift = sequenceBits"
definition timestampShift :: nat where "timestampShift = nodeBits + sequenceBits"

record generator =
  gen_nodeID :: int
  gen_timestamp :: int
  gen_sequence :: int

definition New :: "int \<Rightarrow> string + generator" where
  "New nodeID =
     (if nodeID < 0 \<or> nodeMax < nodeID then Inl (''node ID must be between 0 and '' @ FormatInt nodeMax)
      else Inr \<lparr>gen_nodeID = nodeID, gen_timestamp = 0, gen_sequence = 0\<rparr>)"

text \<open>The wait for the next millisecond, from reading \<open>n\<close> of the clock on: the time and the next reading.\<close>

partial_function (option) waitNext :: "(nat \<Rightarrow> int) \<Rightarrow> int \<Rightarrow> int \<Rightarrow> nat \<Rightarrow> (int \<times> nat) option" where
  "waitNext clock timestamp now n =
     (if now \<le> timestamp then waitNext clock timestamp (clock n - epoch) (Suc n) else Some (now, n))"

definition composeID :: "int \<Rightarrow> int \<Rightarrow> int \<Rightarrow> 64 word" where
  "composeID now nodeID sequence =
     push_bit timestampShift (word_of_int now) OR push_bit nodeShift (word_of_int nodeID) OR word_of_int sequence"

definition Generate :: "(nat \<Rightarrow> int) \<Rightarrow> nat \<Rightarrow> generator \<Rightarrow> (64 word \<times> generator \<times> nat) option" where
  "Generate clock n g =
     (let now = clock n - epoch;
          sequence = (if now = gen_timestamp g then (gen_sequence g + 1) AND sequenceMask else 0)
      in case (if now = gen_timestamp g \<and> sequence = 0 then waitNext clock (gen_timestamp g) now (Suc n) else Some (now, Suc n)) of
           None \<Rightarrow> None
         | Some (now1, n1) \<Rightarrow>
             Some (composeID now1 (gen_nodeID g) sequence, g\<lparr>gen_sequence := sequence, gen_timestamp := now1\<rparr>, n1))"

text \<open>The ids of \<open>k\<close> calls.\<close>

fun generateMany :: "(nat \<Rightarrow> int) \<Rightarrow> nat \<Rightarrow> nat \<Rightarrow> generator \<Rightarrow> (64 word list \<times> generator \<times> nat) option" where
  "generateMany clock 0 n g = Some ([], g, n)"
| "generateMany clock (Suc k) n g =
     (case Generate clock n g of
        None \<Rightarrow> None
      | Some (i, g', n') \<Rightarrow>
          (case generateMany clock k n' g' of None \<Rightarrow> None | Some (ids, g'', n'') \<Rightarrow> Some (i # ids, g'', n'')))"

section \<open>The layout of an id\<close>

lemma constants [simp]: "nodeMax = 1023" "sequenceMask = 4095" "nodeShift = 12" "timestampShift = 22"
  by (simp_all add: nodeMax_def sequenceMask_def nodeShift_def timestampShift_def nodeBits_def sequenceBits_def mask_eq_exp_minus_1)

lemma or_disjoint:
  fixes a b :: int assumes "0 \<le> b" "b < 2 ^ k" shows "push_bit k a OR b = a * 2 ^ k + b"
proof -
  have b: "b = take_bit k b" using assms by (simp add: take_bit_int_eq_self)
  have "\<not> bit (push_bit k a) n \<or> \<not> bit b n" for n
    by (subst b) (auto simp: bit_push_bit_iff bit_take_bit_iff)
  then have "push_bit k a + b = push_bit k a OR b" by (rule disjunctive_add)
  then show ?thesis by (simp add: push_bit_eq_mult)
qed

lemma composeID_uint:
  assumes "0 \<le> now" "now < 2 ^ 41" "0 \<le> node" "node < 2 ^ 10" "0 \<le> seq" "seq < 2 ^ 12"
  shows "uint (composeID now node seq) = now * 2 ^ 22 + node * 2 ^ 12 + seq"
proof -
  have small: "take_bit 64 x = x" if "0 \<le> x" "x < 2 ^ 63" for x :: int
    using that by (simp add: take_bit_int_eq_self)
  have "uint (composeID now node seq) = take_bit 64 (push_bit 22 (take_bit 64 now)) OR take_bit 64 (push_bit 12 (take_bit 64 node)) OR take_bit 64 seq"
    by (simp add: composeID_def unsigned_or_eq unsigned_push_bit_eq uint_word_of_int_eq)
  also have "\<dots> = push_bit 22 now OR (push_bit 12 node OR seq)"
    using assms small [of now] small [of "push_bit 22 now"] small [of node] small [of "push_bit 12 node"] small [of seq]
    by (simp add: push_bit_eq_mult or.assoc)
  also have "push_bit 12 node OR seq = node * 2 ^ 12 + seq" by (rule or_disjoint) (use assms in simp_all)
  also have "push_bit 22 now OR (node * 2 ^ 12 + seq) = now * 2 ^ 22 + (node * 2 ^ 12 + seq)"
    by (rule or_disjoint) (use assms in simp_all)
  finally show ?thesis by simp
qed

section \<open>The wait\<close>

text \<open>The wait ends as soon as some reading is past the time stamp, with a reading past it.\<close>

lemma waitNext_ends:
  assumes "m \<le> k" and "timestamp < clock k - epoch"
  shows "\<exists>j. waitNext clock timestamp (clock m - epoch) (Suc m) = Some (clock j - epoch, Suc j) \<and> m \<le> j \<and> j \<le> k \<and>
    timestamp < clock j - epoch"
  using assms
proof (induction "k - m" arbitrary: m)
  case 0
  then show ?case by (intro exI [of _ k]) (simp add: waitNext.simps [of clock timestamp])
next
  case (Suc d)
  show ?case
  proof (cases "clock m - epoch \<le> timestamp")
    case True
    have "d = k - Suc m" "Suc m \<le> k" using Suc.hyps(2) by simp_all
    from Suc.hyps(1) [OF this Suc.prems(2)] obtain j where
      "waitNext clock timestamp (clock (Suc m) - epoch) (Suc (Suc m)) = Some (clock j - epoch, Suc j)" "Suc m \<le> j" "j \<le> k"
      "timestamp < clock j - epoch" by blast
    then show ?thesis using True by (intro exI [of _ j]) (simp add: waitNext.simps [of clock timestamp "clock m - epoch"])
  next
    case False
    then show ?thesis using Suc.prems by (intro exI [of _ m]) (simp add: waitNext.simps [of clock timestamp])
  qed
qed

text \<open>With a clock that stops at the time stamp it never ends, and the mutex is never released.\<close>

lemma waitNext_stopped:
  assumes "\<And>k. clock k - epoch \<le> timestamp" and "now \<le> timestamp" shows "waitNext clock timestamp now n = None"
proof (rule ccontr)
  assume "waitNext clock timestamp now n \<noteq> None"
  then obtain x where x: "waitNext clock timestamp now n = Some x" by blast
  have "timestamp < fst x \<and> (fst x = now \<or> (\<exists>k. fst x = clock k - epoch))"
    by (rule waitNext.raw_induct [OF _ x]) (fastforce split: if_splits)
  then obtain k where "timestamp < clock k - epoch" using assms(2) by auto
  then show False using assms(1) [of k] by simp
qed

section \<open>Ids of one process\<close>

text \<open>A clock that never runs backwards, was started after the epoch, and does not stop.\<close>

definition good_clock :: "(nat \<Rightarrow> int) \<Rightarrow> bool" where
  "good_clock clock \<longleftrightarrow> mono clock \<and> epoch \<le> clock 0 \<and> (\<forall>n. \<exists>k. clock n < clock k)"

text \<open>The state between two calls, and what grows with every call.\<close>

definition gen_ok :: "(nat \<Rightarrow> int) \<Rightarrow> nat \<Rightarrow> generator \<Rightarrow> bool" where
  "gen_ok clock n g \<longleftrightarrow> 0 \<le> gen_nodeID g \<and> gen_nodeID g < 2 ^ 10 \<and> 0 \<le> gen_sequence g \<and> gen_sequence g < 2 ^ 12 \<and>
     0 \<le> gen_timestamp g \<and> (\<forall>j \<ge> n. gen_timestamp g \<le> clock j - epoch)"

definition gen_id :: "generator \<Rightarrow> int" where
  "gen_id g = gen_timestamp g * 2 ^ 22 + gen_nodeID g * 2 ^ 12 + gen_sequence g"

lemma next_sequence: "0 \<le> x \<Longrightarrow> x < 2 ^ 12 \<Longrightarrow> (x + 1) AND 4095 = (if x = 4095 then 0 else x + (1 :: int))"
proof -
  assume "0 \<le> x" "x < 2 ^ 12"
  moreover have "(x + 1) AND 4095 = take_bit 12 (x + 1)" by (simp add: take_bit_eq_mask mask_eq_exp_minus_1)
  ultimately show ?thesis by (auto simp: take_bit_int_eq_self)
qed

lemma Generate_step:
  assumes clock: "good_clock clock" and g: "gen_ok clock n g"
  shows "\<exists>g' n'. Generate clock n g = Some (composeID (gen_timestamp g') (gen_nodeID g) (gen_sequence g'), g', n') \<and>
    gen_ok clock n' g' \<and> gen_nodeID g' = gen_nodeID g \<and> gen_id g < gen_id g' \<and> gen_timestamp g \<le> gen_timestamp g'"
proof -
  have mono: "clock i \<le> clock j" if "i \<le> j" for i j using clock that by (auto simp: good_clock_def mono_def)
  have range: "0 \<le> gen_nodeID g" "gen_nodeID g < 2 ^ 10" "0 \<le> gen_sequence g" "gen_sequence g < 2 ^ 12" "0 \<le> gen_timestamp g"
    and now: "gen_timestamp g \<le> clock n - epoch" using g by (auto simp: gen_ok_def)
  consider "clock n - epoch = gen_timestamp g" "gen_sequence g = 4095" | "clock n - epoch = gen_timestamp g" "gen_sequence g \<noteq> 4095"
    | "gen_timestamp g < clock n - epoch" using now by fastforce
  then show ?thesis
  proof cases
    case 1
    obtain k where k: "clock n < clock k" using clock by (auto simp: good_clock_def)
    then have "n \<le> k" using mono by (meson linorder_not_less nle_le)
    from waitNext_ends [OF this, of "gen_timestamp g" clock] k 1 obtain j where
      j: "waitNext clock (gen_timestamp g) (clock n - epoch) (Suc n) = Some (clock j - epoch, Suc j)" "gen_timestamp g < clock j - epoch"
      by auto
    have "gen_ok clock (Suc j) (g\<lparr>gen_sequence := 0, gen_timestamp := clock j - epoch\<rparr>)"
      using range j mono by (auto simp: gen_ok_def)
    moreover have "gen_id g < gen_id (g\<lparr>gen_sequence := 0, gen_timestamp := clock j - epoch\<rparr>)"
      using range j(2) by (simp add: gen_id_def)
    ultimately show ?thesis using 1 j
      by (intro exI [of _ "g\<lparr>gen_sequence := 0, gen_timestamp := clock j - epoch\<rparr>"] exI [of _ "Suc j"]) (simp add: Generate_def Let_def)
  next
    case 2
    have "gen_timestamp g \<le> clock j - epoch" if "Suc n \<le> j" for j using mono [of n j] 2 that by simp
    then have "gen_ok clock (Suc n) (g\<lparr>gen_sequence := gen_sequence g + 1, gen_timestamp := clock n - epoch\<rparr>)"
      using range 2 by (simp add: gen_ok_def)
    then show ?thesis using 2 range next_sequence [OF range(3,4)]
      by (intro exI [of _ "g\<lparr>gen_sequence := gen_sequence g + 1, gen_timestamp := clock n - epoch\<rparr>"] exI [of _ "Suc n"])
        (simp add: Generate_def Let_def gen_id_def)
  next
    case 3
    have "gen_ok clock (Suc n) (g\<lparr>gen_sequence := 0, gen_timestamp := clock n - epoch\<rparr>)"
      using range 3 mono by (auto simp: gen_ok_def)
    then show ?thesis using 3 range
      by (intro exI [of _ "g\<lparr>gen_sequence := 0, gen_timestamp := clock n - epoch\<rparr>"] exI [of _ "Suc n"])
        (simp add: Generate_def Let_def gen_id_def)
  qed
qed

lemma generateMany_ok:
  assumes clock: "good_clock clock" and g: "gen_ok clock n g"
  shows "\<exists>ids g' n'. generateMany clock k n g = Some (ids, g', n') \<and> length ids = k \<and> gen_timestamp g \<le> gen_timestamp g' \<and>
    (gen_timestamp g' < 2 ^ 41 \<longrightarrow> sorted_wrt (<) (map uint ids) \<and>
      (\<forall>i \<in> set ids. gen_id g < uint i \<and> uint i < 2 ^ 63 \<and> uint i div 2 ^ 12 mod 2 ^ 10 = gen_nodeID g))"
  using g
proof (induction k arbitrary: n g)
  case 0
  then show ?case by simp
next
  case (Suc k)
  obtain g1 n1 where s: "Generate clock n g = Some (composeID (gen_timestamp g1) (gen_nodeID g) (gen_sequence g1), g1, n1)"
    "gen_ok clock n1 g1" "gen_nodeID g1 = gen_nodeID g" "gen_id g < gen_id g1" "gen_timestamp g \<le> gen_timestamp g1"
    using Generate_step [OF clock Suc.prems] by blast
  obtain ids g' n' where r: "generateMany clock k n1 g1 = Some (ids, g', n')" "length ids = k" "gen_timestamp g1 \<le> gen_timestamp g'"
    "gen_timestamp g' < 2 ^ 41 \<Longrightarrow> sorted_wrt (<) (map uint ids) \<and>
      (\<forall>i \<in> set ids. gen_id g1 < uint i \<and> uint i < 2 ^ 63 \<and> uint i div 2 ^ 12 mod 2 ^ 10 = gen_nodeID g1)"
    using Suc.IH [OF s(2)] by blast
  let ?i = "composeID (gen_timestamp g1) (gen_nodeID g) (gen_sequence g1)"
  have id: "uint ?i = gen_id g1 \<and> gen_id g1 < 2 ^ 63 \<and> gen_id g1 div 2 ^ 12 mod 2 ^ 10 = gen_nodeID g" if "gen_timestamp g1 < 2 ^ 41"
  proof -
    have u: "uint ?i = gen_id g1" using composeID_uint [of "gen_timestamp g1" "gen_nodeID g" "gen_sequence g1"] s(2,3) that
      by (simp add: gen_ok_def gen_id_def)
    have "gen_id g1 = (gen_timestamp g1 * 2 ^ 10 + gen_nodeID g) * 2 ^ 12 + gen_sequence g1" by (simp add: gen_id_def s(3))
    moreover have "0 \<le> gen_sequence g1" "gen_sequence g1 < 2 ^ 12" "0 \<le> gen_nodeID g" "gen_nodeID g < 2 ^ 10" "0 \<le> gen_timestamp g1"
      using s(2,3) by (simp_all add: gen_ok_def)
    ultimately have "gen_id g1 div 2 ^ 12 = gen_timestamp g1 * 2 ^ 10 + gen_nodeID g" by simp
    then have "gen_id g1 div 2 ^ 12 mod 2 ^ 10 = gen_nodeID g" using s(2,3) by (simp add: gen_ok_def)
    moreover have "gen_id g1 < 2 ^ 63" using s(2,3) that by (simp add: gen_id_def gen_ok_def)
    ultimately show ?thesis using u by simp
  qed
  show ?case
    by (rule exI [of _ "?i # ids"], rule exI [of _ g'], rule exI [of _ n']) (use s r id in fastforce)
qed

lemma sint_small: "uint (w :: 64 word) < 2 ^ 63 \<Longrightarrow> sint w = uint w"
  using signed_take_bit_int_eq_self [of 63 "uint w"] unsigned_greater_eq [of w, where 'a = int] by (simp add: sint_uint)

lemma New_gen_ok:
  assumes "New nodeID = Inr g" and "good_clock clock" shows "gen_ok clock 0 g \<and> gen_nodeID g = nodeID \<and> gen_id g = nodeID * 2 ^ 12 \<and> 0 \<le> nodeID"
proof -
  have "epoch \<le> clock j" for j using assms(2) by (auto simp: good_clock_def mono_def intro: order_trans)
  then show ?thesis using assms(1) by (auto simp: New_def gen_ok_def gen_id_def split: if_splits)
qed

text \<open>
  C40: With a clock that never runs backwards, every sequence of calls of one generator returns, and as long as
  41 bits hold the milliseconds since the epoch the ids, read as \<open>int64\<close>, are positive, grow with every call
  (so no two are equal) and carry the node in bits 12 to 21 (so two nodes never make the same id). The wait
  for the next millisecond, taken when the 4096 ids of one are used up, ends.
\<close>

theorem snowflake_ids_increase:
  assumes "New nodeID = Inr g" and "good_clock clock"
  shows "\<exists>ids g' n'. generateMany clock k 0 g = Some (ids, g', n') \<and> length ids = k \<and>
    (gen_timestamp g' < 2 ^ 41 \<longrightarrow> sorted_wrt (<) (map sint ids) \<and>
      (\<forall>i \<in> set ids. 0 < sint i \<and> sint i div 2 ^ 12 mod 2 ^ 10 = nodeID))"
proof -
  have g: "gen_ok clock 0 g" "gen_nodeID g = nodeID" "0 \<le> gen_id g" using New_gen_ok [OF assms] by simp_all
  obtain ids g' n' where r: "generateMany clock k 0 g = Some (ids, g', n')" "length ids = k"
    "gen_timestamp g' < 2 ^ 41 \<Longrightarrow> sorted_wrt (<) (map uint ids) \<and>
      (\<forall>i \<in> set ids. gen_id g < uint i \<and> uint i < 2 ^ 63 \<and> uint i div 2 ^ 12 mod 2 ^ 10 = gen_nodeID g)"
    using generateMany_ok [OF assms(2) g(1), of k] by blast
  have "sorted_wrt (<) (map sint ids) \<and> (\<forall>i \<in> set ids. 0 < sint i \<and> sint i div 2 ^ 12 mod 2 ^ 10 = nodeID)"
    if "gen_timestamp g' < 2 ^ 41"
  proof -
    have i: "sint i = uint i \<and> 0 < uint i \<and> uint i div 2 ^ 12 mod 2 ^ 10 = nodeID" if "i \<in> set ids" for i
      using r(3) [OF \<open>gen_timestamp g' < 2 ^ 41\<close>] that g(2,3) sint_small [of i] by (meson order_le_less_trans)
    then have "map sint ids = map uint ids" by simp
    then show ?thesis using r(3) [OF that] i by (metis (lifting))
  qed
  then show ?thesis using r(1,2) by blast
qed

definition demo_clock :: "nat \<Rightarrow> int" where "demo_clock n = epoch + 1 + int (n div 2)"

lemma demo_clock_good: "good_clock demo_clock"
proof -
  have "demo_clock n < demo_clock (n + 2)" for n by (simp add: demo_clock_def)
  then have "\<forall>n. \<exists>k. demo_clock n < demo_clock k" by blast
  moreover have "mono demo_clock" by (simp add: mono_def demo_clock_def div_le_mono)
  ultimately show ?thesis by (simp add: good_clock_def demo_clock_def)
qed

theorem snowflake_ids_increase_witness:
  "\<exists>ids g' n'. generateMany demo_clock 3 0 \<lparr>gen_nodeID = 7, gen_timestamp = 0, gen_sequence = 0\<rparr> = Some (ids, g', n') \<and>
    length ids = 3 \<and> gen_timestamp g' = 2 \<and> sorted_wrt (<) (map sint ids)"
proof -
  have new: "New 7 = Inr \<lparr>gen_nodeID = 7, gen_timestamp = 0, gen_sequence = 0\<rparr>" by (simp add: New_def)
  have "map_option (\<lambda>(ids, g', n'). gen_timestamp g') (generateMany demo_clock 3 0 \<lparr>gen_nodeID = 7, gen_timestamp = 0, gen_sequence = 0\<rparr>) = Some 2"
    by (simp add: numeral_3_eq_3 Generate_def Let_def demo_clock_def)
  then show ?thesis using snowflake_ids_increase [OF new demo_clock_good, of 3] by auto
qed

text \<open>
  The generator does not look at the direction of time. When the clock steps back (an NTP correction), the
  sequence starts again at 0 under a time stamp already used, and an id is issued a second time.
\<close>

lemma snowflake_clock_back:
  "map_option (\<lambda>(ids, g', n'). distinct ids)
     (generateMany (\<lambda>n. epoch + (if n = 1 then 6 else 5)) 3 0 \<lparr>gen_nodeID = 7, gen_timestamp = 0, gen_sequence = 0\<rparr>) = Some False"
  by (simp add: numeral_3_eq_3 Generate_def Let_def)

end
