(* ===== verification/GroupRule.thy ===== *)
theory GroupRule
  imports Org Complex_Main "HOL-Library.Log_Nat"
begin

text \<open>
  The rules of dynamic groups: \<open>internal/domain/group/rule.go\<close>, \<open>buildEvaluateSQL\<close> of \<open>rule_sync.go\<close> and
  \<open>EvaluateRule\<close> of \<open>repository_impl.go\<close>. A rule arrives as decoded JSON, is validated against the
  allow-list of fields and comparisons, compiled to SQL conditions with arguments, and run against the user
  table with its joins.

  A condition is kept as the parse of the text the code emits, \<open>sql_text\<close> prints that text, and the value of a
  condition on a row is that of SQL, with NULL as \<open>None\<close>. A statement the server would refuse (a column of a table
  that is not joined, an argument of another type) is an error. Case folding of \<open>ILIKE\<close> is the
  database's and is an argument, as is \<open>fmt.Sprint\<close>, which no validated rule reaches. A finite \<open>float64\<close> is a
  rational number; what a conversion of a float out of range gives is left to the implementation by the
  language, and is an argument.
\<close>

section \<open>Values\<close>

datatype any =
    AString string | AFloat rat | AInt int | AInt64 int | ABool bool | ANull | AArr "any list" | AObj "(string \<times> any) list"

text \<open>The conversion of an integer to \<open>float64\<close>: 53 significant bits, ties to even.\<close>

definition roundEven :: "int \<Rightarrow> int \<Rightarrow> int" where
  "roundEven i m =
     (let q = i div m; r = i mod m
      in if 2 * r < m then q else if m < 2 * r then q + 1 else if even q then q else q + 1)"

definition float64 :: "int \<Rightarrow> rat" where
  "float64 i =
     (let k = nat (bitlen \<bar>i\<bar> - 53)
      in if k = 0 then of_int i else of_int (roundEven i (2 ^ k) * 2 ^ k))"

text \<open>The conversion back, to a 64-bit integer, truncates.\<close>

definition truncF :: "rat \<Rightarrow> int" where
  "truncF x = (if 0 \<le> x then \<lfloor>x\<rfloor> else \<lceil>x\<rceil>)"

definition goInt :: "(rat \<Rightarrow> int) \<Rightarrow> rat \<Rightarrow> int" where
  "goInt oor x = (if - (2 ^ 63) \<le> truncF x \<and> truncF x < 2 ^ 63 then truncF x else oor x)"

text \<open>\<open>strconv.ParseInt(s, 10, 64)\<close>: the value it returns in any case, and whether the error is nil.\<close>

definition isDigit :: "char \<Rightarrow> bool" where
  "isDigit c = (c \<in> set ''0123456789'')"

definition ParseInt :: "string \<Rightarrow> int \<times> bool" where
  "ParseInt s =
     (let neg = (s \<noteq> [] \<and> hd s = CHR ''-'');
          ds = (if s \<noteq> [] \<and> (hd s = CHR ''-'' \<or> hd s = CHR ''+'') then tl s else s);
          v = int (dec_value ds)
      in if ds = [] \<or> \<not> list_all isDigit ds then (0, False)
         else if neg then (if v \<le> 2 ^ 63 then (- v, True) else (- (2 ^ 63), False))
         else (if v < 2 ^ 63 then (v, True) else (2 ^ 63 - 1, False)))"

text \<open>\<open>strings.TrimSpace(s) == ""\<close>: only white space, the white space of Unicode in UTF-8.\<close>

definition asciiSpace :: "char \<Rightarrow> bool" where
  "asciiSpace c = (c \<in> {CHR 0x09, CHR 0x0A, CHR 0x0B, CHR 0x0C, CHR 0x0D, CHR 0x20})"

definition space3 :: "char \<Rightarrow> char \<Rightarrow> char \<Rightarrow> bool" where
  "space3 a b c =
     (a = CHR 0xE1 \<and> b = CHR 0x9A \<and> c = CHR 0x80 \<or>
      a = CHR 0xE2 \<and> b = CHR 0x80 \<and> c \<in> {CHR 0x80, CHR 0x81, CHR 0x82, CHR 0x83, CHR 0x84, CHR 0x85, CHR 0x86, CHR 0x87, CHR 0x88, CHR 0x89, CHR 0x8A, CHR 0xA8, CHR 0xA9, CHR 0xAF} \<or>
      a = CHR 0xE2 \<and> b = CHR 0x81 \<and> c = CHR 0x9F \<or>
      a = CHR 0xE3 \<and> b = CHR 0x80 \<and> c = CHR 0x80)"

fun blank :: "string \<Rightarrow> bool" where
  "blank [] = True"
| "blank [a] = asciiSpace a"
| "blank [a, b] = (asciiSpace a \<and> blank [b] \<or> a = CHR 0xC2 \<and> (b = CHR 0x85 \<or> b = CHR 0xA0))"
| "blank (a # b # c # s) =
     (asciiSpace a \<and> blank (b # c # s) \<or> a = CHR 0xC2 \<and> (b = CHR 0x85 \<or> b = CHR 0xA0) \<and> blank (c # s) \<or> space3 a b c \<and> blank s)"

section \<open>Rules\<close>

record rule_condition =
  rc_Field :: string
  rc_Cmp :: string
  rc_Value :: any

record rule_expr =
  re_Op :: string
  re_Conditions :: "rule_condition list"

record rule_field =
  rf_SQL :: string
  rf_AllowedCmps :: "string list"
  rf_ValueKind :: string
  rf_NeedsDetail :: bool
  rf_NeedsOrgPath :: bool

definition mkField :: "string \<Rightarrow> string list \<Rightarrow> string \<Rightarrow> bool \<Rightarrow> rule_field" where
  "mkField sql cmps kind detail =
     \<lparr>rf_SQL = sql, rf_AllowedCmps = cmps, rf_ValueKind = kind, rf_NeedsDetail = detail, rf_NeedsOrgPath = False\<rparr>"

definition ruleFields :: "(string \<times> rule_field) list" where
  "ruleFields =
     [(''username'', mkField ''u.username'' [''eq'', ''ne'', ''contains'', ''startswith'', ''endswith''] ''string'' False),
      (''email'', mkField ''u.email'' [''eq'', ''ne'', ''contains'', ''startswith'', ''endswith''] ''string'' False),
      (''display_name'', mkField ''u.display_name'' [''eq'', ''contains'', ''startswith'', ''endswith''] ''string'' False),
      (''status'', mkField ''u.status'' [''eq'', ''ne'', ''in''] ''int'' False),
      (''org_id'', mkField ''uo.org_id'' [''eq'', ''in'', ''in_subtree''] ''id'' False),
      (''detail.department'', mkField ''d.department'' [''eq'', ''ne'', ''contains''] ''string'' True),
      (''detail.job_title'', mkField ''d.job_title'' [''eq'', ''ne'', ''contains''] ''string'' True),
      (''detail.employee_no'', mkField ''d.employee_no'' [''eq'', ''ne'', ''startswith''] ''string'' True)]"

text \<open>A read of a missing key of a Go map gives the zero value.\<close>

definition zeroField :: rule_field where
  "zeroField = mkField [] [] [] False"

definition AllowedRuleFields :: "(string \<times> string list) list" where
  "AllowedRuleFields = map (\<lambda>(f, def). (f, rf_AllowedCmps def)) ruleFields"

datatype rule_error =
    ErrRuleEmpty | ErrRuleDecode | ErrRuleNestedNotSupported | ErrRuleUnknownField string nat
  | ErrRuleUnknownCmp string string nat | ErrRuleInvalidValue nat string | ErrUnhandledCmp string | RulePanic

definition validateScalar :: "(rat \<Rightarrow> int) \<Rightarrow> rule_field \<Rightarrow> any \<Rightarrow> string option" where
  "validateScalar oor def v =
     (if rf_ValueKind def = ''string'' then
        (case v of AString s \<Rightarrow> if blank s then Some ''value cannot be empty'' else None
         | _ \<Rightarrow> Some ''expected string'')
      else if rf_ValueKind def = ''int'' then
        (case v of
           AFloat x \<Rightarrow> if x \<noteq> float64 (goInt oor x) then Some ''expected integer'' else None
         | AInt _ \<Rightarrow> None | AInt64 _ \<Rightarrow> None
         | _ \<Rightarrow> Some ''expected integer'')
      else if rf_ValueKind def = ''id'' then
        (case v of
           AString s \<Rightarrow> if \<not> snd (ParseInt s) then Some ''invalid id string'' else None
         | AFloat x \<Rightarrow> if x \<noteq> float64 (goInt oor x) then Some ''expected integer id'' else None
         | _ \<Rightarrow> Some ''expected id (string or number)'')
      else None)"

fun validateAll :: "(rat \<Rightarrow> int) \<Rightarrow> rule_field \<Rightarrow> any list \<Rightarrow> string option" where
  "validateAll oor def [] = None"
| "validateAll oor def (e # arr) =
     (case validateScalar oor def e of Some err \<Rightarrow> Some err | None \<Rightarrow> validateAll oor def arr)"

definition validateValue :: "(rat \<Rightarrow> int) \<Rightarrow> rule_field \<Rightarrow> string \<Rightarrow> any \<Rightarrow> string option" where
  "validateValue oor def cmp v =
     (if cmp = ''in'' then (case v of AArr arr \<Rightarrow> validateAll oor def arr | _ \<Rightarrow> Some ''value must be array for `in`'')
      else validateScalar oor def v)"

definition sliceContains :: "string list \<Rightarrow> string \<Rightarrow> bool" where
  "sliceContains s v = list_ex (\<lambda>x. x = v) s"

fun validateConditions :: "(rat \<Rightarrow> int) \<Rightarrow> nat \<Rightarrow> rule_condition list \<Rightarrow> rule_error option" where
  "validateConditions oor i [] = None"
| "validateConditions oor i (c # cs) =
     (case map_of ruleFields (rc_Field c) of
        None \<Rightarrow> Some (ErrRuleUnknownField (rc_Field c) i)
      | Some def \<Rightarrow>
          if \<not> sliceContains (rf_AllowedCmps def) (rc_Cmp c) then Some (ErrRuleUnknownCmp (rc_Cmp c) (rc_Field c) i)
          else case validateValue oor def (rc_Cmp c) (rc_Value c) of
                 Some err \<Rightarrow> Some (ErrRuleInvalidValue i err)
               | None \<Rightarrow> validateConditions oor (Suc i) cs)"

text \<open>\<open>None\<close> are no bytes at all.\<close>

definition ValidateRule :: "(rat \<Rightarrow> int) \<Rightarrow> rule_expr json option \<Rightarrow> rule_error + rule_expr" where
  "ValidateRule oor raw =
     (case raw of
        None \<Rightarrow> Inl ErrRuleEmpty
      | Some b \<Rightarrow>
          (case Unmarshal b of
             None \<Rightarrow> Inl ErrRuleDecode
           | Some expr0 \<Rightarrow>
               let expr = (if re_Op expr0 = [] then expr0\<lparr>re_Op := ''and''\<rparr> else expr0)
               in if re_Op expr \<noteq> ''and'' then Inl ErrRuleNestedNotSupported
                  else if re_Conditions expr = [] then Inl ErrRuleEmpty
                  else case validateConditions oor 0 (re_Conditions expr) of Some err \<Rightarrow> Inl err | None \<Rightarrow> Inr expr))"

section \<open>Compilation\<close>

datatype sql_cond = ColEq string | ColNe string | ColIn string | ColILike string | OrgSubtree

definition sql_text :: "sql_cond \<Rightarrow> string" where
  "sql_text q =
     (case q of
        ColEq c \<Rightarrow> c @ '' = ?''
      | ColNe c \<Rightarrow> c @ '' <> ?''
      | ColIn c \<Rightarrow> c @ '' IN ?''
      | ColILike c \<Rightarrow> c @ '' ILIKE ? ESCAPE '' @ [CHR 0x27, CHR 0x5C, CHR 0x27]
      | OrgSubtree \<Rightarrow> ''uo.org_id IN (SELECT child.id FROM mxid_organization child, mxid_organization root '' @
          ''WHERE root.id = ? AND child.path <@ root.path '' @
          ''AND child.deleted_at IS NULL AND root.deleted_at IS NULL '' @
          ''AND root.tenant_id = u.tenant_id AND child.tenant_id = u.tenant_id)'')"

record compiled_rule =
  cr_JoinDetail :: bool
  cr_JoinOrgFor :: "string list"
  cr_Where :: "sql_cond list"
  cr_Args :: "any list"

text \<open>What the compiler takes from outside: the conversion of floats out of range and \<open>fmt.Sprint\<close>.\<close>

record go_lib =
  gl_oor :: "rat \<Rightarrow> int"
  gl_Sprint :: "any \<Rightarrow> string"

definition toInt64 :: "go_lib \<Rightarrow> any \<Rightarrow> int" where
  "toInt64 gl v =
     (case v of
        AString s \<Rightarrow> fst (ParseInt s)
      | AFloat x \<Rightarrow> goInt (gl_oor gl) x
      | AInt i \<Rightarrow> i
      | AInt64 i \<Rightarrow> i
      | _ \<Rightarrow> 0)"

definition ruleToString :: "go_lib \<Rightarrow> any \<Rightarrow> string" where
  "ruleToString gl v = (case v of AString s \<Rightarrow> s | _ \<Rightarrow> gl_Sprint gl v)"

definition toScalar :: "go_lib \<Rightarrow> any \<Rightarrow> rule_field \<Rightarrow> any" where
  "toScalar gl v def = (if rf_ValueKind def = ''id'' then AInt64 (toInt64 gl v) else v)"

text \<open>The failing type assertion \<open>c.Value.([]any)\<close> is a panic.\<close>

definition compileCondition :: "go_lib \<Rightarrow> rule_field \<Rightarrow> rule_condition \<Rightarrow> rule_error + sql_cond \<times> any list" where
  "compileCondition gl def c =
     (if rc_Cmp c = ''eq'' then Inr (ColEq (rf_SQL def), [toScalar gl (rc_Value c) def])
      else if rc_Cmp c = ''ne'' then Inr (ColNe (rf_SQL def), [toScalar gl (rc_Value c) def])
      else if rc_Cmp c = ''in'' then
        (case rc_Value c of
           AArr arr \<Rightarrow> Inr (ColIn (rf_SQL def), [AArr (map (\<lambda>v. toScalar gl v def) arr)])
         | _ \<Rightarrow> Inl RulePanic)
      else if rc_Cmp c = ''contains'' then
        Inr (ColILike (rf_SQL def), [AString (''%'' @ EscapeLike (ruleToString gl (rc_Value c)) @ ''%'')])
      else if rc_Cmp c = ''startswith'' then
        Inr (ColILike (rf_SQL def), [AString (EscapeLike (ruleToString gl (rc_Value c)) @ ''%'')])
      else if rc_Cmp c = ''endswith'' then
        Inr (ColILike (rf_SQL def), [AString (''%'' @ EscapeLike (ruleToString gl (rc_Value c)))])
      else if rc_Cmp c = ''in_subtree'' then Inr (OrgSubtree, [AInt64 (toInt64 gl (rc_Value c))])
      else Inl (ErrUnhandledCmp (rc_Cmp c)))"

fun compileLoop :: "go_lib \<Rightarrow> rule_condition list \<Rightarrow> compiled_rule \<Rightarrow> rule_error + compiled_rule" where
  "compileLoop gl [] cr = Inr cr"
| "compileLoop gl (c # cs) cr =
     (let def = (case map_of ruleFields (rc_Field c) of Some d \<Rightarrow> d | None \<Rightarrow> zeroField);
          cr1 = (if rf_NeedsDetail def then cr\<lparr>cr_JoinDetail := True\<rparr> else cr);
          cr2 = (if rc_Field c = ''org_id'' then cr1\<lparr>cr_JoinOrgFor := List.insert (rc_Cmp c) (cr_JoinOrgFor cr1)\<rparr> else cr1)
      in bindE (compileCondition gl def c) (\<lambda>(frag, args).
           compileLoop gl cs (cr2\<lparr>cr_Where := cr_Where cr2 @ [frag], cr_Args := cr_Args cr2 @ args\<rparr>)))"

definition Compile :: "go_lib \<Rightarrow> rule_expr \<Rightarrow> rule_error + compiled_rule" where
  "Compile gl expr =
     compileLoop gl (re_Conditions expr) \<lparr>cr_JoinDetail = False, cr_JoinOrgFor = [], cr_Where = [], cr_Args = []\<rparr>"

fun joinStrings :: "string \<Rightarrow> string list \<Rightarrow> string" where
  "joinStrings sep [] = []"
| "joinStrings sep [s] = s"
| "joinStrings sep (s # ss) = s @ sep @ joinStrings sep ss"

definition WhereSQL :: "compiled_rule \<Rightarrow> string" where
  "WhereSQL cr = joinStrings '' AND '' (map sql_text (cr_Where cr))"

definition buildEvaluateSQL :: "compiled_rule \<Rightarrow> string" where
  "buildEvaluateSQL cr =
     ''SELECT DISTINCT u.id FROM mxid_user u'' @
     (if cr_JoinOrgFor cr \<noteq> [] then '' LEFT JOIN mxid_user_org uo ON uo.user_id = u.id '' else []) @
     (if cr_JoinDetail cr then '' LEFT JOIN mxid_user_detail d ON d.user_id = u.id '' else []) @
     '' WHERE u.tenant_id = ? AND u.deleted_at IS NULL AND ('' @ WhereSQL cr @ '')''"

section \<open>The query\<close>

record rule_user =
  ru_ID :: id
  ru_TenantID :: id
  ru_Username :: string
  ru_Email :: "string option"
  ru_DisplayName :: "string option"
  ru_Status :: int
  ru_Deleted :: bool

record user_detail =
  ud_UserID :: id
  ud_Department :: "string option"
  ud_JobTitle :: "string option"
  ud_EmployeeNo :: "string option"

record rule_db =
  rd_users :: "rule_user list"
  rd_details :: "user_detail list"
  rd_userOrgs :: "user_org list"
  rd_orgs :: "organization list"

text \<open>A row of the joined table; a side without a partner is NULL.\<close>

type_synonym joined_row = "rule_user \<times> user_detail option \<times> user_org option"

definition leftJoin :: "bool \<Rightarrow> ('a \<Rightarrow> id) \<Rightarrow> 'a list \<Rightarrow> id \<Rightarrow> 'a option list" where
  "leftJoin on key rows i =
     (if \<not> on then [None] else case filter (\<lambda>r. key r = i) rows of [] \<Rightarrow> [None] | rs \<Rightarrow> map Some rs)"

definition joinedRows :: "bool \<Rightarrow> bool \<Rightarrow> rule_db \<Rightarrow> joined_row list" where
  "joinedRows org detail db =
     concat (map (\<lambda>u. concat (map (\<lambda>uo. map (\<lambda>d. (u, d, uo)) (leftJoin detail ud_UserID (rd_details db) (ru_ID u)))
                              (leftJoin org uo_UserID (rd_userOrgs db) (ru_ID u))))
                 (rd_users db))"

datatype sql_type = TText | TInt
datatype sql_value = SNull | SText string | SNum rat

definition optText :: "string option \<Rightarrow> sql_value" where
  "optText x = (case x of None \<Rightarrow> SNull | Some s \<Rightarrow> SText s)"

definition columnType :: "bool \<Rightarrow> bool \<Rightarrow> string \<Rightarrow> sql_type option" where
  "columnType org detail c =
     (if c \<in> {''u.username'', ''u.email'', ''u.display_name''} then Some TText
      else if c = ''u.status'' then Some TInt
      else if c = ''uo.org_id'' \<and> org then Some TInt
      else if c \<in> {''d.department'', ''d.job_title'', ''d.employee_no''} \<and> detail then Some TText
      else None)"

definition column :: "string \<Rightarrow> joined_row \<Rightarrow> sql_value" where
  "column c row = (case row of (u, d, uo) \<Rightarrow>
     if c = ''u.username'' then SText (ru_Username u)
     else if c = ''u.email'' then optText (ru_Email u)
     else if c = ''u.display_name'' then optText (ru_DisplayName u)
     else if c = ''u.status'' then SNum (of_int (ru_Status u))
     else if c = ''uo.org_id'' then (case uo of None \<Rightarrow> SNull | Some m \<Rightarrow> SNum (of_int (uo_OrgID m)))
     else if c = ''d.department'' then optText (Option.bind d ud_Department)
     else if c = ''d.job_title'' then optText (Option.bind d ud_JobTitle)
     else if c = ''d.employee_no'' then optText (Option.bind d ud_EmployeeNo)
     else SNull)"

definition argType :: "any \<Rightarrow> sql_type option" where
  "argType a =
     (case a of AString _ \<Rightarrow> Some TText | AFloat x \<Rightarrow> if of_int \<lfloor>x\<rfloor> = x then Some TInt else None
      | AInt _ \<Rightarrow> Some TInt | AInt64 _ \<Rightarrow> Some TInt | _ \<Rightarrow> None)"

definition argValue :: "any \<Rightarrow> sql_value" where
  "argValue a =
     (case a of AString s \<Rightarrow> SText s | AFloat x \<Rightarrow> SNum x | AInt i \<Rightarrow> SNum (of_int i) | AInt64 i \<Rightarrow> SNum (of_int i) | _ \<Rightarrow> SNull)"

text \<open>What the server checks before it runs a condition.\<close>

definition condTyped :: "bool \<Rightarrow> bool \<Rightarrow> sql_cond \<Rightarrow> any \<Rightarrow> bool" where
  "condTyped org detail q a =
     (case q of
        ColEq c \<Rightarrow> columnType org detail c \<noteq> None \<and> argType a = columnType org detail c
      | ColNe c \<Rightarrow> columnType org detail c \<noteq> None \<and> argType a = columnType org detail c
      | ColIn c \<Rightarrow> columnType org detail c \<noteq> None \<and>
          (case a of AArr vs \<Rightarrow> list_all (\<lambda>v. argType v = columnType org detail c) vs | _ \<Rightarrow> False)
      | ColILike c \<Rightarrow> columnType org detail c = Some TText \<and> argType a = Some TText
      | OrgSubtree \<Rightarrow> org \<and> argType a = Some TInt)"

definition sqlEq :: "sql_value \<Rightarrow> sql_value \<Rightarrow> bool option" where
  "sqlEq x y = (if x = SNull \<or> y = SNull then None else Some (x = y))"

definition ilike :: "(char \<Rightarrow> char) \<Rightarrow> string \<Rightarrow> string \<Rightarrow> bool" where
  "ilike lc p s = sql_like (map lc p) (map lc s)"

definition subtreeOrgs :: "organization list \<Rightarrow> id \<Rightarrow> int \<Rightarrow> id list" where
  "subtreeOrgs orgs tenant rootID =
     map org_ID (filter (\<lambda>child. org_DeletedAt child = None \<and> org_TenantID child = tenant \<and>
       list_ex (\<lambda>r. org_ID r = rootID \<and> org_DeletedAt r = None \<and> org_TenantID r = tenant \<and> ltree_below (org_Path child) (org_Path r)) orgs) orgs)"

text \<open>The three-valued truth of a condition on a row. An empty list is sent as \<open>IN (NULL)\<close>.\<close>

definition evalCond :: "(char \<Rightarrow> char) \<Rightarrow> organization list \<Rightarrow> joined_row \<Rightarrow> sql_cond \<Rightarrow> any \<Rightarrow> bool option" where
  "evalCond lc orgs row q a =
     (case q of
        ColEq c \<Rightarrow> sqlEq (column c row) (argValue a)
      | ColNe c \<Rightarrow> map_option Not (sqlEq (column c row) (argValue a))
      | ColIn c \<Rightarrow>
          (case a of
             AArr vs \<Rightarrow> if column c row = SNull \<or> vs = [] then None else Some (list_ex (\<lambda>v. column c row = argValue v) vs)
           | _ \<Rightarrow> None)
      | ColILike c \<Rightarrow> (case (column c row, a) of (SText s, AString p) \<Rightarrow> Some (ilike lc p s) | _ \<Rightarrow> None)
      | OrgSubtree \<Rightarrow>
          (let ids = subtreeOrgs orgs (ru_TenantID (fst row)) (case argValue a of SNum x \<Rightarrow> \<lfloor>x\<rfloor> | _ \<Rightarrow> 0)
           in if ids = [] then Some False
              else case snd (snd row) of None \<Rightarrow> None | Some m \<Rightarrow> Some (uo_OrgID m \<in> set ids)))"

definition and3 :: "bool option \<Rightarrow> bool option \<Rightarrow> bool option" where
  "and3 x y = (if x = Some False \<or> y = Some False then Some False else if x = None \<or> y = None then None else Some True)"

definition evalWhere :: "(char \<Rightarrow> char) \<Rightarrow> organization list \<Rightarrow> joined_row \<Rightarrow> (sql_cond \<times> any) list \<Rightarrow> bool option" where
  "evalWhere lc orgs row qs = foldr (\<lambda>(q, a) t. and3 (evalCond lc orgs row q a) t) qs (Some True)"

definition queryTyped :: "compiled_rule \<Rightarrow> bool" where
  "queryTyped cr =
     (cr_Where cr \<noteq> [] \<and> length (cr_Args cr) = length (cr_Where cr) \<and>
      list_all (\<lambda>(q, a). condTyped (cr_JoinOrgFor cr \<noteq> []) (cr_JoinDetail cr) q a) (zip (cr_Where cr) (cr_Args cr)))"

definition EvaluateRule ::
  "(char \<Rightarrow> char) \<Rightarrow> org_faults \<Rightarrow> rule_db \<Rightarrow> id \<Rightarrow> compiled_rule \<Rightarrow> db_error + id list" where
  "EvaluateRule lc flt db tenantID cr =
     dbcall flt ''EvaluateRule'' tenantID
       (if \<not> queryTyped cr then Inl (PgError ''42000'' (buildEvaluateSQL cr))
        else Inr (remdups (map (\<lambda>row. ru_ID (fst row))
               (filter (\<lambda>row. ru_TenantID (fst row) = tenantID \<and> \<not> ru_Deleted (fst row) \<and>
                          evalWhere lc (rd_orgs db) row (zip (cr_Where cr) (cr_Args cr)) = Some True)
                  (joinedRows (cr_JoinOrgFor cr \<noteq> []) (cr_JoinDetail cr) db)))))"

section \<open>Validated rules compile\<close>

definition condValid :: "(rat \<Rightarrow> int) \<Rightarrow> rule_condition \<Rightarrow> bool" where
  "condValid oor c =
     (case map_of ruleFields (rc_Field c) of
        None \<Rightarrow> False
      | Some def \<Rightarrow> rc_Cmp c \<in> set (rf_AllowedCmps def) \<and> validateValue oor def (rc_Cmp c) (rc_Value c) = None)"

lemma validateAll_None: "validateAll oor def vs = None \<longleftrightarrow> (\<forall>v \<in> set vs. validateScalar oor def v = None)"
  by (induction vs) (auto split: option.splits)

lemma validateConditions_None: "validateConditions oor i cs = None \<longleftrightarrow> (\<forall>c \<in> set cs. condValid oor c)"
  by (induction cs arbitrary: i) (auto simp: condValid_def sliceContains_def list_ex_iff split: option.splits if_splits)

lemma ValidateRule_ok:
  assumes "ValidateRule oor raw = Inr expr"
  shows "re_Conditions expr \<noteq> [] \<and> (\<forall>c \<in> set (re_Conditions expr). condValid oor c) \<and> re_Op expr = ''and''"
  using assms by (auto simp: ValidateRule_def Let_def validateConditions_None split: option.splits if_splits)

definition fieldOf :: "rule_condition \<Rightarrow> rule_field" where
  "fieldOf c = (case map_of ruleFields (rc_Field c) of Some d \<Rightarrow> d | None \<Rightarrow> zeroField)"

lemma float64_integral: "x = float64 i \<Longrightarrow> of_int \<lfloor>x\<rfloor> = x"
  by (simp add: float64_def Let_def split: if_splits)

lemma validateScalar_string:
  "rf_ValueKind def = ''string'' \<Longrightarrow> validateScalar oor def v = None \<longleftrightarrow> (\<exists>s. v = AString s \<and> \<not> blank s)"
  by (simp add: validateScalar_def split: any.splits)

lemma validateScalar_int:
  assumes "rf_ValueKind def = ''int''" and "validateScalar oor def v = None" shows "argType v = Some TInt"
proof (cases v)
  case (AFloat x)
  then have "x = float64 (goInt oor x)" using assms by (simp add: validateScalar_def split: if_splits)
  then have "of_int \<lfloor>x\<rfloor> = x" by (rule float64_integral)
  then show ?thesis using AFloat by (simp add: argType_def)
qed (use assms in \<open>simp_all add: validateScalar_def argType_def\<close>)

text \<open>The eight fields, by the kind of their values.\<close>

definition textColumn :: "bool \<Rightarrow> string \<Rightarrow> bool" where
  "textColumn detail c =
     (if detail then c \<in> {''d.department'', ''d.job_title'', ''d.employee_no''} else c \<in> {''u.username'', ''u.email'', ''u.display_name''})"

lemma ruleFields_kinds:
  assumes "map_of ruleFields f = Some def"
  shows "rf_ValueKind def = ''string'' \<and> f \<noteq> ''org_id'' \<and> f \<noteq> ''status'' \<and> textColumn (rf_NeedsDetail def) (rf_SQL def) \<and>
      set (rf_AllowedCmps def) \<subseteq> {''eq'', ''ne'', ''contains'', ''startswith'', ''endswith''}
    \<or> rf_ValueKind def = ''int'' \<and> f = ''status'' \<and> rf_SQL def = ''u.status'' \<and> set (rf_AllowedCmps def) = {''eq'', ''ne'', ''in''}
    \<or> rf_ValueKind def = ''id'' \<and> f = ''org_id'' \<and> rf_SQL def = ''uo.org_id'' \<and> set (rf_AllowedCmps def) = {''eq'', ''in'', ''in_subtree''}"
  using assms by (auto simp: ruleFields_def mkField_def textColumn_def split: if_splits)

lemma condValid_cases [consumes 1, case_names str num org]:
  assumes "condValid oor c"
  obtains (str) s where "rf_ValueKind (fieldOf c) = ''string''" "rc_Value c = AString s" "\<not> blank s"
      "rc_Cmp c \<in> {''eq'', ''ne'', ''contains'', ''startswith'', ''endswith''}"
      "textColumn (rf_NeedsDetail (fieldOf c)) (rf_SQL (fieldOf c))" "rc_Field c \<noteq> ''org_id''" "rc_Field c \<noteq> ''status''"
    | (num) "rf_ValueKind (fieldOf c) = ''int''" "rf_SQL (fieldOf c) = ''u.status''" "rc_Field c = ''status''"
      "rc_Cmp c \<in> {''eq'', ''ne'', ''in''}" "validateValue oor (fieldOf c) (rc_Cmp c) (rc_Value c) = None"
    | (org) "rf_ValueKind (fieldOf c) = ''id''" "rf_SQL (fieldOf c) = ''uo.org_id''" "rc_Field c = ''org_id''"
      "rc_Cmp c \<in> {''eq'', ''in'', ''in_subtree''}" "validateValue oor (fieldOf c) (rc_Cmp c) (rc_Value c) = None"
proof -
  obtain def where f: "map_of ruleFields (rc_Field c) = Some def" and d: "fieldOf c = def" and cmp: "rc_Cmp c \<in> set (rf_AllowedCmps def)"
    and v: "validateValue oor def (rc_Cmp c) (rc_Value c) = None"
    using assms by (auto simp: condValid_def fieldOf_def split: option.splits)
  from ruleFields_kinds [OF f] show thesis
  proof (elim disjE conjE)
    assume k: "rf_ValueKind def = ''string''" "rc_Field c \<noteq> ''org_id''" "rc_Field c \<noteq> ''status''" "textColumn (rf_NeedsDetail def) (rf_SQL def)"
      "set (rf_AllowedCmps def) \<subseteq> {''eq'', ''ne'', ''contains'', ''startswith'', ''endswith''}"
    then have c: "rc_Cmp c \<in> {''eq'', ''ne'', ''contains'', ''startswith'', ''endswith''}" using cmp by blast
    then have "validateScalar oor def (rc_Value c) = None" using v by (auto simp: validateValue_def)
    then obtain s where "rc_Value c = AString s" "\<not> blank s" using validateScalar_string [OF k(1)] by blast
    then show thesis using str k c d by metis
  next
    assume "rf_ValueKind def = ''int''" "rc_Field c = ''status''" "rf_SQL def = ''u.status''" "set (rf_AllowedCmps def) = {''eq'', ''ne'', ''in''}"
    then show thesis using num v cmp d by metis
  next
    assume "rf_ValueKind def = ''id''" "rc_Field c = ''org_id''" "rf_SQL def = ''uo.org_id''"
      "set (rf_AllowedCmps def) = {''eq'', ''in'', ''in_subtree''}"
    then show thesis using org v cmp d by metis
  qed
qed

lemma textColumn_typed: "textColumn detail c \<Longrightarrow> (detail \<Longrightarrow> d) \<Longrightarrow> columnType org d c = Some TText"
  by (auto simp: textColumn_def columnType_def split: if_splits)

lemma compile_valid:
  assumes "condValid (gl_oor gl) c"
  shows "\<exists>q a. compileCondition gl (fieldOf c) c = Inr (q, [a]) \<and>
    (\<forall>org detail. (rc_Field c = ''org_id'' \<longrightarrow> org) \<longrightarrow> (rf_NeedsDetail (fieldOf c) \<longrightarrow> detail) \<longrightarrow> condTyped org detail q a)"
  using assms
proof (cases rule: condValid_cases)
  case (str s)
  then have "columnType org d (rf_SQL (fieldOf c)) = Some TText" if "rf_NeedsDetail (fieldOf c) \<longrightarrow> d" for org d
    using textColumn_typed that by blast
  then show ?thesis using str(1,2,4) by (auto simp: compileCondition_def condTyped_def argType_def toScalar_def)
next
  case num
  have t: "columnType org d ''u.status'' = Some TInt" for org d by (simp add: columnType_def)
  show ?thesis
  proof (cases "rc_Cmp c = ''in''")
    case True
    then obtain vs where vs: "rc_Value c = AArr vs" "\<forall>v \<in> set vs. validateScalar (gl_oor gl) (fieldOf c) v = None"
      using num(5) by (auto simp: validateValue_def validateAll_None split: any.splits)
    then have "\<forall>v \<in> set vs. argType v = Some TInt" using validateScalar_int [OF num(1)] by blast
    then show ?thesis using True num(1,2) vs(1) t by (simp add: compileCondition_def condTyped_def toScalar_def list_all_iff)
  next
    case False
    then have "argType (rc_Value c) = Some TInt" using num(5) validateScalar_int [OF num(1)] by (simp add: validateValue_def)
    then show ?thesis using False num(1,2,4) t by (auto simp: compileCondition_def condTyped_def toScalar_def)
  qed
next
  case org
  have t: "columnType True d ''uo.org_id'' = Some TInt" for d by (simp add: columnType_def)
  show ?thesis
  proof (cases "rc_Cmp c = ''in''")
    case True
    then obtain vs where vs: "rc_Value c = AArr vs" using org(5) by (auto simp: validateValue_def split: any.splits)
    then show ?thesis using True org(1-3) t
      by (simp add: compileCondition_def condTyped_def toScalar_def list_all_iff argType_def)
  next
    case False
    then show ?thesis using org(1-4) t by (auto simp: compileCondition_def condTyped_def toScalar_def argType_def)
  qed
qed

definition compiledCond :: "go_lib \<Rightarrow> rule_condition \<Rightarrow> sql_cond \<times> any" where
  "compiledCond gl c =
     (case compileCondition gl (fieldOf c) c of Inr (q, as) \<Rightarrow> (q, hd as) | Inl _ \<Rightarrow> (OrgSubtree, ANull))"

lemma compiledCond_eq:
  assumes "condValid (gl_oor gl) c"
  shows "compileCondition gl (fieldOf c) c = Inr (fst (compiledCond gl c), [snd (compiledCond gl c)])"
proof -
  obtain q a where "compileCondition gl (fieldOf c) c = Inr (q, [a])" using compile_valid [OF assms] by blast
  then show ?thesis by (simp add: compiledCond_def)
qed

lemma compiledCond_typed:
  assumes "condValid (gl_oor gl) c" and "rc_Field c = ''org_id'' \<Longrightarrow> org" and "rf_NeedsDetail (fieldOf c) \<Longrightarrow> detail"
  shows "condTyped org detail (fst (compiledCond gl c)) (snd (compiledCond gl c))"
proof -
  obtain q a where "compileCondition gl (fieldOf c) c = Inr (q, [a])"
    "(rc_Field c = ''org_id'' \<longrightarrow> org) \<longrightarrow> (rf_NeedsDetail (fieldOf c) \<longrightarrow> detail) \<longrightarrow> condTyped org detail q a"
    using compile_valid [OF assms(1)] by blast
  then show ?thesis using assms(2,3) by (simp add: compiledCond_def)
qed

lemma compileLoop_ok:
  assumes "\<forall>c \<in> set cs. condValid (gl_oor gl) c"
  shows "\<exists>cr'. compileLoop gl cs cr = Inr cr' \<and> cr_Where cr' = cr_Where cr @ map (fst \<circ> compiledCond gl) cs \<and>
    cr_Args cr' = cr_Args cr @ map (snd \<circ> compiledCond gl) cs \<and>
    (cr_JoinDetail cr' \<longleftrightarrow> cr_JoinDetail cr \<or> (\<exists>c \<in> set cs. rf_NeedsDetail (fieldOf c))) \<and>
    (cr_JoinOrgFor cr' \<noteq> [] \<longleftrightarrow> cr_JoinOrgFor cr \<noteq> [] \<or> (\<exists>c \<in> set cs. rc_Field c = ''org_id''))"
  using assms
proof (induction cs arbitrary: cr)
  case Nil
  then show ?case by simp
next
  case (Cons c cs)
  define cr1 where "cr1 = (if rf_NeedsDetail (fieldOf c) then cr\<lparr>cr_JoinDetail := True\<rparr> else cr)"
  define cr2 where "cr2 = (if rc_Field c = ''org_id'' then cr1\<lparr>cr_JoinOrgFor := List.insert (rc_Cmp c) (cr_JoinOrgFor cr1)\<rparr> else cr1)"
  define cr3 where "cr3 = cr2\<lparr>cr_Where := cr_Where cr2 @ [fst (compiledCond gl c)], cr_Args := cr_Args cr2 @ [snd (compiledCond gl c)]\<rparr>"
  have ins: "List.insert x xs \<noteq> []" for x :: string and xs by (simp add: List.insert_def) auto
  have f1: "cr_Where cr1 = cr_Where cr" "cr_Args cr1 = cr_Args cr" "cr_JoinOrgFor cr1 = cr_JoinOrgFor cr"
    "cr_JoinDetail cr1 \<longleftrightarrow> cr_JoinDetail cr \<or> rf_NeedsDetail (fieldOf c)" by (simp_all add: cr1_def)
  have f2: "cr_Where cr2 = cr_Where cr1" "cr_Args cr2 = cr_Args cr1" "cr_JoinDetail cr2 = cr_JoinDetail cr1"
    "cr_JoinOrgFor cr2 \<noteq> [] \<longleftrightarrow> cr_JoinOrgFor cr1 \<noteq> [] \<or> rc_Field c = ''org_id''" by (simp_all add: cr2_def ins)
  have f3: "cr_Where cr3 = cr_Where cr @ [fst (compiledCond gl c)]" "cr_Args cr3 = cr_Args cr @ [snd (compiledCond gl c)]"
    "cr_JoinDetail cr3 \<longleftrightarrow> cr_JoinDetail cr \<or> rf_NeedsDetail (fieldOf c)"
    "cr_JoinOrgFor cr3 \<noteq> [] \<longleftrightarrow> cr_JoinOrgFor cr \<noteq> [] \<or> rc_Field c = ''org_id''"
    using f1 f2 by (simp_all add: cr3_def)
  have step: "compileLoop gl (c # cs) cr = compileLoop gl cs cr3"
    using compiledCond_eq [of gl c] Cons.prems
    by (simp add: Let_def fieldOf_def [symmetric] cr1_def [symmetric] cr2_def cr3_def)
  have "\<forall>c \<in> set cs. condValid (gl_oor gl) c" using Cons.prems by simp
  from Cons.IH [OF this, of cr3] obtain cr' where r: "compileLoop gl cs cr3 = Inr cr'"
    "cr_Where cr' = cr_Where cr3 @ map (fst \<circ> compiledCond gl) cs" "cr_Args cr' = cr_Args cr3 @ map (snd \<circ> compiledCond gl) cs"
    "cr_JoinDetail cr' \<longleftrightarrow> cr_JoinDetail cr3 \<or> (\<exists>c \<in> set cs. rf_NeedsDetail (fieldOf c))"
    "cr_JoinOrgFor cr' \<noteq> [] \<longleftrightarrow> cr_JoinOrgFor cr3 \<noteq> [] \<or> (\<exists>c \<in> set cs. rc_Field c = ''org_id'')" by blast
  show ?case unfolding step r(1) using r(2-5) by (simp add: f3 disj_ac comp_def)
qed

lemma Compile_ok:
  assumes "ValidateRule (gl_oor gl) raw = Inr expr"
  shows "\<exists>cr. Compile gl expr = Inr cr \<and> queryTyped cr \<and> zip (cr_Where cr) (cr_Args cr) = map (compiledCond gl) (re_Conditions expr) \<and>
    cr_Where cr = map (fst \<circ> compiledCond gl) (re_Conditions expr) \<and>
    (cr_JoinDetail cr \<longleftrightarrow> (\<exists>c \<in> set (re_Conditions expr). rf_NeedsDetail (fieldOf c))) \<and>
    (cr_JoinOrgFor cr \<noteq> [] \<longleftrightarrow> (\<exists>c \<in> set (re_Conditions expr). rc_Field c = ''org_id''))"
proof -
  have v: "re_Conditions expr \<noteq> []" "\<forall>c \<in> set (re_Conditions expr). condValid (gl_oor gl) c" using ValidateRule_ok [OF assms] by blast+
  from compileLoop_ok [OF v(2), of "\<lparr>cr_JoinDetail = False, cr_JoinOrgFor = [], cr_Where = [], cr_Args = []\<rparr>"]
  obtain cr where cr: "Compile gl expr = Inr cr" "cr_Where cr = map (fst \<circ> compiledCond gl) (re_Conditions expr)"
    "cr_Args cr = map (snd \<circ> compiledCond gl) (re_Conditions expr)"
    "cr_JoinDetail cr \<longleftrightarrow> (\<exists>c \<in> set (re_Conditions expr). rf_NeedsDetail (fieldOf c))"
    "cr_JoinOrgFor cr \<noteq> [] \<longleftrightarrow> (\<exists>c \<in> set (re_Conditions expr). rc_Field c = ''org_id'')"
    by (auto simp: Compile_def)
  have z: "zip (cr_Where cr) (cr_Args cr) = map (compiledCond gl) (re_Conditions expr)"
    by (simp add: cr(2,3) zip_map_map comp_def map_idI zip_same_conv_map)
  have "condTyped (cr_JoinOrgFor cr \<noteq> []) (cr_JoinDetail cr) (fst (compiledCond gl c)) (snd (compiledCond gl c))"
    if "c \<in> set (re_Conditions expr)" for c
    by (rule compiledCond_typed) (use v(2) that cr(4,5) in blast)+
  then have "list_all (\<lambda>(q, a). condTyped (cr_JoinOrgFor cr \<noteq> []) (cr_JoinDetail cr) q a) (map (compiledCond gl) (re_Conditions expr))"
    by (simp add: list_all_iff case_prod_beta)
  then have "queryTyped cr" using v(1) by (simp add: queryTyped_def z) (simp add: cr(2,3))
  then show ?thesis using cr z by blast
qed

text \<open>Every condition holds one placeholder.\<close>

definition placeholders :: "string \<Rightarrow> nat" where
  "placeholders s = length (filter (\<lambda>c. c = CHR ''?'') s)"

lemma placeholders_simps [simp]:
  "placeholders [] = 0" "placeholders (c # s) = (if c = CHR ''?'' then Suc (placeholders s) else placeholders s)"
  "placeholders (s @ t) = placeholders s + placeholders t"
  by (simp_all add: placeholders_def)

lemma placeholders_join:
  "placeholders sep = 0 \<Longrightarrow> placeholders (joinStrings sep ss) = sum_list (map placeholders ss)"
  by (induction sep ss rule: joinStrings.induct) simp_all

lemma columnType_placeholders: "columnType org detail c \<noteq> None \<Longrightarrow> placeholders c = 0"
proof -
  assume "columnType org detail c \<noteq> None"
  then have "c \<in> {''u.username'', ''u.email'', ''u.display_name'', ''u.status'', ''uo.org_id'', ''d.department'', ''d.job_title'', ''d.employee_no''}"
    by (simp add: columnType_def split: if_splits) (elim disjE; simp)
  then show ?thesis by (elim insertE) simp_all
qed

lemma condTyped_placeholders:
  assumes "condTyped org detail q a" shows "placeholders (sql_text q) = 1"
proof (cases q)
  case (ColEq c)
  then show ?thesis using assms columnType_placeholders [of org detail c] by (simp add: condTyped_def sql_text_def)
next
  case (ColNe c)
  then show ?thesis using assms columnType_placeholders [of org detail c] by (simp add: condTyped_def sql_text_def)
next
  case (ColIn c)
  then show ?thesis using assms columnType_placeholders [of org detail c] by (simp add: condTyped_def sql_text_def)
next
  case (ColILike c)
  then show ?thesis using assms columnType_placeholders [of org detail c] by (simp add: condTyped_def sql_text_def)
next
  case OrgSubtree
  then show ?thesis by (simp add: sql_text_def)
qed

text \<open>
  C38: A rule that passes \<open>ValidateRule\<close> compiles: no comparison is unhandled and no type assertion panics. The
  statement is well typed: every column it names belongs to a joined table, every argument has the type of
  its column, and there are as many arguments as placeholders.
\<close>

theorem validated_rule_compiles:
  assumes "ValidateRule (gl_oor gl) raw = Inr expr"
  shows "\<exists>cr. Compile gl expr = Inr cr \<and> length (cr_Where cr) = length (re_Conditions expr) \<and>
    placeholders (WhereSQL cr) = length (cr_Args cr) \<and> cr_Where cr \<noteq> [] \<and>
    list_all (\<lambda>(q, a). condTyped (cr_JoinOrgFor cr \<noteq> []) (cr_JoinDetail cr) q a) (zip (cr_Where cr) (cr_Args cr))"
proof -
  obtain cr where cr: "Compile gl expr = Inr cr" "queryTyped cr" "cr_Where cr = map (fst \<circ> compiledCond gl) (re_Conditions expr)"
    using Compile_ok [OF assms] by blast
  have l: "length (cr_Args cr) = length (cr_Where cr)" using cr(2) by (simp add: queryTyped_def)
  have "placeholders (sql_text q) = 1" if "q \<in> set (cr_Where cr)" for q
  proof -
    from that l obtain a where "(q, a) \<in> set (zip (cr_Where cr) (cr_Args cr))" by (metis in_set_impl_in_set_zip1)
    then have "condTyped (cr_JoinOrgFor cr \<noteq> []) (cr_JoinDetail cr) q a" using cr(2) by (auto simp: queryTyped_def list_all_iff)
    then show ?thesis by (rule condTyped_placeholders)
  qed
  then have "map (placeholders \<circ> sql_text) (cr_Where cr) = map (\<lambda>_. 1) (cr_Where cr)" by simp
  then have "placeholders (WhereSQL cr) = length (cr_Where cr)"
    by (simp add: WhereSQL_def placeholders_join sum_list_triv flip: map_map)
  then show ?thesis using cr l by (auto simp: queryTyped_def)
qed

definition demo_lib :: go_lib where
  "demo_lib = \<lparr>gl_oor = (\<lambda>x. if 0 < x then 2 ^ 63 - 1 else - (2 ^ 63)), gl_Sprint = (\<lambda>v. [])\<rparr>"

definition demo_rule :: rule_expr where
  "demo_rule = \<lparr>re_Op = ''and'', re_Conditions =
     [\<lparr>rc_Field = ''status'', rc_Cmp = ''eq'', rc_Value = AFloat 1\<rparr>,
      \<lparr>rc_Field = ''email'', rc_Cmp = ''endswith'', rc_Value = AString ''@mxid.io''\<rparr>,
      \<lparr>rc_Field = ''org_id'', rc_Cmp = ''in_subtree'', rc_Value = AString ''7''\<rparr>]\<rparr>"

lemma demo_rule_valid: "ValidateRule (gl_oor demo_lib) (Some (Json demo_rule)) = Inr demo_rule"
  by code_simp

theorem validated_rule_compiles_witness:
  "\<exists>cr. Compile demo_lib demo_rule = Inr cr \<and> length (cr_Where cr) = 3 \<and> placeholders (WhereSQL cr) = length (cr_Args cr)"
  using validated_rule_compiles [OF demo_rule_valid] by (auto simp: demo_rule_def)

text \<open>
  Ids are accepted as JSON numbers, which are decoded as \<open>float64\<close>. An id of the generator has more than 53 bits, so
  the number is rounded, passes the test for an integer, and the rule names another organization.
\<close>

lemma org_number_rounded:
  "validateScalar (gl_oor demo_lib) (fieldOf \<lparr>rc_Field = ''org_id'', rc_Cmp = ''eq'', rc_Value = ANull\<rparr>) (AFloat (float64 1234567890123456789)) = None"
  "toInt64 demo_lib (AFloat (float64 1234567890123456789)) = 1234567890123456768"
  by code_simp+

section \<open>What a rule means\<close>

text \<open>A condition in terms of the record of a user, without SQL.\<close>

definition textField :: "string \<Rightarrow> joined_row \<Rightarrow> string option" where
  "textField f row = (case row of (u, d, uo) \<Rightarrow>
     if f = ''username'' then Some (ru_Username u)
     else if f = ''email'' then ru_Email u
     else if f = ''display_name'' then ru_DisplayName u
     else if f = ''detail.department'' then Option.bind d ud_Department
     else if f = ''detail.job_title'' then Option.bind d ud_JobTitle
     else if f = ''detail.employee_no'' then Option.bind d ud_EmployeeNo
     else None)"

definition textHolds :: "(char \<Rightarrow> char) \<Rightarrow> string \<Rightarrow> string \<Rightarrow> string \<Rightarrow> bool" where
  "textHolds lc cmp v s =
     (if cmp = ''eq'' then s = v
      else if cmp = ''ne'' then s \<noteq> v
      else if cmp = ''contains'' then Contains (map lc s) (map lc v)
      else if cmp = ''startswith'' then HasPrefix (map lc s) (map lc v)
      else cmp = ''endswith'' \<and> HasSuffix (map lc s) (map lc v))"

definition isNumber :: "int \<Rightarrow> any \<Rightarrow> bool" where
  "isNumber n v = (v = AInt n \<or> v = AInt64 n \<or> v = AFloat (of_int n))"

definition elements :: "any \<Rightarrow> any list" where
  "elements v = (case v of AArr vs \<Rightarrow> vs | _ \<Rightarrow> [])"

definition statusHolds :: "string \<Rightarrow> any \<Rightarrow> int \<Rightarrow> bool" where
  "statusHolds cmp v n =
     (if cmp = ''eq'' then isNumber n v
      else if cmp = ''ne'' then \<not> isNumber n v
      else list_ex (isNumber n) (elements v))"

definition orgHolds :: "go_lib \<Rightarrow> organization list \<Rightarrow> id \<Rightarrow> string \<Rightarrow> any \<Rightarrow> id \<Rightarrow> bool" where
  "orgHolds gl orgs tenant cmp v i =
     (if cmp = ''eq'' then toInt64 gl v = i
      else if cmp = ''in'' then list_ex (\<lambda>w. i = toInt64 gl w) (elements v)
      else i \<in> set (subtreeOrgs orgs tenant (toInt64 gl v)))"

definition condHolds :: "go_lib \<Rightarrow> (char \<Rightarrow> char) \<Rightarrow> organization list \<Rightarrow> joined_row \<Rightarrow> rule_condition \<Rightarrow> bool" where
  "condHolds gl lc orgs row c =
     (if rc_Field c = ''status'' then statusHolds (rc_Cmp c) (rc_Value c) (ru_Status (fst row))
      else if rc_Field c = ''org_id'' then
        (case snd (snd row) of
           None \<Rightarrow> False
         | Some m \<Rightarrow> orgHolds gl orgs (ru_TenantID (fst row)) (rc_Cmp c) (rc_Value c) (uo_OrgID m))
      else (case (textField (rc_Field c) row, rc_Value c) of
              (Some s, AString v) \<Rightarrow> textHolds lc (rc_Cmp c) v s
            | _ \<Rightarrow> False))"

text \<open>What is asked of the case folding: it leaves the wildcards and the escape alone and maps nothing else to them.\<close>

definition folding_law :: "(char \<Rightarrow> char) \<Rightarrow> bool" where
  "folding_law lc \<longleftrightarrow> (\<forall>c. \<forall>m \<in> {esc, CHR ''%'', CHR ''_''}. lc c = m \<longleftrightarrow> c = m)"

lemma folding_escape:
  assumes "folding_law lc" shows "map lc (EscapeLike v) = EscapeLike (map lc v)"
proof -
  have m: "lc c = esc \<longleftrightarrow> c = esc" "lc c = CHR ''%'' \<longleftrightarrow> c = CHR ''%''" "lc c = CHR ''_'' \<longleftrightarrow> c = CHR ''_''" for c
    using assms by (auto simp: folding_law_def)
  show ?thesis by (induction v) (use m in auto)
qed

lemma ilike_literal:
  assumes "folding_law lc"
  shows "ilike lc (''%'' @ EscapeLike v @ ''%'') s \<longleftrightarrow> Contains (map lc s) (map lc v)"
    "ilike lc (EscapeLike v @ ''%'') s \<longleftrightarrow> HasPrefix (map lc s) (map lc v)"
    "ilike lc (''%'' @ EscapeLike v) s \<longleftrightarrow> HasSuffix (map lc s) (map lc v)"
proof -
  have p: "map lc ''%'' = ''%''" using assms by (simp add: folding_law_def)
  show "ilike lc (''%'' @ EscapeLike v @ ''%'') s \<longleftrightarrow> Contains (map lc s) (map lc v)"
    "ilike lc (EscapeLike v @ ''%'') s \<longleftrightarrow> HasPrefix (map lc s) (map lc v)"
    "ilike lc (''%'' @ EscapeLike v) s \<longleftrightarrow> HasSuffix (map lc s) (map lc v)"
    unfolding ilike_def map_append folding_escape [OF assms] p by (rule EscapeLike_literal)+
qed

lemma column_textField:
  assumes "map_of ruleFields f = Some def" and "rf_ValueKind def = ''string''"
  shows "column (rf_SQL def) row = optText (textField f row)"
  using assms by (cases row) (auto simp: ruleFields_def mkField_def column_def textField_def optText_def split: if_splits)

lemma column_fieldOf:
  assumes "rf_ValueKind (fieldOf c) = ''string''" shows "column (rf_SQL (fieldOf c)) row = optText (textField (rc_Field c) row)"
proof (cases "map_of ruleFields (rc_Field c)")
  case None
  then show ?thesis using assms by (simp add: fieldOf_def zeroField_def mkField_def)
next
  case (Some def)
  then have "fieldOf c = def" by (simp add: fieldOf_def)
  then show ?thesis using column_textField [OF Some] assms by simp
qed

lemma isNumber_value:
  assumes "argType v = Some TInt" shows "SNum (of_int n) = argValue v \<longleftrightarrow> isNumber n v"
  using assms by (auto simp: argType_def argValue_def isNumber_def split: any.splits if_splits)

lemma evalCond_text:
  assumes lc: "folding_law lc" and v: "rf_ValueKind (fieldOf c) = ''string''" "rc_Value c = AString s"
    "rc_Cmp c \<in> {''eq'', ''ne'', ''contains'', ''startswith'', ''endswith''}"
  shows "evalCond lc orgs row (fst (compiledCond gl c)) (snd (compiledCond gl c)) = map_option (textHolds lc (rc_Cmp c) s) (textField (rc_Field c) row)"
proof -
  note col = column_fieldOf [OF v(1), of row]
  have k: "rf_ValueKind (fieldOf c) \<noteq> ''id''" using v(1) by simp
  show ?thesis using v(3)
  proof (elim insertE)
    assume "rc_Cmp c = ''eq''"
    then show ?thesis using v(2) k col
      by (simp add: compiledCond_def compileCondition_def toScalar_def evalCond_def sqlEq_def argValue_def optText_def textHolds_def split: option.splits)
  next
    assume "rc_Cmp c = ''ne''"
    then show ?thesis using v(2) k col
      by (simp add: compiledCond_def compileCondition_def toScalar_def evalCond_def sqlEq_def argValue_def optText_def textHolds_def split: option.splits)
  next
    assume "rc_Cmp c = ''contains''"
    then show ?thesis using v(2) col ilike_literal [OF lc, of s]
      by (simp add: compiledCond_def compileCondition_def ruleToString_def evalCond_def optText_def textHolds_def split: option.splits)
  next
    assume "rc_Cmp c = ''startswith''"
    then show ?thesis using v(2) col ilike_literal [OF lc, of s]
      by (simp add: compiledCond_def compileCondition_def ruleToString_def evalCond_def optText_def textHolds_def split: option.splits)
  next
    assume "rc_Cmp c = ''endswith''"
    then show ?thesis using v(2) col ilike_literal [OF lc, of s]
      by (simp add: compiledCond_def compileCondition_def ruleToString_def evalCond_def optText_def textHolds_def split: option.splits)
  qed simp
qed

lemma column_status: "column ''u.status'' row = SNum (of_int (ru_Status (fst row)))"
  by (cases row) (simp add: column_def)

lemma column_org: "column ''uo.org_id'' row = (case snd (snd row) of None \<Rightarrow> SNull | Some m \<Rightarrow> SNum (of_int (uo_OrgID m)))"
  by (cases row) (simp add: column_def)

lemma evalCond_status:
  assumes "condValid (gl_oor gl) c" and "rc_Field c = ''status''"
  shows "evalCond lc orgs row (fst (compiledCond gl c)) (snd (compiledCond gl c)) = Some True \<longleftrightarrow> statusHolds (rc_Cmp c) (rc_Value c) (ru_Status (fst row))"
  using assms(1)
proof (cases rule: condValid_cases)
  case num
  show ?thesis
  proof (cases "rc_Cmp c = ''in''")
    case True
    then obtain vs where vs: "rc_Value c = AArr vs" "\<forall>v \<in> set vs. validateScalar (gl_oor gl) (fieldOf c) v = None"
      using num(5) by (auto simp: validateValue_def validateAll_None split: any.splits)
    then have "\<forall>v \<in> set vs. argType v = Some TInt" using validateScalar_int [OF num(1)] by blast
    then have "list_ex (\<lambda>v. SNum (of_int (ru_Status (fst row))) = argValue v) vs = list_ex (isNumber (ru_Status (fst row))) vs"
      by (auto simp: list_ex_iff isNumber_value)
    then show ?thesis using True num(1,2) vs(1)
      by (auto simp: compiledCond_def compileCondition_def toScalar_def evalCond_def column_status statusHolds_def elements_def)
  next
    case False
    then have t: "argType (rc_Value c) = Some TInt" using num(5) validateScalar_int [OF num(1)] by (simp add: validateValue_def)
    then have "argValue (rc_Value c) \<noteq> SNull" by (auto simp: argType_def argValue_def split: any.splits)
    then show ?thesis using False num(1,2,4) isNumber_value [OF t, of "ru_Status (fst row)"]
      by (auto simp: compiledCond_def compileCondition_def toScalar_def evalCond_def column_status statusHolds_def sqlEq_def)
  qed
qed (use assms(2) in simp_all)

lemma evalCond_org:
  assumes "condValid (gl_oor gl) c" and "rc_Field c = ''org_id''"
  shows "evalCond lc orgs row (fst (compiledCond gl c)) (snd (compiledCond gl c)) = Some True \<longleftrightarrow>
    (\<exists>m. snd (snd row) = Some m \<and> orgHolds gl orgs (ru_TenantID (fst row)) (rc_Cmp c) (rc_Value c) (uo_OrgID m))"
  using assms(1)
proof (cases rule: condValid_cases)
  case org
  consider "rc_Cmp c = ''eq''" | vs where "rc_Cmp c = ''in''" "rc_Value c = AArr vs" | "rc_Cmp c = ''in_subtree''"
    using org(4,5) by (auto simp: validateValue_def split: any.splits)
  then show ?thesis
  proof cases
    case 1
    then show ?thesis using org(1,2)
      by (auto simp: compiledCond_def compileCondition_def toScalar_def evalCond_def column_org orgHolds_def sqlEq_def argValue_def split: option.splits)
  next
    case 2
    then show ?thesis using org(1,2)
      by (auto simp: compiledCond_def compileCondition_def toScalar_def evalCond_def column_org orgHolds_def argValue_def elements_def list_ex_iff split: option.splits)
  next
    case 3
    then show ?thesis
      by (auto simp: compiledCond_def compileCondition_def evalCond_def orgHolds_def argValue_def Let_def split: option.splits)
  qed
qed (use assms(2) in simp_all)

lemma evalCond_condHolds:
  assumes lc: "folding_law lc" and v: "condValid (gl_oor gl) c"
  shows "evalCond lc orgs row (fst (compiledCond gl c)) (snd (compiledCond gl c)) = Some True \<longleftrightarrow> condHolds gl lc orgs row c"
  using v
proof (cases rule: condValid_cases)
  case (str s)
  then show ?thesis using evalCond_text [OF lc str(1,2,4)] by (auto simp: condHolds_def split: option.splits)
next
  case num
  then show ?thesis using evalCond_status [OF v] by (simp add: condHolds_def)
next
  case org
  then show ?thesis using evalCond_org [OF v] by (auto simp: condHolds_def split: option.splits)
qed

lemma and3_true: "and3 x y = Some True \<longleftrightarrow> x = Some True \<and> y = Some True"
  by (auto simp: and3_def)

lemma evalWhere_true: "evalWhere lc orgs row qs = Some True \<longleftrightarrow> (\<forall>(q, a) \<in> set qs. evalCond lc orgs row q a = Some True)"
  by (induction qs) (auto simp: evalWhere_def and3_true)

text \<open>The users a rule matches: live users of the tenant with one joined row on which all conditions hold.\<close>

definition ruleMatches :: "go_lib \<Rightarrow> (char \<Rightarrow> char) \<Rightarrow> rule_db \<Rightarrow> id \<Rightarrow> rule_expr \<Rightarrow> id set" where
  "ruleMatches gl lc db tenantID expr =
     {i. \<exists>u d uo. u \<in> set (rd_users db) \<and> ru_ID u = i \<and> ru_TenantID u = tenantID \<and> \<not> ru_Deleted u \<and>
        (d = None \<or> (\<exists>x \<in> set (rd_details db). d = Some x \<and> ud_UserID x = i)) \<and>
        (uo = None \<or> (\<exists>m \<in> set (rd_userOrgs db). uo = Some m \<and> uo_UserID m = i)) \<and>
        (\<forall>c \<in> set (re_Conditions expr). condHolds gl lc (rd_orgs db) (u, d, uo) c)}"

lemma textField_detail:
  assumes "map_of ruleFields f = Some def" and "rf_ValueKind def = ''string''"
  shows "if rf_NeedsDetail def then textField f (u, None, uo) = None else textField f (u, d, uo) = textField f (u, d', uo')"
    and "textField f (u, d, uo) = textField f (u, d, uo')"
  using assms by (auto simp: ruleFields_def mkField_def textField_def split: if_splits)

lemma condHolds_needs_detail:
  assumes v: "condValid oor c"
  shows "rf_NeedsDetail (fieldOf c) \<Longrightarrow> \<not> condHolds gl lc orgs (u, None, uo) c"
    and "\<not> rf_NeedsDetail (fieldOf c) \<Longrightarrow> condHolds gl lc orgs (u, d, uo) c = condHolds gl lc orgs (u, d', uo) c"
proof -
  obtain def where f: "map_of ruleFields (rc_Field c) = Some def" "fieldOf c = def"
    using v by (auto simp: condValid_def fieldOf_def split: option.splits)
  have "(rf_NeedsDetail (fieldOf c) \<longrightarrow> \<not> condHolds gl lc orgs (u, None, uo) c) \<and>
    (\<not> rf_NeedsDetail (fieldOf c) \<longrightarrow> condHolds gl lc orgs (u, d, uo) c = condHolds gl lc orgs (u, d', uo) c)"
  proof (cases "rf_ValueKind def = ''string''")
    case True
    then have "rc_Field c \<noteq> ''org_id''" "rc_Field c \<noteq> ''status''" using ruleFields_kinds [OF f(1)] by auto
    then show ?thesis using textField_detail(1) [OF f(1) True, of u uo d d' uo] by (simp add: condHolds_def f(2) split: if_splits)
  next
    case False
    then have "rc_Field c = ''org_id'' \<or> rc_Field c = ''status''" using ruleFields_kinds [OF f(1)] by auto
    moreover from this have "\<not> rf_NeedsDetail def" using f(1) by (auto simp: ruleFields_def mkField_def)
    ultimately show ?thesis by (auto simp: condHolds_def f(2) split: option.splits)
  qed
  then show "rf_NeedsDetail (fieldOf c) \<Longrightarrow> \<not> condHolds gl lc orgs (u, None, uo) c"
    and "\<not> rf_NeedsDetail (fieldOf c) \<Longrightarrow> condHolds gl lc orgs (u, d, uo) c = condHolds gl lc orgs (u, d', uo) c" by blast+
qed

lemma condHolds_needs_org:
  assumes v: "condValid oor c"
  shows "rc_Field c = ''org_id'' \<Longrightarrow> \<not> condHolds gl lc orgs (u, d, None) c"
    and "rc_Field c \<noteq> ''org_id'' \<Longrightarrow> condHolds gl lc orgs (u, d, uo) c = condHolds gl lc orgs (u, d, uo') c"
proof -
  show "rc_Field c = ''org_id'' \<Longrightarrow> \<not> condHolds gl lc orgs (u, d, None) c" by (simp add: condHolds_def)
  assume no: "rc_Field c \<noteq> ''org_id''"
  have "textField (rc_Field c) (u, d, uo) = textField (rc_Field c) (u, d, uo')" by (simp add: textField_def)
  then show "condHolds gl lc orgs (u, d, uo) c = condHolds gl lc orgs (u, d, uo') c" using no by (simp add: condHolds_def)
qed

lemma leftJoin_set:
  "x \<in> set (leftJoin on key rows i) \<longleftrightarrow>
     (if on \<and> (\<exists>r \<in> set rows. key r = i) then \<exists>r \<in> set rows. x = Some r \<and> key r = i else x = None)"
proof (cases "filter (\<lambda>r. key r = i) rows")
  case Nil
  then have "\<not> (\<exists>r \<in> set rows. key r = i)" by (simp add: filter_empty_conv)
  then show ?thesis using Nil by (simp add: leftJoin_def)
next
  case (Cons a as)
  then have s: "{r \<in> set rows. key r = i} = set (a # as)" by (metis set_filter)
  then have "\<exists>r \<in> set rows. key r = i" by auto
  moreover have "x \<in> Some ` set (a # as) \<longleftrightarrow> (\<exists>r \<in> set rows. x = Some r \<and> key r = i)" unfolding s [symmetric] by auto
  ultimately show ?thesis using Cons by (simp add: leftJoin_def)
qed

lemma joinedRows_set:
  "(u, d, uo) \<in> set (joinedRows org detail db) \<longleftrightarrow>
     u \<in> set (rd_users db) \<and> d \<in> set (leftJoin detail ud_UserID (rd_details db) (ru_ID u)) \<and>
     uo \<in> set (leftJoin org uo_UserID (rd_userOrgs db) (ru_ID u))"
  by (auto simp: joinedRows_def)

text \<open>The query returns the users the rule matches.\<close>

lemma EvaluateRule_matches:
  assumes lc: "folding_law lc" and v: "ValidateRule (gl_oor gl) raw = Inr expr" and c: "Compile gl expr = Inr cr"
    and r: "EvaluateRule lc flt db t cr = Inr ids"
  shows "set ids = ruleMatches gl lc db t expr \<and> distinct ids"
proof -
  let ?org = "cr_JoinOrgFor cr \<noteq> []" and ?detail = "cr_JoinDetail cr" and ?orgs = "rd_orgs db"
  have val: "condValid (gl_oor gl) c" if "c \<in> set (re_Conditions expr)" for c using ValidateRule_ok [OF v] that by blast
  have cr: "zip (cr_Where cr) (cr_Args cr) = map (compiledCond gl) (re_Conditions expr)"
    "?detail \<longleftrightarrow> (\<exists>c \<in> set (re_Conditions expr). rf_NeedsDetail (fieldOf c))"
    "?org \<longleftrightarrow> (\<exists>c \<in> set (re_Conditions expr). rc_Field c = ''org_id'')"
    using Compile_ok [OF v] c by auto
  have wh: "evalWhere lc ?orgs row (zip (cr_Where cr) (cr_Args cr)) = Some True \<longleftrightarrow> (\<forall>c \<in> set (re_Conditions expr). condHolds gl lc ?orgs row c)" for row
    using evalCond_condHolds [OF lc val] by (simp add: evalWhere_true cr(1) case_prod_beta)
  have ids: "ids = remdups (map (\<lambda>row. ru_ID (fst row)) (filter (\<lambda>row. ru_TenantID (fst row) = t \<and> \<not> ru_Deleted (fst row) \<and>
      (\<forall>c \<in> set (re_Conditions expr). condHolds gl lc ?orgs row c)) (joinedRows ?org ?detail db)))"
    using r by (simp add: EvaluateRule_def dbcall_def wh split: option.splits if_splits)
  have "\<exists>d' uo'. (u, d', uo') \<in> set (joinedRows ?org ?detail db) \<and> (\<forall>c \<in> set (re_Conditions expr). condHolds gl lc ?orgs (u, d', uo') c)"
    if u: "u \<in> set (rd_users db)" and d: "d = None \<or> (\<exists>x \<in> set (rd_details db). d = Some x \<and> ud_UserID x = ru_ID u)"
      and uo: "uo = None \<or> (\<exists>m \<in> set (rd_userOrgs db). uo = Some m \<and> uo_UserID m = ru_ID u)"
      and all: "\<forall>c \<in> set (re_Conditions expr). condHolds gl lc ?orgs (u, d, uo) c" for u d uo
  proof -
    have "\<exists>d'. d' \<in> set (leftJoin ?detail ud_UserID (rd_details db) (ru_ID u)) \<and> (\<forall>c \<in> set (re_Conditions expr). condHolds gl lc ?orgs (u, d', uo) c)"
    proof (cases ?detail)
      case True
      then have "d \<noteq> None" using all cr(2) condHolds_needs_detail(1) [OF val] by metis
      then show ?thesis using True d all by (intro exI [of _ d]) (auto simp: leftJoin_set)
    next
      case False
      then have "\<forall>c \<in> set (re_Conditions expr). condHolds gl lc ?orgs (u, None, uo) c"
        using all cr(2) condHolds_needs_detail(2) [OF val] by blast
      then show ?thesis using False by (intro exI [of _ None]) (simp add: leftJoin_set)
    qed
    then obtain d' where d': "d' \<in> set (leftJoin ?detail ud_UserID (rd_details db) (ru_ID u))"
      "\<forall>c \<in> set (re_Conditions expr). condHolds gl lc ?orgs (u, d', uo) c" by blast
    have "\<exists>uo'. uo' \<in> set (leftJoin ?org uo_UserID (rd_userOrgs db) (ru_ID u)) \<and> (\<forall>c \<in> set (re_Conditions expr). condHolds gl lc ?orgs (u, d', uo') c)"
    proof (cases ?org)
      case True
      then have "uo \<noteq> None" using d'(2) cr(3) condHolds_needs_org(1) [OF val] by metis
      then show ?thesis using True uo d'(2) by (intro exI [of _ uo]) (auto simp: leftJoin_set)
    next
      case False
      then have "\<forall>c \<in> set (re_Conditions expr). condHolds gl lc ?orgs (u, d', None) c"
        using d'(2) cr(3) condHolds_needs_org(2) [OF val] by blast
      then show ?thesis using False by (intro exI [of _ None]) (simp add: leftJoin_set)
    qed
    then show ?thesis using u d'(1) by (auto simp: joinedRows_set)
  qed
  note row = this
  have mem: "i \<in> set ids \<longleftrightarrow> (\<exists>u d uo. (u, d, uo) \<in> set (joinedRows ?org ?detail db) \<and> ru_ID u = i \<and> ru_TenantID u = t \<and> \<not> ru_Deleted u \<and>
      (\<forall>c \<in> set (re_Conditions expr). condHolds gl lc ?orgs (u, d, uo) c))" for i
    unfolding ids by (auto simp: image_iff Bex_def)
  have "ruleMatches gl lc db t expr \<subseteq> set ids"
  proof
    fix i assume "i \<in> ruleMatches gl lc db t expr"
    then obtain u d uo where m: "u \<in> set (rd_users db)" "ru_ID u = i" "ru_TenantID u = t" "\<not> ru_Deleted u"
      "d = None \<or> (\<exists>x \<in> set (rd_details db). d = Some x \<and> ud_UserID x = ru_ID u)"
      "uo = None \<or> (\<exists>m \<in> set (rd_userOrgs db). uo = Some m \<and> uo_UserID m = ru_ID u)"
      "\<forall>c \<in> set (re_Conditions expr). condHolds gl lc ?orgs (u, d, uo) c" unfolding ruleMatches_def by blast
    from row [OF m(1,5-7)] show "i \<in> set ids" unfolding mem using m(2-4) by blast
  qed
  moreover have "set ids \<subseteq> ruleMatches gl lc db t expr"
  proof
    fix i assume "i \<in> set ids"
    then obtain u d uo where m: "(u, d, uo) \<in> set (joinedRows ?org ?detail db)" "ru_ID u = i" "ru_TenantID u = t" "\<not> ru_Deleted u"
      "\<forall>c \<in> set (re_Conditions expr). condHolds gl lc ?orgs (u, d, uo) c" unfolding mem by blast
    have "d = None \<or> (\<exists>x \<in> set (rd_details db). d = Some x \<and> ud_UserID x = i)"
      "uo = None \<or> (\<exists>m \<in> set (rd_userOrgs db). uo = Some m \<and> uo_UserID m = i)"
      using m(1,2) by (auto simp: joinedRows_set leftJoin_set split: if_splits)
    then show "i \<in> ruleMatches gl lc db t expr" using m by (auto simp: ruleMatches_def joinedRows_set)
  qed
  ultimately show ?thesis using ids by (simp add: subset_antisym)
qed

end
