(* ===== verification/Group.thy ===== *)
theory Group
  imports GroupRule
begin

text \<open>
  User groups: \<open>internal/domain/group\<close> (model, repository, service, rule synchronisation and the reaction to
  events) with the user validator of \<open>app/adapters_refvalidators.go\<close>. The tables are lists of rows; a database call
  may fail, \<open>flt\<close> says with which error, per call and row id. An operation returns its result and the state it
  leaves behind, also when it fails halfway. New ids come from \<open>gen\<close>, the number of an id within
  the call being its argument. The tables of users, details, organizations and their members are those of
  \<open>GroupRule\<close>; the operations here only read them.
\<close>

section \<open>Rows, events and errors\<close>

definition TypeStatic :: int where "TypeStatic = 1"
definition TypeDynamic :: int where "TypeDynamic = 2"
definition RuleEnabled :: int where "RuleEnabled = 1"
definition RulePaused :: int where "RulePaused = 2"

record user_group =
  ug_ID :: id
  ug_TenantID :: id
  ug_Name :: string
  ug_Code :: string
  ug_Description :: "string option"
  ug_Type :: int
  ug_CreatedAt :: time
  ug_DeletedAt :: "time option"

record user_group_member =
  gm_ID :: id
  gm_GroupID :: id
  gm_UserID :: id
  gm_CreatedAt :: time

datatype sync_error = SyncRuleError rule_error | SyncDbError db_error

record user_group_rule =
  ugr_ID :: id
  ugr_GroupID :: id
  ugr_Expr :: "rule_expr json"
  ugr_Status :: int
  ugr_LastSyncAt :: "time option"
  ugr_LastSyncAdded :: int
  ugr_LastSyncRemoved :: int
  ugr_LastSyncError :: "sync_error option"
  ugr_UpdatedAt :: time

record sync_report =
  sr_GroupID :: id
  sr_Added :: int
  sr_Removed :: int

datatype group_event =
    GroupCreated user_group | GroupUpdated user_group | GroupDeleted user_group
  | GroupMemberAdded id id id string | GroupMemberRemoved id id id string
  | GroupRuleUpdated user_group sync_report | GroupRuleDeleted user_group | GroupRuleSynced user_group sync_report

record group_state =
  gs_groups :: "user_group list"
  gs_members :: "user_group_member list"
  gs_rules :: "user_group_rule list"
  gs_db :: rule_db
  gs_events :: "group_event list"

datatype group_error =
    ErrGroupNotFound | ErrGroupHasMembers | ErrGroupCodeExists | ErrGroupUserNotInTenant | ErrNoGroupUserValidator
  | ErrInvalidGroupCode | ErrRuleNotFound | ErrGroupIsDynamic | ErrGroupRule rule_error | ErrGroupDb db_error

record create_group_request =
  cg_Name :: string
  cg_Code :: string
  cg_Description :: string

record update_group_request =
  upg_Name :: string
  upg_Description :: string

record batch_members_response =
  bm_Affected :: int
  bm_Skipped :: "string list"

record member_info =
  mi_UserID :: id
  mi_Username :: string
  mi_DisplayName :: "string option"
  mi_Email :: "string option"
  mi_Status :: int

record group_response =
  gr_Group :: user_group
  gr_MemberCount :: int

text \<open>What is injected into the service: whether there is an event bus, and the check of user ids.\<close>

record group_service =
  gsv_eventBus :: bool
  gsv_userValidator :: "(ctx \<Rightarrow> rule_user list \<Rightarrow> id \<Rightarrow> db_error + bool) option"

definition groupModel :: "user_group tenant_model" where
  "groupModel = \<lparr>tm_scoped = True, tm_get = (\<lambda>g. Some (ug_TenantID g)),
     tm_set = (\<lambda>t g. g\<lparr>ug_TenantID := t\<rparr>), tm_nullable = False, tm_custom = None\<rparr>"

definition ruleUserModel :: "rule_user tenant_model" where
  "ruleUserModel = \<lparr>tm_scoped = True, tm_get = (\<lambda>u. Some (ru_TenantID u)),
     tm_set = (\<lambda>t u. u\<lparr>ru_TenantID := t\<rparr>), tm_nullable = False, tm_custom = None\<rparr>"

section \<open>The repository\<close>

definition groupCodeConstraint :: string where
  "groupCodeConstraint = ''mxid_user_group_tenant_id_code_key''"

definition groupCodeColumns :: string where
  "groupCodeColumns = ''mxid_user_group.tenant_id, mxid_user_group.code''"

definition insertGroup :: "user_group list \<Rightarrow> user_group \<Rightarrow> db_error + user_group list" where
  "insertGroup gs g =
     (if list_ex (\<lambda>r. ug_ID r = ug_ID g) gs then Inl (PgError ''23505'' ''mxid_user_group_pkey'')
      else if list_ex (\<lambda>r. ug_TenantID r = ug_TenantID g \<and> ug_Code r = ug_Code g) gs
        then Inl (PgError ''23505'' groupCodeConstraint)
      else Inr (gs @ [g]))"

definition grpCreate :: "org_faults \<Rightarrow> ctx \<Rightarrow> user_group list \<Rightarrow> user_group \<Rightarrow> db_error + user_group list" where
  "grpCreate flt c gs g = dbcall flt ''Create'' (ug_ID g) (insertGroup gs (hd (stamp groupModel c [g])))"

definition grpGetByID :: "org_faults \<Rightarrow> ctx \<Rightarrow> user_group list \<Rightarrow> id \<Rightarrow> db_error + user_group" where
  "grpGetByID flt c gs i =
     dbcall flt ''GetByID'' i
       (bindE (scopedResult (scoped_rows groupModel c (filter (\<lambda>r. ug_ID r = i \<and> ug_DeletedAt r = None) gs)))
         (\<lambda>rows. case rows of [] \<Rightarrow> Inl RecordNotFound | r # _ \<Rightarrow> Inr r))"

definition grpUpdate :: "org_faults \<Rightarrow> ctx \<Rightarrow> user_group list \<Rightarrow> user_group \<Rightarrow> db_error + user_group list" where
  "grpUpdate flt c gs g =
     dbcall flt ''Update'' (ug_ID g)
       (scopedResult (scoped_update groupModel c (\<lambda>r. ug_ID r = ug_ID g \<and> ug_DeletedAt r = None) (\<lambda>_. g) gs))"

text \<open>A hard delete; members and rule cascade with the rows that go.\<close>

definition grpDelete :: "org_faults \<Rightarrow> ctx \<Rightarrow> group_state \<Rightarrow> id \<Rightarrow> db_error + group_state" where
  "grpDelete flt c s i =
     dbcall flt ''Delete'' i
       (bindE (scopedResult (scoped_delete groupModel c (\<lambda>r. ug_ID r = i) (gs_groups s)))
         (\<lambda>gs. if gs = gs_groups s then Inr s
            else Inr (s\<lparr>gs_groups := gs, gs_members := filter (\<lambda>m. gm_GroupID m \<noteq> i) (gs_members s),
                        gs_rules := filter (\<lambda>r. ugr_GroupID r \<noteq> i) (gs_rules s)\<rparr>)))"

text \<open>The keyword matches name, code or description, ignoring case.\<close>

definition optILike :: "(char \<Rightarrow> char) \<Rightarrow> string \<Rightarrow> string option \<Rightarrow> bool" where
  "optILike lc p s = (case s of None \<Rightarrow> False | Some x \<Rightarrow> ilike lc p x)"

definition grpList ::
  "(char \<Rightarrow> char) \<Rightarrow> org_faults \<Rightarrow> ctx \<Rightarrow> user_group list \<Rightarrow> id \<Rightarrow> string \<Rightarrow> int \<Rightarrow> int \<Rightarrow> db_error + user_group list \<times> int" where
  "grpList lc flt c gs tenantID keyword page pageSize =
     dbcall flt ''List'' tenantID
       (bindE (scopedResult (scoped_rows groupModel c (filter (\<lambda>r. ug_TenantID r = tenantID \<and> ug_DeletedAt r = None) gs)))
         (\<lambda>rows.
            let like = ''%'' @ EscapeLike keyword @ ''%'';
                q = (if keyword \<noteq> [] then filter (\<lambda>r. ilike lc like (ug_Name r) \<or> ilike lc like (ug_Code r) \<or> optILike lc like (ug_Description r)) rows
                     else rows)
            in Inr (take (nat pageSize) (drop (nat ((page - 1) * pageSize)) (rev (sort_key ug_CreatedAt q))), int (length q))))"

definition ListDynamicGroupIDs :: "org_faults \<Rightarrow> ctx \<Rightarrow> user_group list \<Rightarrow> id \<Rightarrow> db_error + id list" where
  "ListDynamicGroupIDs flt c gs tenantID =
     dbcall flt ''ListDynamicGroupIDs'' tenantID
       (bindE (scopedResult (scoped_rows groupModel c
          (filter (\<lambda>r. ug_TenantID r = tenantID \<and> ug_Type r = TypeDynamic \<and> ug_DeletedAt r = None) gs)))
         (\<lambda>rows. Inr (map ug_ID rows)))"

definition grpListByUserID ::
  "org_faults \<Rightarrow> ctx \<Rightarrow> group_state \<Rightarrow> id \<Rightarrow> id \<Rightarrow> db_error + user_group list" where
  "grpListByUserID flt c s tenantID userID =
     dbcall flt ''ListByUserID'' userID
       (bindE (scopedResult (scoped_rows groupModel c
          (concat (map (\<lambda>g. map (\<lambda>_. g) (filter (\<lambda>m. gm_GroupID m = ug_ID g \<and> gm_UserID m = userID) (gs_members s)))
             (filter (\<lambda>g. ug_TenantID g = tenantID \<and> ug_DeletedAt g = None) (gs_groups s))))))
         (\<lambda>rows. Inr (rev (sort_key ug_CreatedAt rows))))"

text \<open>Insert with \<open>ON CONFLICT (group_id, user_id) DO NOTHING\<close>; the statement is all or nothing.\<close>

fun insertMembers :: "group_state \<Rightarrow> user_group_member list \<Rightarrow> user_group_member list \<Rightarrow> db_error + user_group_member list" where
  "insertMembers s [] tbl = Inr tbl"
| "insertMembers s (m # ms) tbl =
     (if list_ex (\<lambda>r. gm_GroupID r = gm_GroupID m \<and> gm_UserID r = gm_UserID m) tbl then insertMembers s ms tbl
      else if list_ex (\<lambda>r. gm_ID r = gm_ID m) tbl then Inl (PgError ''23505'' ''mxid_user_group_member_pkey'')
      else if \<not> list_ex (\<lambda>g. ug_ID g = gm_GroupID m) (gs_groups s) then Inl (PgError ''23503'' ''mxid_user_group_member_group_id_fkey'')
      else if \<not> list_ex (\<lambda>u. ru_ID u = gm_UserID m) (rd_users (gs_db s)) then Inl (PgError ''23503'' ''mxid_user_group_member_user_id_fkey'')
      else insertMembers s ms (tbl @ [m]))"

definition grpAddMember :: "org_faults \<Rightarrow> group_state \<Rightarrow> user_group_member \<Rightarrow> db_error + user_group_member list" where
  "grpAddMember flt s m = dbcall flt ''AddMember'' (gm_GroupID m) (insertMembers s [m] (gs_members s))"

definition existingMembers :: "group_state \<Rightarrow> id \<Rightarrow> id list \<Rightarrow> id list" where
  "existingMembers s groupID ids =
     map gm_UserID (filter (\<lambda>m. gm_GroupID m = groupID \<and> gm_UserID m \<in> set ids) (gs_members s))"

definition grpAddMembers ::
  "org_faults \<Rightarrow> group_state \<Rightarrow> id \<Rightarrow> user_group_member list \<Rightarrow> db_error + id list \<times> user_group_member list" where
  "grpAddMembers flt s groupID members =
     (if members = [] then Inr ([], gs_members s)
      else bindE (dbcall flt ''AddMembers.existing'' groupID (Inr (existingMembers s groupID (map gm_UserID members)))) (\<lambda>existing.
        let skipped = filter (\<lambda>u. u \<in> set existing) (map gm_UserID members);
            toInsert = filter (\<lambda>m. gm_UserID m \<notin> set existing) members
        in if toInsert = [] then Inr (skipped, gs_members s)
           else bindE (dbcall flt ''AddMembers'' groupID (insertMembers s toInsert (gs_members s))) (\<lambda>tbl. Inr (skipped, tbl))))"

definition grpRemoveMember :: "org_faults \<Rightarrow> group_state \<Rightarrow> id \<Rightarrow> id \<Rightarrow> db_error + user_group_member list" where
  "grpRemoveMember flt s groupID userID =
     dbcall flt ''RemoveMember'' groupID (Inr (filter (\<lambda>m. \<not> (gm_GroupID m = groupID \<and> gm_UserID m = userID)) (gs_members s)))"

definition grpRemoveMembers ::
  "org_faults \<Rightarrow> group_state \<Rightarrow> id \<Rightarrow> id list \<Rightarrow> db_error + id list \<times> user_group_member list" where
  "grpRemoveMembers flt s groupID userIDs =
     (if userIDs = [] then Inr ([], gs_members s)
      else bindE (dbcall flt ''RemoveMembers.existing'' groupID (Inr (existingMembers s groupID userIDs))) (\<lambda>existing.
        let skipped = filter (\<lambda>u. u \<notin> set existing) userIDs;
            toDelete = filter (\<lambda>u. u \<in> set existing) userIDs
        in if toDelete = [] then Inr (skipped, gs_members s)
           else dbcall flt ''RemoveMembers'' groupID
                  (Inr (skipped, filter (\<lambda>m. \<not> (gm_GroupID m = groupID \<and> gm_UserID m \<in> set toDelete)) (gs_members s)))))"

text \<open>\<open>liveGroupMember\<close>: only members whose user is not soft-deleted are counted.\<close>

definition liveGroupMember :: "group_state \<Rightarrow> user_group_member \<Rightarrow> bool" where
  "liveGroupMember s m = list_ex (\<lambda>u. ru_ID u = gm_UserID m \<and> \<not> ru_Deleted u) (rd_users (gs_db s))"

definition grpCountMembers :: "org_faults \<Rightarrow> group_state \<Rightarrow> id \<Rightarrow> db_error + int" where
  "grpCountMembers flt s groupID =
     dbcall flt ''CountMembers'' groupID (Inr (int (length (filter (\<lambda>m. gm_GroupID m = groupID \<and> liveGroupMember s m) (gs_members s)))))"

text \<open>Groups without members are absent from the result.\<close>

definition CountMembersByGroupIDs :: "org_faults \<Rightarrow> group_state \<Rightarrow> id list \<Rightarrow> db_error + (id \<times> int) list" where
  "CountMembersByGroupIDs flt s groupIDs =
     (if groupIDs = [] then Inr []
      else dbcall flt ''CountMembersByGroupIDs'' 0
        (let rows = filter (\<lambda>m. gm_GroupID m \<in> set groupIDs \<and> liveGroupMember s m) (gs_members s)
         in Inr (map (\<lambda>g. (g, int (length (filter (\<lambda>m. gm_GroupID m = g) rows)))) (remdups (map gm_GroupID rows)))))"

definition memberInfo :: "rule_user \<Rightarrow> member_info" where
  "memberInfo u =
     \<lparr>mi_UserID = ru_ID u, mi_Username = ru_Username u, mi_DisplayName = ru_DisplayName u, mi_Email = ru_Email u, mi_Status = ru_Status u\<rparr>"

definition grpGetMembers ::
  "org_faults \<Rightarrow> group_state \<Rightarrow> id \<Rightarrow> int \<Rightarrow> int \<Rightarrow> db_error + member_info list \<times> int" where
  "grpGetMembers flt s groupID page pageSize =
     dbcall flt ''GetMembers'' groupID
       (let rows = concat (map (\<lambda>m. map memberInfo (filter (\<lambda>u. ru_ID u = gm_UserID m \<and> \<not> ru_Deleted u) (rd_users (gs_db s))))
              (sort_key gm_CreatedAt (filter (\<lambda>m. gm_GroupID m = groupID) (gs_members s))))
        in Inr (take (nat pageSize) (drop (nat ((page - 1) * pageSize)) rows),
                int (length (filter (\<lambda>m. gm_GroupID m = groupID \<and> liveGroupMember s m) (gs_members s)))))"

definition AllMemberIDs :: "org_faults \<Rightarrow> group_state \<Rightarrow> id \<Rightarrow> db_error + id list" where
  "AllMemberIDs flt s groupID =
     dbcall flt ''AllMemberIDs'' groupID (Inr (map gm_UserID (filter (\<lambda>m. gm_GroupID m = groupID) (gs_members s))))"

definition grpGetRule :: "org_faults \<Rightarrow> group_state \<Rightarrow> id \<Rightarrow> db_error + user_group_rule" where
  "grpGetRule flt s groupID =
     dbcall flt ''GetRule'' groupID (case find (\<lambda>r. ugr_GroupID r = groupID) (gs_rules s) of None \<Rightarrow> Inl RecordNotFound | Some r \<Rightarrow> Inr r)"

definition grpUpsertRule :: "org_faults \<Rightarrow> group_state \<Rightarrow> user_group_rule \<Rightarrow> db_error + user_group_rule list" where
  "grpUpsertRule flt s rule =
     dbcall flt ''UpsertRule'' (ugr_GroupID rule)
       (if list_ex (\<lambda>r. ugr_GroupID r = ugr_GroupID rule) (gs_rules s) then
          Inr (map (\<lambda>r. if ugr_GroupID r = ugr_GroupID rule
                        then r\<lparr>ugr_Expr := ugr_Expr rule, ugr_Status := ugr_Status rule, ugr_UpdatedAt := ugr_UpdatedAt rule\<rparr> else r) (gs_rules s))
        else if list_ex (\<lambda>r. ugr_ID r = ugr_ID rule) (gs_rules s) then Inl (PgError ''23505'' ''mxid_user_group_rule_pkey'')
        else Inr (gs_rules s @ [rule]))"

definition grpDeleteRule :: "org_faults \<Rightarrow> group_state \<Rightarrow> id \<Rightarrow> db_error + user_group_rule list" where
  "grpDeleteRule flt s groupID = dbcall flt ''DeleteRule'' groupID (Inr (filter (\<lambda>r. ugr_GroupID r \<noteq> groupID) (gs_rules s)))"

definition MarkRuleSync ::
  "org_faults \<Rightarrow> time \<Rightarrow> group_state \<Rightarrow> id \<Rightarrow> int \<Rightarrow> int \<Rightarrow> sync_error option \<Rightarrow> db_error + group_state" where
  "MarkRuleSync flt now s groupID added removed err =
     dbcall flt ''MarkRuleSync'' groupID
       (Inr (s\<lparr>gs_rules := map (\<lambda>r. if ugr_GroupID r = groupID
          then r\<lparr>ugr_LastSyncAt := Some now, ugr_LastSyncAdded := added, ugr_LastSyncRemoved := removed,
                 ugr_UpdatedAt := now, ugr_LastSyncError := err\<rparr> else r) (gs_rules s)\<rparr>))"

section \<open>The service\<close>

text \<open>\<open>^[a-z0-9][a-z0-9_-]*$\<close>\<close>

definition codeChar :: "char \<Rightarrow> bool" where
  "codeChar c = (c \<in> set ''abcdefghijklmnopqrstuvwxyz0123456789'')"

definition ValidateGroupCode :: "string \<Rightarrow> bool" where
  "ValidateGroupCode code =
     (case code of [] \<Rightarrow> False | c # cs \<Rightarrow> codeChar c \<and> list_all (\<lambda>x. codeChar x \<or> x = CHR ''_'' \<or> x = CHR ''-'') cs)"

text \<open>The user check of the wiring: the tenant-scoped lookup of \<open>internal/domain/user\<close> behind \<open>existsInTenant\<close>.\<close>

definition userGetByID :: "org_faults \<Rightarrow> ctx \<Rightarrow> rule_user list \<Rightarrow> id \<Rightarrow> db_error + rule_user" where
  "userGetByID flt c us i =
     dbcall flt ''user.GetByID'' i
       (bindE (scopedResult (scoped_rows ruleUserModel c (filter (\<lambda>u. ru_ID u = i \<and> \<not> ru_Deleted u) us)))
         (\<lambda>rows. case rows of [] \<Rightarrow> Inl RecordNotFound | u # _ \<Rightarrow> Inr u))"

definition existsInTenant :: "(ctx \<Rightarrow> 't \<Rightarrow> id \<Rightarrow> db_error + 'a) \<Rightarrow> ctx \<Rightarrow> 't \<Rightarrow> id \<Rightarrow> db_error + bool" where
  "existsInTenant getByID c tbl i =
     (case getByID c tbl i of Inl e \<Rightarrow> if IsNotFound e then Inr False else Inl e | Inr _ \<Rightarrow> Inr True)"

definition validateUserInTenant :: "org_faults \<Rightarrow> ctx \<Rightarrow> rule_user list \<Rightarrow> id \<Rightarrow> db_error + bool" where
  "validateUserInTenant flt = existsInTenant (userGetByID flt)"

fun requireUsersLoop ::
  "(ctx \<Rightarrow> rule_user list \<Rightarrow> id \<Rightarrow> db_error + bool) \<Rightarrow> ctx \<Rightarrow> rule_user list \<Rightarrow> id list \<Rightarrow> group_error + unit" where
  "requireUsersLoop f c us [] = Inr ()"
| "requireUsersLoop f c us (uid # uids) =
     (case f c us uid of
        Inl e \<Rightarrow> Inl (ErrGroupDb e)
      | Inr ok \<Rightarrow> if \<not> ok then Inl ErrGroupUserNotInTenant else requireUsersLoop f c us uids)"

definition requireUsersInTenant :: "group_service \<Rightarrow> ctx \<Rightarrow> group_state \<Rightarrow> id list \<Rightarrow> group_error + unit" where
  "requireUsersInTenant sv c s uids =
     (case gsv_userValidator sv of
        None \<Rightarrow> Inl ErrNoGroupUserValidator
      | Some f \<Rightarrow> requireUsersLoop f c (rd_users (gs_db s)) uids)"

definition publishG :: "group_service \<Rightarrow> group_event \<Rightarrow> group_state \<Rightarrow> group_state" where
  "publishG sv ev s = (if gsv_eventBus sv then s\<lparr>gs_events := gs_events s @ [ev]\<rparr> else s)"

definition dbE :: "db_error + 'a \<Rightarrow> group_error + 'a" where
  "dbE r = (case r of Inl e \<Rightarrow> Inl (ErrGroupDb e) | Inr x \<Rightarrow> Inr x)"

definition optDesc :: "string \<Rightarrow> string option" where
  "optDesc d = (if d \<noteq> [] then Some d else None)"

definition groupCreate ::
  "group_service \<Rightarrow> org_faults \<Rightarrow> ctx \<Rightarrow> (nat \<Rightarrow> id) \<Rightarrow> time \<Rightarrow> id \<Rightarrow> create_group_request \<Rightarrow> group_state \<Rightarrow> group_error + user_group \<times> group_state" where
  "groupCreate sv flt c gen now tenantID req s =
     (if \<not> ValidateGroupCode (cg_Code req) then Inl ErrInvalidGroupCode
      else
        let g = \<lparr>ug_ID = gen 0, ug_TenantID = tenantID, ug_Name = cg_Name req, ug_Code = cg_Code req,
                 ug_Description = optDesc (cg_Description req), ug_Type = TypeStatic, ug_CreatedAt = now, ug_DeletedAt = None\<rparr>
        in case grpCreate flt c (gs_groups s) g of
             Inl e \<Rightarrow> if IsUniqueViolationOn (Some e) [groupCodeConstraint, groupCodeColumns] then Inl ErrGroupCodeExists else Inl (ErrGroupDb e)
           | Inr gs \<Rightarrow>
               let stored = hd (stamp groupModel c [g]) in Inr (stored, publishG sv (GroupCreated stored) (s\<lparr>gs_groups := gs\<rparr>)))"

definition requireGroup :: "org_faults \<Rightarrow> ctx \<Rightarrow> group_state \<Rightarrow> id \<Rightarrow> group_error + user_group" where
  "requireGroup flt c s groupID =
     (case grpGetByID flt c (gs_groups s) groupID of
        Inl e \<Rightarrow> if IsNotFound e then Inl ErrGroupNotFound else Inl (ErrGroupDb e)
      | Inr g \<Rightarrow> Inr g)"

definition groupUpdate ::
  "group_service \<Rightarrow> org_faults \<Rightarrow> ctx \<Rightarrow> id \<Rightarrow> update_group_request \<Rightarrow> group_state \<Rightarrow> group_error + user_group \<times> group_state" where
  "groupUpdate sv flt c i req s =
     bindE (requireGroup flt c s i) (\<lambda>g0.
       let g = g0\<lparr>ug_Name := upg_Name req, ug_Description := optDesc (upg_Description req)\<rparr>
       in bindE (dbE (grpUpdate flt c (gs_groups s) g)) (\<lambda>gs. Inr (g, publishG sv (GroupUpdated g) (s\<lparr>gs_groups := gs\<rparr>))))"

definition groupDelete :: "group_service \<Rightarrow> org_faults \<Rightarrow> ctx \<Rightarrow> id \<Rightarrow> bool \<Rightarrow> group_state \<Rightarrow> group_error + group_state" where
  "groupDelete sv flt c i force s =
     (case grpGetByID flt c (gs_groups s) i of
        Inl e \<Rightarrow> if IsNotFound e then Inr s else Inl (ErrGroupDb e)
      | Inr g \<Rightarrow>
          bindE (dbE (grpCountMembers flt s i)) (\<lambda>count.
            if 0 < count \<and> \<not> force then Inl ErrGroupHasMembers
            else bindE (dbE (grpDelete flt c s i)) (\<lambda>s'. Inr (publishG sv (GroupDeleted g) s'))))"

definition buildGroupResponsesWithCounts :: "org_faults \<Rightarrow> group_state \<Rightarrow> user_group list \<Rightarrow> group_error + group_response list" where
  "buildGroupResponsesWithCounts flt s groups =
     bindE (dbE (CountMembersByGroupIDs flt s (map ug_ID groups))) (\<lambda>counts.
       Inr (map (\<lambda>g. \<lparr>gr_Group = g, gr_MemberCount = (case map_of counts (ug_ID g) of None \<Rightarrow> 0 | Some n \<Rightarrow> n)\<rparr>) groups))"

definition groupList ::
  "(char \<Rightarrow> char) \<Rightarrow> org_faults \<Rightarrow> ctx \<Rightarrow> id \<Rightarrow> string \<Rightarrow> int \<Rightarrow> int \<Rightarrow> group_state \<Rightarrow> group_error + group_response list \<times> int" where
  "groupList lc flt c tenantID keyword page pageSize s =
     bindE (dbE (grpList lc flt c (gs_groups s) tenantID keyword page pageSize)) (\<lambda>(groups, total).
     bindE (buildGroupResponsesWithCounts flt s groups) (\<lambda>rs. Inr (rs, total)))"

definition groupListForUser :: "org_faults \<Rightarrow> ctx \<Rightarrow> id \<Rightarrow> id \<Rightarrow> group_state \<Rightarrow> group_error + group_response list" where
  "groupListForUser flt c tenantID userID s =
     bindE (dbE (grpListByUserID flt c s tenantID userID)) (buildGroupResponsesWithCounts flt s)"

definition groupAddMember ::
  "group_service \<Rightarrow> org_faults \<Rightarrow> ctx \<Rightarrow> (nat \<Rightarrow> id) \<Rightarrow> time \<Rightarrow> id \<Rightarrow> id \<Rightarrow> group_state \<Rightarrow> group_error + group_state" where
  "groupAddMember sv flt c gen now groupID userID s =
     bindE (requireGroup flt c s groupID) (\<lambda>g.
       if ug_Type g = TypeDynamic then Inl ErrGroupIsDynamic
       else bindE (requireUsersInTenant sv c s [userID]) (\<lambda>_.
         bindE (dbE (grpAddMember flt s \<lparr>gm_ID = gen 0, gm_GroupID = groupID, gm_UserID = userID, gm_CreatedAt = now\<rparr>)) (\<lambda>tbl.
           Inr (publishG sv (GroupMemberAdded (ug_TenantID g) groupID userID (ug_Name g)) (s\<lparr>gs_members := tbl\<rparr>)))))"

definition newMembers :: "(nat \<Rightarrow> id) \<Rightarrow> time \<Rightarrow> id \<Rightarrow> id list \<Rightarrow> user_group_member list" where
  "newMembers gen now groupID uids =
     map (\<lambda>(i, u). \<lparr>gm_ID = gen i, gm_GroupID = groupID, gm_UserID = u, gm_CreatedAt = now\<rparr>) (enumerate 0 uids)"

definition int64sToStrings :: "id list \<Rightarrow> string list" where
  "int64sToStrings = map FormatInt"

definition publishMembers :: "group_service \<Rightarrow> (id \<Rightarrow> group_event) \<Rightarrow> id list \<Rightarrow> id list \<Rightarrow> group_state \<Rightarrow> group_state" where
  "publishMembers sv ev skipped uids s = foldl (\<lambda>st u. publishG sv (ev u) st) s (filter (\<lambda>u. u \<notin> set skipped) uids)"

definition groupAddMembers ::
  "group_service \<Rightarrow> org_faults \<Rightarrow> ctx \<Rightarrow> (nat \<Rightarrow> id) \<Rightarrow> time \<Rightarrow> id \<Rightarrow> id list \<Rightarrow> group_state \<Rightarrow> group_error + batch_members_response \<times> group_state" where
  "groupAddMembers sv flt c gen now groupID userIDs s =
     bindE (requireGroup flt c s groupID) (\<lambda>g.
       if ug_Type g = TypeDynamic then Inl ErrGroupIsDynamic
       else bindE (requireUsersInTenant sv c s userIDs) (\<lambda>_.
         bindE (dbE (grpAddMembers flt s groupID (newMembers gen now groupID userIDs))) (\<lambda>(skipped, tbl).
           Inr (\<lparr>bm_Affected = int (length userIDs) - int (length skipped), bm_Skipped = int64sToStrings skipped\<rparr>,
                publishMembers sv (\<lambda>u. GroupMemberAdded (ug_TenantID g) groupID u (ug_Name g)) skipped userIDs (s\<lparr>gs_members := tbl\<rparr>)))))"

definition groupRemoveMember ::
  "group_service \<Rightarrow> org_faults \<Rightarrow> ctx \<Rightarrow> id \<Rightarrow> id \<Rightarrow> group_state \<Rightarrow> group_error + group_state" where
  "groupRemoveMember sv flt c groupID userID s =
     bindE (requireGroup flt c s groupID) (\<lambda>g.
       if ug_Type g = TypeDynamic then Inl ErrGroupIsDynamic
       else bindE (dbE (grpRemoveMember flt s groupID userID)) (\<lambda>tbl.
         Inr (publishG sv (GroupMemberRemoved (ug_TenantID g) groupID userID (ug_Name g)) (s\<lparr>gs_members := tbl\<rparr>))))"

definition groupRemoveMembers ::
  "group_service \<Rightarrow> org_faults \<Rightarrow> ctx \<Rightarrow> id \<Rightarrow> id list \<Rightarrow> group_state \<Rightarrow> group_error + batch_members_response \<times> group_state" where
  "groupRemoveMembers sv flt c groupID userIDs s =
     bindE (requireGroup flt c s groupID) (\<lambda>g.
       bindE (dbE (grpRemoveMembers flt s groupID userIDs)) (\<lambda>(skipped, tbl).
         Inr (\<lparr>bm_Affected = int (length userIDs) - int (length skipped), bm_Skipped = int64sToStrings skipped\<rparr>,
              publishMembers sv (\<lambda>u. GroupMemberRemoved (ug_TenantID g) groupID u (ug_Name g)) skipped userIDs (s\<lparr>gs_members := tbl\<rparr>))))"

definition groupGetMembers ::
  "org_faults \<Rightarrow> ctx \<Rightarrow> id \<Rightarrow> int \<Rightarrow> int \<Rightarrow> group_state \<Rightarrow> group_error + member_info list \<times> int" where
  "groupGetMembers flt c groupID page pageSize s =
     bindE (requireGroup flt c s groupID) (\<lambda>_. dbE (grpGetMembers flt s groupID page pageSize))"

section \<open>Rules of dynamic groups\<close>

definition groupGetRule :: "org_faults \<Rightarrow> ctx \<Rightarrow> id \<Rightarrow> group_state \<Rightarrow> group_error + user_group_rule" where
  "groupGetRule flt c groupID s =
     bindE (requireGroup flt c s groupID) (\<lambda>_.
       case grpGetRule flt s groupID of
         Inl e \<Rightarrow> if IsNotFound e then Inl ErrRuleNotFound else Inl (ErrGroupDb e)
       | Inr r \<Rightarrow> Inr r)"

text \<open>What an environment offers the synchronisation: the Go library and the case folding of the database.\<close>

record sync_env =
  se_lib :: go_lib
  se_lower :: "char \<Rightarrow> char"

definition diffMembers :: "id list \<Rightarrow> id list \<Rightarrow> id list \<times> id list" where
  "diffMembers matched current = (filter (\<lambda>i. i \<notin> set current) matched, filter (\<lambda>i. i \<notin> set matched) current)"

text \<open>A failed \<open>MarkRuleSync\<close> in an error path is ignored.\<close>

definition markFailed :: "org_faults \<Rightarrow> time \<Rightarrow> group_state \<Rightarrow> id \<Rightarrow> int \<Rightarrow> sync_error \<Rightarrow> group_state" where
  "markFailed flt now s groupID added e =
     (case MarkRuleSync flt now s groupID added 0 (Some e) of Inl _ \<Rightarrow> s | Inr s' \<Rightarrow> s')"

definition syncAdd ::
  "org_faults \<Rightarrow> (nat \<Rightarrow> id) \<Rightarrow> time \<Rightarrow> id \<Rightarrow> id list \<Rightarrow> group_state \<Rightarrow> db_error + group_state" where
  "syncAdd flt gen now groupID toAdd s =
     (if toAdd = [] then Inr s
      else bindE (grpAddMembers flt s groupID (newMembers gen now groupID toAdd)) (\<lambda>(_, tbl). Inr (s\<lparr>gs_members := tbl\<rparr>)))"

definition syncRemove :: "org_faults \<Rightarrow> id \<Rightarrow> id list \<Rightarrow> group_state \<Rightarrow> db_error + group_state" where
  "syncRemove flt groupID toRemove s =
     (if toRemove = [] then Inr s
      else bindE (grpRemoveMembers flt s groupID toRemove) (\<lambda>(_, tbl). Inr (s\<lparr>gs_members := tbl\<rparr>)))"

text \<open>From the compiled rule on: evaluate, compare with the members, write.\<close>

definition syncApply ::
  "sync_env \<Rightarrow> org_faults \<Rightarrow> (nat \<Rightarrow> id) \<Rightarrow> time \<Rightarrow> user_group \<Rightarrow> id \<Rightarrow> compiled_rule \<Rightarrow> group_state \<Rightarrow> (group_error + sync_report) \<times> group_state" where
  "syncApply env flt gen now g groupID compiled s =
     (case EvaluateRule (se_lower env) flt (gs_db s) (ug_TenantID g) compiled of
        Inl e \<Rightarrow> (Inl (ErrGroupDb e), markFailed flt now s groupID 0 (SyncDbError e))
      | Inr matched \<Rightarrow>
     (case AllMemberIDs flt s groupID of
        Inl e \<Rightarrow> (Inl (ErrGroupDb e), s)
      | Inr current \<Rightarrow>
          let (toAdd, toRemove) = diffMembers matched current
          in case syncAdd flt gen now groupID toAdd s of
               Inl e \<Rightarrow> (Inl (ErrGroupDb e), markFailed flt now s groupID 0 (SyncDbError e))
             | Inr s1 \<Rightarrow>
             (case syncRemove flt groupID toRemove s1 of
                Inl e \<Rightarrow> (Inl (ErrGroupDb e), markFailed flt now s1 groupID (int (length toAdd)) (SyncDbError e))
              | Inr s2 \<Rightarrow>
              (case MarkRuleSync flt now s2 groupID (int (length toAdd)) (int (length toRemove)) None of
                 Inl e \<Rightarrow> (Inl (ErrGroupDb e), s2)
               | Inr s3 \<Rightarrow> (Inr \<lparr>sr_GroupID = groupID, sr_Added = int (length toAdd), sr_Removed = int (length toRemove)\<rparr>, s3)))))"

definition syncRule ::
  "sync_env \<Rightarrow> org_faults \<Rightarrow> ctx \<Rightarrow> (nat \<Rightarrow> id) \<Rightarrow> time \<Rightarrow> id \<Rightarrow> group_state \<Rightarrow> (group_error + sync_report) \<times> group_state" where
  "syncRule env flt c gen now groupID s =
     (case requireGroup flt c s groupID of
        Inl e \<Rightarrow> (Inl e, s)
      | Inr g \<Rightarrow>
     (case grpGetRule flt s groupID of
        Inl e \<Rightarrow> (Inl (if IsNotFound e then ErrRuleNotFound else ErrGroupDb e), s)
      | Inr rule \<Rightarrow>
          if ugr_Status rule \<noteq> RuleEnabled then (Inr \<lparr>sr_GroupID = groupID, sr_Added = 0, sr_Removed = 0\<rparr>, s)
          else (case ValidateRule (gl_oor (se_lib env)) (Some (ugr_Expr rule)) of
                  Inl e \<Rightarrow> (Inl (ErrGroupRule e), markFailed flt now s groupID 0 (SyncRuleError e))
                | Inr expr \<Rightarrow>
                (case Compile (se_lib env) expr of
                   Inl e \<Rightarrow> (Inl (ErrGroupRule e), markFailed flt now s groupID 0 (SyncRuleError e))
                 | Inr compiled \<Rightarrow> syncApply env flt gen now g groupID compiled s))))"

definition SyncRule ::
  "sync_env \<Rightarrow> group_service \<Rightarrow> org_faults \<Rightarrow> org_faults \<Rightarrow> ctx \<Rightarrow> (nat \<Rightarrow> id) \<Rightarrow> time \<Rightarrow> id \<Rightarrow> group_state \<Rightarrow> (group_error + sync_report) \<times> group_state" where
  "SyncRule env sv sflt flt c gen now groupID s =
     (case syncRule env sflt c gen now groupID s of
        (Inl e, s1) \<Rightarrow> (Inl e, s1)
      | (Inr report, s1) \<Rightarrow>
          (case requireGroup flt c s1 groupID of
             Inl _ \<Rightarrow> (Inr report, s1)
           | Inr g \<Rightarrow> (Inr report, publishG sv (GroupRuleSynced g report) s1)))"

text \<open>The result of \<open>UpsertRule\<close> is the stored rule; it carries the rule also beside the error of the first sync.\<close>

definition UpsertRule ::
  "sync_env \<Rightarrow> group_service \<Rightarrow> org_faults \<Rightarrow> org_faults \<Rightarrow> ctx \<Rightarrow> (nat \<Rightarrow> id) \<Rightarrow> time \<Rightarrow> id \<Rightarrow> rule_expr \<Rightarrow> group_state \<Rightarrow> (group_error + user_group_rule) \<times> group_state" where
  "UpsertRule env sv sflt flt c gen now groupID expr s =
     (case requireGroup flt c s groupID of
        Inl e \<Rightarrow> (Inl e, s)
      | Inr g \<Rightarrow>
          let rule = \<lparr>ugr_ID = gen 0, ugr_GroupID = groupID, ugr_Expr = Json expr, ugr_Status = RuleEnabled, ugr_LastSyncAt = None,
                      ugr_LastSyncAdded = 0, ugr_LastSyncRemoved = 0, ugr_LastSyncError = None, ugr_UpdatedAt = now\<rparr>
          in case grpUpsertRule flt s rule of
               Inl e \<Rightarrow> (Inl (ErrGroupDb e), s)
             | Inr rules \<Rightarrow>
                 let s1 = s\<lparr>gs_rules := rules\<rparr>; g' = g\<lparr>ug_Type := TypeDynamic\<rparr>
                 in case (if ug_Type g \<noteq> TypeDynamic then grpUpdate flt c (gs_groups s1) g' else Inr (gs_groups s1)) of
                      Inl e \<Rightarrow> (Inl (ErrGroupDb e), s1)
                    | Inr gs \<Rightarrow>
                        (case syncRule env sflt c (\<lambda>i. gen (Suc i)) now groupID (s1\<lparr>gs_groups := gs\<rparr>) of
                           (Inl e, s2) \<Rightarrow> (Inl e, s2)
                         | (Inr report, s2) \<Rightarrow>
                             let s3 = publishG sv (GroupRuleUpdated g' report) s2
                             in (dbE (grpGetRule flt s3 groupID), s3)))"

definition DeleteRule :: "group_service \<Rightarrow> org_faults \<Rightarrow> ctx \<Rightarrow> id \<Rightarrow> group_state \<Rightarrow> (group_error + unit) \<times> group_state" where
  "DeleteRule sv flt c groupID s =
     (case requireGroup flt c s groupID of
        Inl e \<Rightarrow> (Inl e, s)
      | Inr g \<Rightarrow>
     (case grpDeleteRule flt s groupID of
        Inl e \<Rightarrow> (Inl (ErrGroupDb e), s)
      | Inr rules \<Rightarrow>
          let s1 = s\<lparr>gs_rules := rules\<rparr>; g' = g\<lparr>ug_Type := TypeStatic\<rparr>
          in case (if ug_Type g \<noteq> TypeStatic then grpUpdate flt c (gs_groups s1) g' else Inr (gs_groups s1)) of
               Inl e \<Rightarrow> (Inl (ErrGroupDb e), s1)
             | Inr gs \<Rightarrow> (Inr (), publishG sv (GroupRuleDeleted g') (s1\<lparr>gs_groups := gs\<rparr>))))"

section \<open>Reaction to events\<close>

text \<open>One group that fails does not stop the others. Each group has its own new ids and its own faults.\<close>

fun resyncLoop ::
  "sync_env \<Rightarrow> (id \<Rightarrow> org_faults) \<Rightarrow> ctx \<Rightarrow> (id \<Rightarrow> nat \<Rightarrow> id) \<Rightarrow> time \<Rightarrow> id list \<Rightarrow> group_state \<Rightarrow> group_state" where
  "resyncLoop env sflt c gen now [] s = s"
| "resyncLoop env sflt c gen now (gid # gids) s =
     resyncLoop env sflt c gen now gids (snd (syncRule env (sflt gid) c (gen gid) now gid s))"

definition ResyncTenantDynamicGroups ::
  "sync_env \<Rightarrow> org_faults \<Rightarrow> (id \<Rightarrow> org_faults) \<Rightarrow> ctx \<Rightarrow> (id \<Rightarrow> nat \<Rightarrow> id) \<Rightarrow> time \<Rightarrow> id \<Rightarrow> group_state \<Rightarrow> group_state" where
  "ResyncTenantDynamicGroups env flt sflt c gen now tenantID s =
     (case ListDynamicGroupIDs flt c (gs_groups s) tenantID of
        Inl _ \<Rightarrow> s
      | Inr ids \<Rightarrow> resyncLoop env sflt c gen now ids s)"

definition toInt64Any :: "(rat \<Rightarrow> int) \<Rightarrow> any \<Rightarrow> int" where
  "toInt64Any oor v = (case v of AInt64 x \<Rightarrow> x | AInt x \<Rightarrow> x | AFloat x \<Rightarrow> goInt oor x | _ \<Rightarrow> 0)"

text \<open>The pending recomputes: the deadline of the timer of each tenant.\<close>

type_synonym resync_timers = "id \<Rightarrow> time option"

definition resyncDebounce :: dur where "resyncDebounce = 2 * Second"

text \<open>A new timer and the reset of a running one both end the debounce interval after now.\<close>

definition scheduleResync :: "time \<Rightarrow> id \<Rightarrow> resync_timers \<Rightarrow> resync_timers" where
  "scheduleResync now tenantID timers =
     (case timers tenantID of
        Some _ \<Rightarrow> timers(tenantID := Some (now + resyncDebounce))
      | None \<Rightarrow> timers(tenantID := Some (now + resyncDebounce)))"

definition handleOrgMemberChange :: "(rat \<Rightarrow> int) \<Rightarrow> time \<Rightarrow> any \<Rightarrow> resync_timers \<Rightarrow> resync_timers" where
  "handleOrgMemberChange oor now payload timers =
     (case payload of
        AObj m \<Rightarrow>
          let tenantID = toInt64Any oor (case map_of m ''tenant_id'' of None \<Rightarrow> ANull | Some v \<Rightarrow> v)
          in if tenantID = 0 then timers else scheduleResync now tenantID timers
      | _ \<Rightarrow> timers)"

definition fireResync ::
  "sync_env \<Rightarrow> org_faults \<Rightarrow> (id \<Rightarrow> org_faults) \<Rightarrow> (id \<Rightarrow> nat \<Rightarrow> id) \<Rightarrow> time \<Rightarrow> id \<Rightarrow> resync_timers \<Rightarrow> group_state \<Rightarrow> resync_timers \<times> group_state" where
  "fireResync env flt sflt gen now tenantID timers s =
     (case timers tenantID of
        None \<Rightarrow> (timers, s)
      | Some due \<Rightarrow>
          if now < due then (timers, s)
          else (timers(tenantID := None), ResyncTenantDynamicGroups env flt sflt (WithTenant None tenantID) gen now tenantID s))"

text \<open>The handler of \<open>PUT /groups/:id/rule\<close>: the body is validated before the service sees it.\<close>

definition handleUpsertRule ::
  "sync_env \<Rightarrow> group_service \<Rightarrow> org_faults \<Rightarrow> org_faults \<Rightarrow> ctx \<Rightarrow> (nat \<Rightarrow> id) \<Rightarrow> time \<Rightarrow> id \<Rightarrow> rule_expr json option \<Rightarrow> group_state \<Rightarrow> (group_error + user_group_rule) \<times> group_state" where
  "handleUpsertRule env sv sflt flt c gen now groupID body s =
     (case ValidateRule (gl_oor (se_lib env)) body of
        Inl e \<Rightarrow> (Inl (ErrGroupRule e), s)
      | Inr expr \<Rightarrow> UpsertRule env sv sflt flt c gen now groupID expr s)"

end
