(* ===== verification/GroupProofs.thy ===== *)
theory GroupProofs
  imports Group
begin

text \<open>
  What the group service guarantees: a synchronisation makes the membership of a dynamic group exactly the
  set of users its rule matches, and no request ever puts a user of one tenant into a group of another. At the
  end, where the code falls short: the batch removal that edits dynamic groups, and synchronisations that
  change members without the event the permission cache waits for.
\<close>

section \<open>Member tables\<close>

definition memberIDs :: "group_state \<Rightarrow> id \<Rightarrow> id set" where
  "memberIDs s gid = gm_UserID ` {m \<in> set (gs_members s). gm_GroupID m = gid}"

abbreviation pairs :: "user_group_member list \<Rightarrow> (id \<times> id) set" where
  "pairs tbl \<equiv> (\<lambda>m. (gm_GroupID m, gm_UserID m)) ` set tbl"

lemma memberIDs_pairs: "memberIDs s gid = {u. (gid, u) \<in> pairs (gs_members s)}"
  by (auto simp: memberIDs_def image_iff)

text \<open>A batch insert appends new rows of the batch, whose group and user exist, and covers the batch.\<close>

lemma insertMembers_ok:
  assumes "insertMembers s ms tbl = Inr tbl'"
  shows "\<exists>extra. tbl' = tbl @ extra \<and> set extra \<subseteq> set ms \<and> pairs tbl' = pairs tbl \<union> pairs ms"
  using assms
proof (induction ms arbitrary: tbl)
  case Nil
  then show ?case by simp
next
  case (Cons m ms)
  show ?case
  proof (cases "list_ex (\<lambda>r. gm_GroupID r = gm_GroupID m \<and> gm_UserID r = gm_UserID m) tbl")
    case True
    then have "(gm_GroupID m, gm_UserID m) \<in> pairs tbl" by (auto simp: list_ex_iff image_iff) metis
    moreover obtain extra where "tbl' = tbl @ extra" "set extra \<subseteq> set ms" "pairs tbl' = pairs tbl \<union> pairs ms"
      using Cons.IH [of tbl] Cons.prems True by auto
    ultimately show ?thesis by (intro exI [of _ extra]) auto
  next
    case False
    then have "insertMembers s ms (tbl @ [m]) = Inr tbl'" using Cons.prems by (simp split: if_splits)
    from Cons.IH [OF this] obtain extra where "tbl' = (tbl @ [m]) @ extra" "set extra \<subseteq> set ms" "pairs tbl' = pairs (tbl @ [m]) \<union> pairs ms"
      by blast
    then show ?thesis by (intro exI [of _ "m # extra"]) auto
  qed
qed

lemma newMembers_facts:
  "m \<in> set (newMembers gen now gid uids) \<Longrightarrow> gm_GroupID m = gid \<and> gm_UserID m \<in> set uids"
  "gm_UserID ` set (newMembers gen now gid uids) = set uids"
proof -
  have u: "map gm_UserID (newMembers gen now gid uids) = uids"
    by (simp add: newMembers_def comp_def case_prod_beta)
  then show "gm_UserID ` set (newMembers gen now gid uids) = set uids" by (metis set_map)
  moreover have "m \<in> set (newMembers gen now gid uids) \<Longrightarrow> gm_GroupID m = gid" by (auto simp: newMembers_def)
  ultimately show "m \<in> set (newMembers gen now gid uids) \<Longrightarrow> gm_GroupID m = gid \<and> gm_UserID m \<in> set uids" by blast
qed

lemma newMembers_pairs: "pairs (newMembers gen now gid uids) = {gid} \<times> set uids"
proof -
  have "pairs (newMembers gen now gid uids) = (\<lambda>u. (gid, u)) ` gm_UserID ` set (newMembers gen now gid uids)"
    unfolding image_image by (rule image_cong) (simp_all add: newMembers_facts(1))
  then show ?thesis by (auto simp: newMembers_facts(2))
qed

lemma dbcall_Inr: "dbcall flt n i r = Inr x \<Longrightarrow> r = Inr x"
  by (simp add: dbcall_def split: option.splits)

lemma grpAddMembers_ok:
  assumes "grpAddMembers flt s gid (newMembers gen now gid uids) = Inr (sk, tbl)"
  shows "\<exists>extra. tbl = gs_members s @ extra \<and> (\<forall>m \<in> set extra. gm_GroupID m = gid \<and> gm_UserID m \<in> set uids) \<and>
    pairs tbl = pairs (gs_members s) \<union> {gid} \<times> set uids"
proof -
  let ?ms = "newMembers gen now gid uids" and ?ex = "existingMembers s gid (map gm_UserID (newMembers gen now gid uids))"
  have ex: "u \<in> set ?ex \<Longrightarrow> (gid, u) \<in> pairs (gs_members s)" for u by (auto simp: existingMembers_def image_iff)
  have cov: "pairs ?ms \<subseteq> pairs (gs_members s) \<union> pairs (filter (\<lambda>m. gm_UserID m \<notin> set ?ex) ?ms)"
    using ex newMembers_facts(1) [where gen = gen and now = now and gid = gid and uids = uids] by fastforce
  show ?thesis
  proof (cases "filter (\<lambda>m. gm_UserID m \<notin> set ?ex) ?ms = []")
    case True
    then have "tbl = gs_members s" using assms
      by (auto simp: grpAddMembers_def Let_def bindE_eq_Inr dest!: dbcall_Inr split: if_splits)
    then show ?thesis using cov True newMembers_pairs [of gen now gid uids] by auto
  next
    case False
    then have "insertMembers s (filter (\<lambda>m. gm_UserID m \<notin> set ?ex) ?ms) (gs_members s) = Inr tbl" using assms
      by (auto simp: grpAddMembers_def Let_def bindE_eq_Inr dest!: dbcall_Inr split: if_splits)
    from insertMembers_ok [OF this] obtain extra where e: "tbl = gs_members s @ extra"
      "set extra \<subseteq> set (filter (\<lambda>m. gm_UserID m \<notin> set ?ex) ?ms)" "pairs tbl = pairs (gs_members s) \<union> pairs (filter (\<lambda>m. gm_UserID m \<notin> set ?ex) ?ms)"
      by blast
    have "pairs tbl = pairs (gs_members s) \<union> pairs ?ms" using e(3) cov by auto
    then show ?thesis using e(1,2) newMembers_pairs [of gen now gid uids] newMembers_facts(1) [where gen = gen and now = now and gid = gid and uids = uids] by (intro exI [of _ extra]) auto
  qed
qed

lemma grpRemoveMembers_ok:
  assumes "grpRemoveMembers flt s gid uids = Inr (sk, tbl)"
  shows "tbl = filter (\<lambda>m. \<not> (gm_GroupID m = gid \<and> gm_UserID m \<in> set uids)) (gs_members s)"
proof -
  have "gm_UserID m \<in> set (existingMembers s gid uids) \<longleftrightarrow> gm_UserID m \<in> set uids"
    if "m \<in> set (gs_members s)" "gm_GroupID m = gid" for m using that by (auto simp: existingMembers_def)
  then have "filter (\<lambda>m. \<not> (gm_GroupID m = gid \<and> gm_UserID m \<in> set (filter (\<lambda>u. u \<in> set (existingMembers s gid uids)) uids))) (gs_members s) =
     filter (\<lambda>m. \<not> (gm_GroupID m = gid \<and> gm_UserID m \<in> set uids)) (gs_members s)" by (intro filter_cong) auto
  moreover have "gs_members s = filter (\<lambda>m. \<not> (gm_GroupID m = gid \<and> gm_UserID m \<in> set uids)) (gs_members s)"
    if "filter (\<lambda>u. u \<in> set (existingMembers s gid uids)) uids = []"
    by (rule filter_True [symmetric]) (use that in \<open>auto simp: filter_empty_conv existingMembers_def\<close>)
  ultimately show ?thesis using assms
    by (auto simp: grpRemoveMembers_def Let_def bindE_eq_Inr dest!: dbcall_Inr split: if_splits)
qed

lemma dbE_simps [simp]: "dbE r = Inr x \<longleftrightarrow> r = Inr x" "dbE (Inl e) = Inl (ErrGroupDb e)"
  by (auto simp: dbE_def split: sum.splits)

section \<open>Synchronisation\<close>

lemma syncAdd_ok:
  assumes "syncAdd flt gen now gid uids s = Inr s1"
  shows "\<exists>extra. s1 = s\<lparr>gs_members := gs_members s @ extra\<rparr> \<and> (\<forall>m \<in> set extra. gm_GroupID m = gid \<and> gm_UserID m \<in> set uids) \<and>
    pairs (gs_members s1) = pairs (gs_members s) \<union> {gid} \<times> set uids"
proof (cases "uids = []")
  case True
  then show ?thesis using assms by (intro exI [of _ "[]"]) (simp add: syncAdd_def)
next
  case False
  then obtain sk tbl where a: "grpAddMembers flt s gid (newMembers gen now gid uids) = Inr (sk, tbl)" "s1 = s\<lparr>gs_members := tbl\<rparr>"
    using assms by (auto simp: syncAdd_def bindE_eq_Inr)
  show ?thesis using grpAddMembers_ok [OF a(1)] a(2) by auto
qed

lemma syncRemove_ok:
  assumes "syncRemove flt gid uids s = Inr s1"
  shows "s1 = s\<lparr>gs_members := filter (\<lambda>m. \<not> (gm_GroupID m = gid \<and> gm_UserID m \<in> set uids)) (gs_members s)\<rparr>"
proof (cases "uids = []")
  case True
  then show ?thesis using assms by (simp add: syncRemove_def)
next
  case False
  then obtain sk tbl where a: "grpRemoveMembers flt s gid uids = Inr (sk, tbl)" "s1 = s\<lparr>gs_members := tbl\<rparr>"
    using assms by (auto simp: syncRemove_def bindE_eq_Inr)
  show ?thesis using grpRemoveMembers_ok [OF a(1)] a(2) by simp
qed

lemma MarkRuleSync_ok:
  "MarkRuleSync flt now s gid a r e = Inr s' \<Longrightarrow> gs_members s' = gs_members s \<and> gs_groups s' = gs_groups s \<and> gs_db s' = gs_db s \<and> gs_events s' = gs_events s"
  by (auto simp: MarkRuleSync_def dest!: dbcall_Inr)

lemma markFailed_keeps [simp]:
  "gs_members (markFailed flt now s gid a e) = gs_members s" "gs_groups (markFailed flt now s gid a e) = gs_groups s"
  "gs_db (markFailed flt now s gid a e) = gs_db s" "gs_events (markFailed flt now s gid a e) = gs_events s"
  by (auto simp: markFailed_def dest: MarkRuleSync_ok split: sum.splits)

text \<open>A run of \<open>syncApply\<close> that succeeds.\<close>

lemma syncApply_ok:
  assumes "syncApply env flt gen now g gid cr s = (Inr rep, s')"
  shows "\<exists>matched current s1 s2. EvaluateRule (se_lower env) flt (gs_db s) (ug_TenantID g) cr = Inr matched \<and>
    current = map gm_UserID (filter (\<lambda>m. gm_GroupID m = gid) (gs_members s)) \<and>
    syncAdd flt gen now gid (filter (\<lambda>i. i \<notin> set current) matched) s = Inr s1 \<and>
    syncRemove flt gid (filter (\<lambda>i. i \<notin> set matched) current) s1 = Inr s2 \<and>
    gs_members s' = gs_members s2 \<and> gs_groups s' = gs_groups s2 \<and> gs_db s' = gs_db s2 \<and> gs_events s' = gs_events s2 \<and>
    sr_Added rep = int (length (filter (\<lambda>i. i \<notin> set current) matched)) \<and>
    sr_Removed rep = int (length (filter (\<lambda>i. i \<notin> set matched) current))"
proof -
  obtain matched where m: "EvaluateRule (se_lower env) flt (gs_db s) (ug_TenantID g) cr = Inr matched"
    using assms by (cases "EvaluateRule (se_lower env) flt (gs_db s) (ug_TenantID g) cr") (auto simp: syncApply_def)
  obtain current where c: "AllMemberIDs flt s gid = Inr current"
    using assms m by (cases "AllMemberIDs flt s gid") (auto simp: syncApply_def)
  let ?add = "filter (\<lambda>i. i \<notin> set current) matched" and ?rem = "filter (\<lambda>i. i \<notin> set matched) current"
  obtain s1 where s1: "syncAdd flt gen now gid ?add s = Inr s1"
    using assms m c by (cases "syncAdd flt gen now gid ?add s") (auto simp: syncApply_def diffMembers_def)
  obtain s2 where s2: "syncRemove flt gid ?rem s1 = Inr s2"
    using assms m c s1 by (cases "syncRemove flt gid ?rem s1") (auto simp: syncApply_def diffMembers_def)
  have "MarkRuleSync flt now s2 gid (int (length ?add)) (int (length ?rem)) None = Inr s'"
    "rep = \<lparr>sr_GroupID = gid, sr_Added = int (length ?add), sr_Removed = int (length ?rem)\<rparr>"
    using assms m c s1 s2 by (auto simp: syncApply_def diffMembers_def split: sum.splits)
  moreover have "current = map gm_UserID (filter (\<lambda>m. gm_GroupID m = gid) (gs_members s))"
    using c by (auto simp: AllMemberIDs_def dest!: dbcall_Inr)
  ultimately show ?thesis using m s1 s2 MarkRuleSync_ok by fastforce
qed

lemma syncApply_members:
  assumes "syncApply env flt gen now g gid cr s = (Inr rep, s')"
    and "EvaluateRule (se_lower env) flt (gs_db s) (ug_TenantID g) cr = Inr matched" and "distinct matched"
  shows "memberIDs s' gid = set matched \<and> gs_groups s' = gs_groups s \<and> gs_db s' = gs_db s \<and> gs_events s' = gs_events s \<and>
    filter (\<lambda>m. gm_GroupID m \<noteq> gid) (gs_members s') = filter (\<lambda>m. gm_GroupID m \<noteq> gid) (gs_members s) \<and>
    sr_Added rep = int (card (memberIDs s' gid - memberIDs s gid))"
proof -
  from syncApply_ok [OF assms(1)] assms(2) obtain current s1 s2 where
    c: "current = map gm_UserID (filter (\<lambda>m. gm_GroupID m = gid) (gs_members s))"
    and s1: "syncAdd flt gen now gid (filter (\<lambda>i. i \<notin> set current) matched) s = Inr s1"
    and s2: "syncRemove flt gid (filter (\<lambda>i. i \<notin> set matched) current) s1 = Inr s2"
    and s': "gs_members s' = gs_members s2" "gs_groups s' = gs_groups s2" "gs_db s' = gs_db s2" "gs_events s' = gs_events s2"
    and rep: "sr_Added rep = int (length (filter (\<lambda>i. i \<notin> set current) matched))" by auto
  have cs: "set current = memberIDs s gid" by (auto simp: c memberIDs_def)
  from syncAdd_ok [OF s1] obtain extra where e: "s1 = s\<lparr>gs_members := gs_members s @ extra\<rparr>"
    "\<forall>m \<in> set extra. gm_GroupID m = gid" "pairs (gs_members s1) = pairs (gs_members s) \<union> {gid} \<times> set (filter (\<lambda>i. i \<notin> set current) matched)"
    by blast
  note r = syncRemove_ok [OF s2]
  have "memberIDs s1 gid = memberIDs s gid \<union> set matched" using e(3) cs by (auto simp: memberIDs_pairs)
  moreover have "memberIDs s' gid = memberIDs s1 gid - set (filter (\<lambda>i. i \<notin> set matched) current)" using r s'(1) by (auto simp: memberIDs_def)
  ultimately have m: "memberIDs s' gid = set matched" using cs by auto
  moreover have "filter (\<lambda>m. gm_GroupID m \<noteq> gid) (gs_members s') = filter (\<lambda>m. gm_GroupID m \<noteq> gid) (gs_members s)"
  proof -
    have "filter (\<lambda>m. gm_GroupID m \<noteq> gid) (gs_members s') = filter (\<lambda>m. gm_GroupID m \<noteq> gid) (gs_members s1)"
      using r s'(1) by (auto intro!: filter_cong)
    then show ?thesis using e(1,2) by simp
  qed
  moreover have "sr_Added rep = int (card (memberIDs s' gid - memberIDs s gid))"
  proof -
    have "length (filter (\<lambda>i. i \<notin> set current) matched) = card (set (filter (\<lambda>i. i \<notin> set current) matched))"
      by (rule distinct_card [symmetric]) (simp add: assms(3))
    moreover have "set (filter (\<lambda>i. i \<notin> set current) matched) = memberIDs s' gid - memberIDs s gid" using m cs by auto
    ultimately show ?thesis using rep by simp
  qed
  ultimately show ?thesis using e(1) r s' by simp
qed

text \<open>
  C36: A successful synchronisation of an enabled rule makes the members of the group exactly the live users of the
  tenant of the group that satisfy every condition of the rule, read without SQL: text compared literally or, for
  contains, startswith and endswith, literally up to case, and missing values matching nothing. It
  reports how many joined, and leaves every other group alone.
\<close>

theorem group_sync_exact:
  assumes "folding_law (se_lower env)" and "requireGroup flt c s gid = Inr g" and "grpGetRule flt s gid = Inr rule"
    and "ugr_Status rule = RuleEnabled" and "ValidateRule (gl_oor (se_lib env)) (Some (ugr_Expr rule)) = Inr expr"
    and "syncRule env flt c gen now gid s = (Inr rep, s')"
  shows "memberIDs s' gid = ruleMatches (se_lib env) (se_lower env) (gs_db s) (ug_TenantID g) expr \<and>
    sr_Added rep = int (card (memberIDs s' gid - memberIDs s gid)) \<and> gs_groups s' = gs_groups s \<and>
    filter (\<lambda>m. gm_GroupID m \<noteq> gid) (gs_members s') = filter (\<lambda>m. gm_GroupID m \<noteq> gid) (gs_members s)"
proof -
  obtain cr where cr: "Compile (se_lib env) expr = Inr cr" using Compile_ok [OF assms(5)] by blast
  then have a: "syncApply env flt gen now g gid cr s = (Inr rep, s')" using assms(2-6) by (simp add: syncRule_def)
  from syncApply_ok [OF a] obtain matched where m: "EvaluateRule (se_lower env) flt (gs_db s) (ug_TenantID g) cr = Inr matched" by blast
  have "set matched = ruleMatches (se_lib env) (se_lower env) (gs_db s) (ug_TenantID g) expr" "distinct matched"
    using EvaluateRule_matches [OF assms(1,5) cr m] by blast+
  then show ?thesis using syncApply_members [OF a m] by simp
qed

section \<open>No member of another tenant\<close>

text \<open>Ids identify rows, and every member row joins a group and a user of one tenant.\<close>

definition member_ok :: "user_group list \<Rightarrow> rule_user list \<Rightarrow> user_group_member \<Rightarrow> bool" where
  "member_ok gs us m \<longleftrightarrow>
     (\<exists>g \<in> set gs. \<exists>u \<in> set us. ug_ID g = gm_GroupID m \<and> ru_ID u = gm_UserID m \<and> ru_TenantID u = ug_TenantID g)"

lemma member_okE:
  assumes "member_ok gs us m"
  obtains g u where "g \<in> set gs" "u \<in> set us" "ug_ID g = gm_GroupID m" "ru_ID u = gm_UserID m" "ru_TenantID u = ug_TenantID g"
  using assms by (auto simp: member_ok_def)

definition groups_inv :: "group_state \<Rightarrow> bool" where
  "groups_inv s \<longleftrightarrow> distinct (map ug_ID (gs_groups s)) \<and> distinct (map ru_ID (rd_users (gs_db s))) \<and>
     (\<forall>m \<in> set (gs_members s). member_ok (gs_groups s) (rd_users (gs_db s)) m)"

text \<open>
  The requests, each under a context pinned to a tenant, with any database faults, ids and times; the changes other
  parts of the program make to the tables read here keep the id and the tenant of every user.
\<close>

inductive group_step :: "group_state \<Rightarrow> group_state \<Rightarrow> bool" where
  Create: "pinned_to c t \<Longrightarrow> groupCreate sv flt c gen now t req s = Inr (g, s') \<Longrightarrow> group_step s s'"
| Update: "pinned_to c t \<Longrightarrow> groupUpdate sv flt c i req s = Inr (g, s') \<Longrightarrow> group_step s s'"
| Delete: "pinned_to c t \<Longrightarrow> groupDelete sv flt c i force s = Inr s' \<Longrightarrow> group_step s s'"
| AddMember: "pinned_to c t \<Longrightarrow> gsv_userValidator sv = Some (validateUserInTenant uflt) \<Longrightarrow>
    groupAddMember sv flt c gen now gid uid s = Inr s' \<Longrightarrow> group_step s s'"
| AddMembers: "pinned_to c t \<Longrightarrow> gsv_userValidator sv = Some (validateUserInTenant uflt) \<Longrightarrow>
    groupAddMembers sv flt c gen now gid uids s = Inr (r, s') \<Longrightarrow> group_step s s'"
| RemoveMember: "pinned_to c t \<Longrightarrow> groupRemoveMember sv flt c gid uid s = Inr s' \<Longrightarrow> group_step s s'"
| RemoveMembers: "pinned_to c t \<Longrightarrow> groupRemoveMembers sv flt c gid uids s = Inr (r, s') \<Longrightarrow> group_step s s'"
| Upsert: "pinned_to c t \<Longrightarrow> handleUpsertRule env sv sflt flt c gen now gid body s = (r, s') \<Longrightarrow> group_step s s'"
| DeleteRule: "pinned_to c t \<Longrightarrow> DeleteRule sv flt c gid s = (r, s') \<Longrightarrow> group_step s s'"
| Sync: "pinned_to c t \<Longrightarrow> SyncRule env sv sflt flt c gen now gid s = (r, s') \<Longrightarrow> group_step s s'"
| Resync: "0 < t \<Longrightarrow> fireResync env flt sflt gen2 now t timers s = (timers', s') \<Longrightarrow> group_step s s'"
| Others: "distinct (map ru_ID (rd_users db)) \<Longrightarrow>
    (\<And>u. u \<in> set (rd_users (gs_db s)) \<Longrightarrow> \<exists>u' \<in> set (rd_users db). ru_ID u' = ru_ID u \<and> ru_TenantID u' = ru_TenantID u) \<Longrightarrow>
    group_step s (s\<lparr>gs_db := db\<rparr>)"

lemma requireGroup_ok:
  assumes "requireGroup flt c s gid = Inr g" and "pinned_to c t"
  shows "g \<in> set (gs_groups s) \<and> ug_ID g = gid \<and> ug_TenantID g = t"
proof -
  let ?rows = "filter (\<lambda>r. tm_get groupModel r = Some t) (filter (\<lambda>r. ug_ID r = gid \<and> ug_DeletedAt r = None) (gs_groups s))"
  have "grpGetByID flt c (gs_groups s) gid = Inr g" using assms(1) by (auto simp: requireGroup_def split: sum.splits if_splits)
  then have "(case ?rows of [] \<Rightarrow> Inl RecordNotFound | r # _ \<Rightarrow> Inr r) = (Inr g :: db_error + user_group)"
    unfolding grpGetByID_def by (drule_tac dbcall_Inr) (simp add: scoped_rows_pinned [OF assms(2)] scopedResult_def groupModel_def)
  then have "g \<in> set ?rows" by (cases ?rows) auto
  then show ?thesis by (simp add: groupModel_def)
qed

lemma inv_members:
  assumes "groups_inv s" and "gs_groups s' = gs_groups s" and "gs_db s' = gs_db s"
    and "\<And>m. m \<in> set (gs_members s') \<Longrightarrow> m \<in> set (gs_members s) \<or> member_ok (gs_groups s) (rd_users (gs_db s)) m"
  shows "groups_inv s'"
  using assms by (auto simp: groups_inv_def)

lemma publishG_keeps [simp]:
  "gs_groups (publishG sv ev s) = gs_groups s" "gs_members (publishG sv ev s) = gs_members s" "gs_db (publishG sv ev s) = gs_db s"
  "gs_rules (publishG sv ev s) = gs_rules s"
  by (simp_all add: publishG_def)

lemma publishMembers_keeps [simp]:
  "gs_groups (publishMembers sv ev sk us s) = gs_groups s" "gs_members (publishMembers sv ev sk us s) = gs_members s"
  "gs_db (publishMembers sv ev sk us s) = gs_db s"
proof -
  have "gs_groups (foldl (\<lambda>st u. publishG sv (ev u) st) s l) = gs_groups s \<and> gs_members (foldl (\<lambda>st u. publishG sv (ev u) st) s l) = gs_members s \<and>
    gs_db (foldl (\<lambda>st u. publishG sv (ev u) st) s l) = gs_db s" for l
    by (induction l arbitrary: s) simp_all
  then show "gs_groups (publishMembers sv ev sk us s) = gs_groups s" "gs_members (publishMembers sv ev sk us s) = gs_members s"
    "gs_db (publishMembers sv ev sk us s) = gs_db s" by (simp_all add: publishMembers_def)
qed

lemma groups_inv_cong:
  "gs_groups s' = gs_groups s \<Longrightarrow> gs_db s' = gs_db s \<Longrightarrow> gs_members s' = gs_members s \<Longrightarrow> groups_inv s' \<longleftrightarrow> groups_inv s"
  by (simp add: groups_inv_def)

text \<open>Writing back a group with its id and tenant.\<close>

lemma grpUpdate_inv:
  assumes inv: "groups_inv s" and pin: "pinned_to c t" and up: "grpUpdate flt c (gs_groups s) g = Inr gs"
    and old: "old \<in> set (gs_groups s)" "ug_ID g = ug_ID old" "ug_TenantID g = ug_TenantID old"
    and s': "gs_groups s' = gs" "gs_db s' = gs_db s" "gs_members s' = gs_members s"
  shows "groups_inv s'"
proof -
  let ?f = "\<lambda>r. if (ug_ID r = ug_ID g \<and> ug_DeletedAt r = None) \<and> Some (ug_TenantID r) = Some t then g else r"
  have gs: "gs = map ?f (gs_groups s)"
    using up by (auto simp: grpUpdate_def scopedResult_def scoped_update_def tenant_filter_pinned [OF pin] groupModel_def dest!: dbcall_Inr)
  have "r = old" if "r \<in> set (gs_groups s)" "ug_ID r = ug_ID g" for r
    using that old(1,2) inv by (auto simp: groups_inv_def distinct_map dest: inj_onD)
  then have keep: "ug_ID (?f r) = ug_ID r \<and> ug_TenantID (?f r) = ug_TenantID r" if "r \<in> set (gs_groups s)" for r
    using that old(2,3) by auto
  then have ids: "map ug_ID gs = map ug_ID (gs_groups s)" by (simp add: gs)
  have "member_ok gs (rd_users (gs_db s)) m" if m: "member_ok (gs_groups s) (rd_users (gs_db s)) m" for m
  proof -
    obtain r u where r: "r \<in> set (gs_groups s)" "u \<in> set (rd_users (gs_db s))" "ug_ID r = gm_GroupID m" "ru_ID u = gm_UserID m"
      "ru_TenantID u = ug_TenantID r" using m by (auto simp: member_ok_def)
    then have "?f r \<in> set gs" "ug_ID (?f r) = gm_GroupID m" "ug_TenantID (?f r) = ug_TenantID r" using keep [of r] by (auto simp: gs)
    then show ?thesis using r(2,4,5) unfolding member_ok_def by (intro bexI [of _ "?f r"] bexI [of _ u] conjI) simp_all
  qed
  then show ?thesis using inv ids s' by (simp add: groups_inv_def)
qed

lemma grpDelete_inv:
  assumes inv: "groups_inv s" and pin: "pinned_to c t" and d: "grpDelete flt c s i = Inr s'"
  shows "groups_inv s'"
proof -
  define gs where "gs = filter (\<lambda>r. \<not> (ug_ID r = i \<and> Some (ug_TenantID r) = Some t)) (gs_groups s)"
  have "s' = s \<or> s' = s\<lparr>gs_groups := gs, gs_members := filter (\<lambda>m. gm_GroupID m \<noteq> i) (gs_members s), gs_rules := filter (\<lambda>r. ugr_GroupID r \<noteq> i) (gs_rules s)\<rparr>"
    using d by (auto simp: grpDelete_def scopedResult_def scoped_delete_def tenant_filter_pinned [OF pin] groupModel_def gs_def dest!: dbcall_Inr split: if_splits)
  moreover have "groups_inv (s\<lparr>gs_groups := gs, gs_members := filter (\<lambda>m. gm_GroupID m \<noteq> i) (gs_members s), gs_rules := x\<rparr>)" for x
  proof -
    have "member_ok gs (rd_users (gs_db s)) m" if mm: "m \<in> set (gs_members s)" and mi: "gm_GroupID m \<noteq> i" for m
    proof -
      have "member_ok (gs_groups s) (rd_users (gs_db s)) m" using inv mm by (simp add: groups_inv_def)
      then obtain g u where "g \<in> set (gs_groups s)" "u \<in> set (rd_users (gs_db s))" "ug_ID g = gm_GroupID m" "ru_ID u = gm_UserID m" "ru_TenantID u = ug_TenantID g"
        by (rule member_okE)
      then show ?thesis using mi by (auto simp: member_ok_def gs_def)
    qed
    then show ?thesis using inv by (simp add: groups_inv_def gs_def distinct_map_filter)
  qed
  ultimately show ?thesis using inv by blast
qed

lemma add_rows_inv:
  assumes inv: "groups_inv s" and g: "g \<in> set (gs_groups s)" "ug_ID g = gid"
    and us: "\<And>i. i \<in> set uids \<Longrightarrow> \<exists>u \<in> set (rd_users (gs_db s)). ru_ID u = i \<and> ru_TenantID u = ug_TenantID g"
    and tbl: "gs_members s' = gs_members s @ extra" "\<forall>m \<in> set extra. gm_GroupID m = gid \<and> gm_UserID m \<in> set uids"
    and keep: "gs_groups s' = gs_groups s" "gs_db s' = gs_db s"
  shows "groups_inv s'"
proof (rule inv_members [OF inv keep])
  fix m assume "m \<in> set (gs_members s')"
  moreover have "member_ok (gs_groups s) (rd_users (gs_db s)) m" if "m \<in> set extra"
  proof -
    have "gm_GroupID m = gid" "gm_UserID m \<in> set uids" using tbl(2) that by blast+
    then show ?thesis using us [of "gm_UserID m"] g by (auto simp: member_ok_def)
  qed
  ultimately show "m \<in> set (gs_members s) \<or> member_ok (gs_groups s) (rd_users (gs_db s)) m" using tbl(1) by auto
qed

lemma userGetByID_ok:
  assumes "userGetByID flt c us i = Inr u" and pin: "pinned_to c t" shows "u \<in> set us \<and> ru_ID u = i \<and> ru_TenantID u = t"
proof -
  let ?rows = "filter (\<lambda>r. tm_get ruleUserModel r = Some t) (filter (\<lambda>u. ru_ID u = i \<and> \<not> ru_Deleted u) us)"
  have "(case ?rows of [] \<Rightarrow> Inl RecordNotFound | r # _ \<Rightarrow> Inr r) = (Inr u :: db_error + rule_user)"
    using assms(1) unfolding userGetByID_def by (drule_tac dbcall_Inr) (simp add: scoped_rows_pinned [OF pin] scopedResult_def ruleUserModel_def)
  then have "u \<in> set ?rows" by (cases ?rows) auto
  then show ?thesis by (simp add: ruleUserModel_def)
qed

lemma requireUsers_ok:
  assumes "requireUsersInTenant sv c s uids = Inr ()" and "gsv_userValidator sv = Some (validateUserInTenant uflt)" and pin: "pinned_to c t"
    and "i \<in> set uids"
  shows "\<exists>u \<in> set (rd_users (gs_db s)). ru_ID u = i \<and> ru_TenantID u = t"
proof -
  have "requireUsersLoop (validateUserInTenant uflt) c (rd_users (gs_db s)) uids = Inr ()" using assms(1,2) by (simp add: requireUsersInTenant_def)
  then have "validateUserInTenant uflt c (rd_users (gs_db s)) i = Inr True" using assms(4)
    by (induction uids) (auto split: sum.splits if_splits)
  then obtain u where "userGetByID uflt c (rd_users (gs_db s)) i = Inr u"
    by (auto simp: validateUserInTenant_def existsInTenant_def split: sum.splits if_splits)
  then show ?thesis using userGetByID_ok pin by blast
qed

lemma EvaluateRule_users:
  assumes "EvaluateRule lc flt db t cr = Inr ids" and "i \<in> set ids"
  shows "\<exists>u \<in> set (rd_users db). ru_ID u = i \<and> ru_TenantID u = t"
proof -
  have "i \<in> (\<lambda>row. ru_ID (fst row)) ` {row \<in> set (joinedRows (cr_JoinOrgFor cr \<noteq> []) (cr_JoinDetail cr) db). ru_TenantID (fst row) = t}"
    using assms unfolding EvaluateRule_def by (drule_tac dbcall_Inr) (auto split: if_splits)
  then obtain u d uo where "(u, d, uo) \<in> set (joinedRows (cr_JoinOrgFor cr \<noteq> []) (cr_JoinDetail cr) db)" "ru_TenantID u = t" "ru_ID u = i" by auto
  then show ?thesis by (auto simp: joinedRows_set)
qed

lemma syncApply_inv:
  assumes inv: "groups_inv s" and g: "g \<in> set (gs_groups s)" "ug_ID g = gid"
  shows "groups_inv (snd (syncApply env flt gen now g gid cr s)) \<and> gs_groups (snd (syncApply env flt gen now g gid cr s)) = gs_groups s"
proof (cases "EvaluateRule (se_lower env) flt (gs_db s) (ug_TenantID g) cr")
  case (Inl e)
  then show ?thesis using inv by (simp add: syncApply_def groups_inv_def)
next
  case m: (Inr matched)
  show ?thesis
  proof (cases "AllMemberIDs flt s gid")
    case (Inl e)
    then show ?thesis using m inv by (simp add: syncApply_def)
  next
    case c: (Inr current)
    let ?add = "filter (\<lambda>i. i \<notin> set current) matched" and ?rem = "filter (\<lambda>i. i \<notin> set matched) current"
    show ?thesis
    proof (cases "syncAdd flt gen now gid ?add s")
      case (Inl e)
      then show ?thesis using m c inv by (simp add: syncApply_def diffMembers_def groups_inv_def)
    next
      case s1: (Inr s1)
      from syncAdd_ok [OF s1] obtain extra where e: "s1 = s\<lparr>gs_members := gs_members s @ extra\<rparr>"
        "\<forall>m \<in> set extra. gm_GroupID m = gid \<and> gm_UserID m \<in> set ?add" by blast
      have us: "\<exists>u \<in> set (rd_users (gs_db s)). ru_ID u = i \<and> ru_TenantID u = ug_TenantID g" if "i \<in> set ?add" for i
        using EvaluateRule_users [OF m, of i] that by simp
      have inv1: "groups_inv s1" by (rule add_rows_inv [OF inv g us _ e(2)]) (simp_all add: e(1))
      show ?thesis
      proof (cases "syncRemove flt gid ?rem s1")
        case (Inl err)
        then show ?thesis using m c s1 inv1 e(1) by (simp add: syncApply_def diffMembers_def groups_inv_def)
      next
        case s2: (Inr s2)
        note r = syncRemove_ok [OF s2]
        have inv2: "groups_inv s2" by (rule inv_members [OF inv1]) (simp_all add: r)
        show ?thesis
        proof (cases "MarkRuleSync flt now s2 gid (int (length ?add)) (int (length ?rem)) None")
          case (Inl err)
          then show ?thesis using m c s1 s2 inv2 e(1) r by (simp add: syncApply_def diffMembers_def)
        next
          case s3: (Inr s3)
          then have "groups_inv s3" "gs_groups s3 = gs_groups s2" using inv2 MarkRuleSync_ok [OF s3] groups_inv_cong [of s3 s2] by simp_all
          then show ?thesis using m c s1 s2 s3 e(1) r by (simp add: syncApply_def diffMembers_def)
        qed
      qed
    qed
  qed
qed

lemma syncRule_inv:
  assumes inv: "groups_inv s" and pin: "pinned_to c t"
  shows "groups_inv (snd (syncRule env flt c gen now gid s)) \<and> gs_groups (snd (syncRule env flt c gen now gid s)) = gs_groups s"
proof (cases "requireGroup flt c s gid")
  case (Inl e)
  then show ?thesis using inv by (simp add: syncRule_def)
next
  case g: (Inr g)
  have mark: "groups_inv (markFailed flt now s gid 0 e) \<and> gs_groups (markFailed flt now s gid 0 e) = gs_groups s" for e
    using inv groups_inv_cong [of "markFailed flt now s gid 0 e" s] by simp
  have "groups_inv (snd (syncApply env flt gen now g gid cr s)) \<and> gs_groups (snd (syncApply env flt gen now g gid cr s)) = gs_groups s" for cr
    using syncApply_inv [OF inv] requireGroup_ok [OF g pin] by blast
  then show ?thesis using g inv mark by (simp add: syncRule_def split: sum.splits)
qed

lemma resyncLoop_inv: "pinned_to c t \<Longrightarrow> groups_inv s \<Longrightarrow> groups_inv (resyncLoop env sflt c gen now gids s)"
  by (induction gids arbitrary: s) (simp_all add: syncRule_inv)

lemma groups_unchanged: "gs_groups s = gs \<Longrightarrow> s\<lparr>gs_rules := rules, gs_groups := gs\<rparr> = s\<lparr>gs_rules := rules\<rparr>"
  by auto

lemma UpsertRule_inv:
  assumes inv: "groups_inv s" and pin: "pinned_to c t"
  shows "groups_inv (snd (UpsertRule env sv sflt flt c gen now gid expr s))"
proof (cases "requireGroup flt c s gid")
  case (Inl e)
  then show ?thesis using inv by (simp add: UpsertRule_def)
next
  case g: (Inr g)
  note gg = requireGroup_ok [OF g pin]
  define rule where "rule = \<lparr>ugr_ID = gen 0, ugr_GroupID = gid, ugr_Expr = Json expr, ugr_Status = RuleEnabled, ugr_LastSyncAt = None,
      ugr_LastSyncAdded = 0, ugr_LastSyncRemoved = 0, ugr_LastSyncError = None, ugr_UpdatedAt = now\<rparr>"
  show ?thesis
  proof (cases "grpUpsertRule flt s rule")
    case (Inl e)
    then show ?thesis using g inv by (simp add: UpsertRule_def rule_def [symmetric])
  next
    case r: (Inr rules)
    have inv1: "groups_inv (s\<lparr>gs_rules := rules\<rparr>)" using inv groups_inv_cong [of "s\<lparr>gs_rules := rules\<rparr>" s] by simp
    let ?w = "if ug_Type g \<noteq> TypeDynamic then grpUpdate flt c (gs_groups s) (g\<lparr>ug_Type := TypeDynamic\<rparr>) else Inr (gs_groups s)"
    show ?thesis
    proof (cases ?w)
      case (Inl e)
      then show ?thesis using g r inv1 by (simp add: UpsertRule_def rule_def [symmetric] Let_def split: if_splits)
    next
      case w: (Inr gs)
      have inv2: "groups_inv (s\<lparr>gs_rules := rules, gs_groups := gs\<rparr>)"
      proof (cases "ug_Type g \<noteq> TypeDynamic")
        case True
        then show ?thesis using w gg by (intro grpUpdate_inv [OF inv pin, where old = g and g = "g\<lparr>ug_Type := TypeDynamic\<rparr>" and flt = flt]) simp_all
      next
        case False
        then show ?thesis using w inv groups_inv_cong [of "s\<lparr>gs_rules := rules, gs_groups := gs\<rparr>" s] by simp
      qed
      obtain rr s2 where s2: "syncRule env sflt c (\<lambda>i. gen (Suc i)) now gid (s\<lparr>gs_rules := rules, gs_groups := gs\<rparr>) = (rr, s2)" by fastforce
      have "groups_inv s2" using syncRule_inv [OF inv2 pin] s2 by (metis snd_conv)
      then have "groups_inv (publishG sv ev s2)" for ev using groups_inv_cong [of "publishG sv ev s2" s2] by simp
      then show ?thesis using g r w s2 \<open>groups_inv s2\<close>
        by (cases rr) (simp_all add: UpsertRule_def rule_def [symmetric] Let_def groups_unchanged split: if_splits)
    qed
  qed
qed

lemma DeleteRule_inv:
  assumes inv: "groups_inv s" and pin: "pinned_to c t"
  shows "groups_inv (snd (DeleteRule sv flt c gid s))"
proof (cases "requireGroup flt c s gid")
  case (Inl e)
  then show ?thesis using inv by (simp add: DeleteRule_def)
next
  case g: (Inr g)
  note gg = requireGroup_ok [OF g pin]
  show ?thesis
  proof (cases "grpDeleteRule flt s gid")
    case (Inl e)
    then show ?thesis using g inv by (simp add: DeleteRule_def)
  next
    case r: (Inr rules)
    have inv1: "groups_inv (s\<lparr>gs_rules := rules\<rparr>)" using inv groups_inv_cong [of "s\<lparr>gs_rules := rules\<rparr>" s] by simp
    let ?w = "if ug_Type g \<noteq> TypeStatic then grpUpdate flt c (gs_groups s) (g\<lparr>ug_Type := TypeStatic\<rparr>) else Inr (gs_groups s)"
    show ?thesis
    proof (cases ?w)
      case (Inl e)
      then show ?thesis using g r inv1 by (simp add: DeleteRule_def Let_def split: if_splits)
    next
      case w: (Inr gs)
      have "groups_inv (s\<lparr>gs_rules := rules, gs_groups := gs\<rparr>)"
      proof (cases "ug_Type g \<noteq> TypeStatic")
        case True
        then show ?thesis using w gg by (intro grpUpdate_inv [OF inv pin, where old = g and g = "g\<lparr>ug_Type := TypeStatic\<rparr>" and flt = flt]) simp_all
      next
        case False
        then show ?thesis using w inv groups_inv_cong [of "s\<lparr>gs_rules := rules, gs_groups := gs\<rparr>" s] by simp
      qed
      then have "groups_inv (publishG sv ev (s\<lparr>gs_rules := rules, gs_groups := gs\<rparr>))" for ev
        using groups_inv_cong [of "publishG sv ev (s\<lparr>gs_rules := rules, gs_groups := gs\<rparr>)" "s\<lparr>gs_rules := rules, gs_groups := gs\<rparr>"] by simp
      then show ?thesis using g r w by (simp add: DeleteRule_def Let_def groups_unchanged split: if_splits)
    qed
  qed
qed

lemma group_step_inv:
  assumes "group_step s s'" and inv: "groups_inv s" shows "groups_inv s'"
  using assms(1)
proof cases
  case (Create c t sv flt gen now req g)
  define g0 where "g0 = hd (stamp groupModel c [\<lparr>ug_ID = gen 0, ug_TenantID = t, ug_Name = cg_Name req, ug_Code = cg_Code req,
       ug_Description = optDesc (cg_Description req), ug_Type = TypeStatic, ug_CreatedAt = now, ug_DeletedAt = None\<rparr>])"
  obtain gs where gs: "insertGroup (gs_groups s) g0 = Inr gs" "s' = publishG sv (GroupCreated g0) (s\<lparr>gs_groups := gs\<rparr>)"
    using Create(2) by (auto simp: groupCreate_def Let_def grpCreate_def g0_def dest!: dbcall_Inr split: if_splits sum.splits)
  then have "gs = gs_groups s @ [g0]" "ug_ID g0 \<notin> set (map ug_ID (gs_groups s))" by (auto simp: insertGroup_def list_ex_iff split: if_splits)
  then show ?thesis using inv gs(2) by (auto simp: groups_inv_def member_ok_def)
next
  case (Update c t sv flt i req g)
  then obtain g0 gs where u: "requireGroup flt c s i = Inr g0" "g = g0\<lparr>ug_Name := upg_Name req, ug_Description := optDesc (upg_Description req)\<rparr>"
    "grpUpdate flt c (gs_groups s) g = Inr gs" "s' = publishG sv (GroupUpdated g) (s\<lparr>gs_groups := gs\<rparr>)"
    by (auto simp: groupUpdate_def Let_def bindE_eq_Inr split: sum.splits)
  show ?thesis by (rule grpUpdate_inv [OF inv Update(1) u(3), where old = g0]) (use requireGroup_ok [OF u(1) Update(1)] u(2,4) in simp_all)
next
  case (Delete c t sv flt i force)
  then consider "s' = s" | s1 ev where "grpDelete flt c s i = Inr s1" "s' = publishG sv ev s1"
    by (auto simp: groupDelete_def bindE_eq_Inr split: sum.splits if_splits)
  then show ?thesis
  proof cases
    case (2 s1 ev)
    then show ?thesis using grpDelete_inv [OF inv Delete(1)] groups_inv_cong [of s' s1] by simp
  qed (use inv in simp)
next
  case (AddMember c t sv uflt flt gen now gid uid)
  then obtain g tbl ev where a: "requireGroup flt c s gid = Inr g" "requireUsersInTenant sv c s [uid] = Inr ()"
    "grpAddMember flt s \<lparr>gm_ID = gen 0, gm_GroupID = gid, gm_UserID = uid, gm_CreatedAt = now\<rparr> = Inr tbl" "s' = publishG sv ev (s\<lparr>gs_members := tbl\<rparr>)"
    by (auto simp: groupAddMember_def bindE_eq_Inr split: sum.splits if_splits)
  have "insertMembers s [\<lparr>gm_ID = gen 0, gm_GroupID = gid, gm_UserID = uid, gm_CreatedAt = now\<rparr>] (gs_members s) = Inr tbl"
    using a(3) unfolding grpAddMember_def by (rule dbcall_Inr)
  from insertMembers_ok [OF this] obtain extra where x: "tbl = gs_members s @ extra"
    "set extra \<subseteq> set [\<lparr>gm_ID = gen 0, gm_GroupID = gid, gm_UserID = uid, gm_CreatedAt = now\<rparr>]" by blast
  then have e: "tbl = gs_members s @ extra" "\<forall>m \<in> set extra. gm_GroupID m = gid \<and> gm_UserID m \<in> set [uid]" by auto
  have g: "g \<in> set (gs_groups s)" "ug_ID g = gid" "ug_TenantID g = t" using requireGroup_ok [OF a(1) AddMember(1)] by blast+
  have us: "\<exists>u \<in> set (rd_users (gs_db s)). ru_ID u = i \<and> ru_TenantID u = ug_TenantID g" if "i \<in> set [uid]" for i
    using requireUsers_ok [OF a(2) AddMember(2,1) that] g(3) by simp
  show ?thesis by (rule add_rows_inv [OF inv g(1,2) us _ e(2)]) (simp_all add: a(4) e(1))
next
  case (AddMembers c t sv uflt flt gen now gid uids r)
  then obtain g sk tbl ev where a: "requireGroup flt c s gid = Inr g" "requireUsersInTenant sv c s uids = Inr ()"
    "grpAddMembers flt s gid (newMembers gen now gid uids) = Inr (sk, tbl)" "s' = publishMembers sv ev sk uids (s\<lparr>gs_members := tbl\<rparr>)"
    by (auto simp: groupAddMembers_def bindE_eq_Inr split: sum.splits if_splits)
  from grpAddMembers_ok [OF a(3)] obtain extra where e: "tbl = gs_members s @ extra" "\<forall>m \<in> set extra. gm_GroupID m = gid \<and> gm_UserID m \<in> set uids" by blast
  have g: "g \<in> set (gs_groups s)" "ug_ID g = gid" "ug_TenantID g = t" using requireGroup_ok [OF a(1) AddMembers(1)] by blast+
  have us: "\<exists>u \<in> set (rd_users (gs_db s)). ru_ID u = i \<and> ru_TenantID u = ug_TenantID g" if "i \<in> set uids" for i
    using requireUsers_ok [OF a(2) AddMembers(2,1) that] g(3) by simp
  show ?thesis by (rule add_rows_inv [OF inv g(1,2) us _ e(2)]) (simp_all add: a(4) e(1))
next
  case (RemoveMember c t sv flt gid uid)
  then obtain ev where "s' = publishG sv ev (s\<lparr>gs_members := filter (\<lambda>m. \<not> (gm_GroupID m = gid \<and> gm_UserID m = uid)) (gs_members s)\<rparr>)"
    by (auto simp: groupRemoveMember_def grpRemoveMember_def bindE_eq_Inr dest!: dbcall_Inr split: sum.splits if_splits)
  then show ?thesis by (intro inv_members [OF inv]) simp_all
next
  case (RemoveMembers c t sv flt gid uids r)
  then obtain sk tbl ev where a: "grpRemoveMembers flt s gid uids = Inr (sk, tbl)" "s' = publishMembers sv ev sk uids (s\<lparr>gs_members := tbl\<rparr>)"
    by (auto simp: groupRemoveMembers_def bindE_eq_Inr split: sum.splits)
  show ?thesis by (rule inv_members [OF inv]) (simp_all add: a(2) grpRemoveMembers_ok [OF a(1)])
next
  case (Upsert c t env sv sflt flt gen now gid body r)
  then show ?thesis using inv UpsertRule_inv [OF inv Upsert(1)]
    by (auto simp: handleUpsertRule_def split: sum.splits) (metis snd_conv)
next
  case (DeleteRule c t sv flt gid r)
  then show ?thesis using DeleteRule_inv [OF inv DeleteRule(1), of sv flt gid] by simp
next
  case (Sync c t env sv sflt flt gen now gid r)
  obtain rr s1 where s1: "syncRule env sflt c gen now gid s = (rr, s1)" by fastforce
  have "groups_inv s1" using syncRule_inv [OF inv Sync(1)] s1 by (metis snd_conv)
  moreover have "groups_inv (publishG sv ev s1) = groups_inv s1" for ev using groups_inv_cong [of "publishG sv ev s1" s1] by simp
  ultimately show ?thesis using Sync(2) s1 by (auto simp: SyncRule_def split: sum.splits)
next
  case (Resync t env flt sflt gen2 now timers timers')
  have "groups_inv (ResyncTenantDynamicGroups env flt sflt (WithTenant None t) gen2 now t s)"
    using resyncLoop_inv [of "WithTenant None t" t] inv Resync(1) by (auto simp: ResyncTenantDynamicGroups_def split: sum.splits)
  then show ?thesis using Resync(2) inv by (auto simp: fireResync_def split: option.splits if_splits)
next
  case (Others db)
  have "member_ok (gs_groups s) (rd_users db) m" if "member_ok (gs_groups s) (rd_users (gs_db s)) m" for m
    using that by (rule member_okE) (use Others(3) in \<open>force simp: member_ok_def\<close>)
  then show ?thesis using inv Others(1,2) by (simp add: groups_inv_def)
qed

lemma group_run_inv: "group_step\<^sup>*\<^sup>* s s' \<Longrightarrow> groups_inv s \<Longrightarrow> groups_inv s'"
  by (induction rule: rtranclp_induct) (simp_all add: group_step_inv)

text \<open>
  C37: Whatever group requests run, under contexts pinned to any tenants and with any database faults, a member row
  joins a user and a group of the same tenant: ids of foreign users in a request body are refused, a rule that names a
  foreign organization matches nobody of its tenant, and changing or deleting groups keeps it so.
\<close>

theorem group_members_same_tenant:
  assumes "groups_inv s" and "group_step\<^sup>*\<^sup>* s s'" and "m \<in> set (gs_members s')"
    and "g \<in> set (gs_groups s')" "ug_ID g = gm_GroupID m" and "u \<in> set (rd_users (gs_db s'))" "ru_ID u = gm_UserID m"
  shows "ru_TenantID u = ug_TenantID g"
proof -
  have inv: "groups_inv s'" using group_run_inv [OF assms(2,1)] .
  then have "member_ok (gs_groups s') (rd_users (gs_db s')) m" using assms(3) by (simp add: groups_inv_def)
  then obtain g' u' where r: "g' \<in> set (gs_groups s')" "u' \<in> set (rd_users (gs_db s'))" "ug_ID g' = gm_GroupID m" "ru_ID u' = gm_UserID m"
    "ru_TenantID u' = ug_TenantID g'" by (rule member_okE)
  have inj: "inj_on ug_ID (set (gs_groups s'))" "inj_on ru_ID (set (rd_users (gs_db s')))" using inv by (simp_all add: groups_inv_def distinct_map)
  have "g' = g" by (rule inj_onD [OF inj(1)]) (simp_all add: r(1,3) assms(4,5))
  moreover have "u' = u" by (rule inj_onD [OF inj(2)]) (simp_all add: r(2,4) assms(6,7))
  ultimately show ?thesis using r(5) by simp
qed

section \<open>An example\<close>

definition demo_env :: sync_env where
  "demo_env = \<lparr>se_lib = demo_lib, se_lower = (\<lambda>c. c)\<rparr>"

definition demo_user :: "id \<Rightarrow> id \<Rightarrow> rule_user" where
  "demo_user i t = \<lparr>ru_ID = i, ru_TenantID = t, ru_Username = ''u'', ru_Email = Some ''a@mxid.io'', ru_DisplayName = None, ru_Status = 1, ru_Deleted = False\<rparr>"

definition demo_status_rule :: rule_expr where
  "demo_status_rule = \<lparr>re_Op = ''and'', re_Conditions = [\<lparr>rc_Field = ''status'', rc_Cmp = ''eq'', rc_Value = AFloat 1\<rparr>]\<rparr>"

definition demo_groups :: group_state where
  "demo_groups = \<lparr>
     gs_groups = [\<lparr>ug_ID = 10, ug_TenantID = 7, ug_Name = ''g'', ug_Code = ''g'', ug_Description = None, ug_Type = TypeDynamic, ug_CreatedAt = 0, ug_DeletedAt = None\<rparr>],
     gs_members = [\<lparr>gm_ID = 20, gm_GroupID = 10, gm_UserID = 3, gm_CreatedAt = 0\<rparr>],
     gs_rules = [\<lparr>ugr_ID = 30, ugr_GroupID = 10, ugr_Expr = Json demo_status_rule, ugr_Status = RuleEnabled, ugr_LastSyncAt = None,
        ugr_LastSyncAdded = 0, ugr_LastSyncRemoved = 0, ugr_LastSyncError = None, ugr_UpdatedAt = 0\<rparr>],
     gs_db = \<lparr>rd_users = [demo_user 1 7, demo_user 2 8, (demo_user 3 7)\<lparr>ru_Status := 2\<rparr>], rd_details = [], rd_userOrgs = [], rd_orgs = []\<rparr>,
     gs_events = []\<rparr>"

definition demo_sync :: "(group_error + sync_report) \<times> group_state" where
  "demo_sync = syncRule demo_env no_faults (WithTenant None 7) (\<lambda>i. 100 + int i) 0 10 demo_groups"

lemma demo_sync_result: "fst demo_sync = Inr \<lparr>sr_GroupID = 10, sr_Added = 1, sr_Removed = 1\<rparr>"
  by code_simp

lemma demo_sync_members: "gs_members (snd demo_sync) = [\<lparr>gm_ID = 100, gm_GroupID = 10, gm_UserID = 1, gm_CreatedAt = 0\<rparr>]"
  by code_simp

lemma demo_groups_inv: "groups_inv demo_groups"
  by (simp add: groups_inv_def demo_groups_def demo_user_def member_ok_def)

theorem group_sync_exact_witness:
  "memberIDs (snd demo_sync) 10 = ruleMatches demo_lib (\<lambda>c. c) (gs_db demo_groups) 7 demo_status_rule"
proof -
  have "requireGroup no_faults (WithTenant None 7) demo_groups 10 = Inr (hd (gs_groups demo_groups))" by code_simp
  moreover have "grpGetRule no_faults demo_groups 10 = Inr (hd (gs_rules demo_groups))" by code_simp
  moreover have "ValidateRule (gl_oor (se_lib demo_env)) (Some (ugr_Expr (hd (gs_rules demo_groups)))) = Inr demo_status_rule" by code_simp
  moreover have "folding_law (se_lower demo_env)" by (simp add: folding_law_def demo_env_def)
  moreover have "ugr_Status (hd (gs_rules demo_groups)) = RuleEnabled" by (simp add: demo_groups_def)
  moreover have "syncRule demo_env no_faults (WithTenant None 7) (\<lambda>i. 100 + int i) 0 10 demo_groups = (Inr \<lparr>sr_GroupID = 10, sr_Added = 1, sr_Removed = 1\<rparr>, snd demo_sync)"
    using demo_sync_result by (simp add: demo_sync_def prod_eq_iff)
  ultimately have "memberIDs (snd demo_sync) 10 =
      ruleMatches (se_lib demo_env) (se_lower demo_env) (gs_db demo_groups) (ug_TenantID (hd (gs_groups demo_groups))) demo_status_rule"
    using group_sync_exact [where env = demo_env and flt = no_faults and c = "WithTenant None 7" and s = demo_groups and gid = 10] by blast
  then show ?thesis by (simp add: demo_env_def demo_groups_def)
qed

theorem group_members_same_tenant_witness:
  "\<exists>s'. group_step demo_groups s' \<and> (\<exists>m \<in> set (gs_members s'). \<exists>g \<in> set (gs_groups s'). \<exists>u \<in> set (rd_users (gs_db s')).
     ug_ID g = gm_GroupID m \<and> ru_ID u = gm_UserID m \<and> ru_TenantID u = ug_TenantID g)"
proof -
  obtain r s' where s': "SyncRule demo_env \<lparr>gsv_eventBus = False, gsv_userValidator = None\<rparr> no_faults no_faults (WithTenant None 7) (\<lambda>i. 100 + int i) 0 10 demo_groups = (r, s')"
    by fastforce
  then have step: "group_step demo_groups s'" by (rule group_step.Sync [where t = 7, rotated]) simp
  obtain b where b: "demo_sync = (Inr \<lparr>sr_GroupID = 10, sr_Added = 1, sr_Removed = 1\<rparr>, b)" using demo_sync_result by (metis prod.collapse)
  have "s' = b" using s' unfolding SyncRule_def demo_sync_def [symmetric] b by (auto simp: publishG_def split: sum.splits)
  then have "s' = snd demo_sync" by (simp add: b)
  then have m: "\<lparr>gm_ID = 100, gm_GroupID = 10, gm_UserID = 1, gm_CreatedAt = 0\<rparr> \<in> set (gs_members s')" by (simp add: demo_sync_members)
  have "groups_inv s'" using group_step_inv [OF step demo_groups_inv] .
  then obtain g u where gu: "g \<in> set (gs_groups s')" "u \<in> set (rd_users (gs_db s'))" "ug_ID g = 10" "ru_ID u = 1"
    using m by (auto simp: groups_inv_def member_ok_def)
  have "ru_TenantID u = ug_TenantID g"
    using group_members_same_tenant [OF demo_groups_inv r_into_rtranclp [of group_step, OF step] m gu(1) _ gu(2)] gu(3,4) by simp
  then have "\<exists>m \<in> set (gs_members s'). \<exists>g \<in> set (gs_groups s'). \<exists>u \<in> set (rd_users (gs_db s')).
     ug_ID g = gm_GroupID m \<and> ru_ID u = gm_UserID m \<and> ru_TenantID u = ug_TenantID g"
    by (intro bexI [OF _ m] bexI [OF _ gu(1)] bexI [OF _ gu(2)]) (simp add: gu(3,4))
  then show ?thesis using step by blast
qed

section \<open>Where the code falls short\<close>

text \<open>The single removal refuses dynamic groups; the batch removal does not look at the type of the group.\<close>

lemma batch_removal_edits_dynamic_group:
  "groupRemoveMember \<lparr>gsv_eventBus = True, gsv_userValidator = None\<rparr> no_faults (WithTenant None 7) 10 3 demo_groups = Inl ErrGroupIsDynamic"
  "map_sum id (\<lambda>(r, s'). gs_members s') (groupRemoveMembers \<lparr>gsv_eventBus = True, gsv_userValidator = None\<rparr> no_faults (WithTenant None 7) 10 [3] demo_groups) = Inr []"
  by code_simp+

text \<open>
  A synchronisation changes members without \<open>GroupMemberAdded\<close> or \<open>GroupMemberRemoved\<close>, the events on which the permission
  cache drops the bindings of the user.
\<close>

lemma sync_publishes_no_member_event:
  "gs_members demo_groups \<noteq> gs_members (snd demo_sync) \<and>
   map_sum id (\<lambda>_. ()) (fst demo_sync) = Inr () \<and> gs_events (snd demo_sync) = []"
  by code_simp

end
