(* ===== verification/Secrets.thy ===== *)
theory Secrets
  imports Prelude Snowflake
begin

unbundle bit_operations_syntax

text \<open>
  Secrets at rest: \<open>pkg/crypto\<close> (\<open>crypto.go\<close>, \<open>keystore.go\<close>, \<open>secret.go\<close>, \<open>identifier.go\<close>) with the base64 encodings
  of the Go library it uses. AES-GCM and bcrypt are parameters with the laws the code relies on; the bytes of
  the random source are arguments. A Go string is a list of bytes shown as characters.
\<close>

section \<open>Base64\<close>

datatype encoding = StdEncoding | RawStdEncoding | URLEncoding | RawURLEncoding

definition stdAlphabet :: string where
  "stdAlphabet = ''ABCDEFGHIJKLMNOPQRSTUVWXYZabcdefghijklmnopqrstuvwxyz0123456789+/''"

definition urlAlphabet :: string where
  "urlAlphabet = ''ABCDEFGHIJKLMNOPQRSTUVWXYZabcdefghijklmnopqrstuvwxyz0123456789-_''"

definition alphabet :: "encoding \<Rightarrow> string" where
  "alphabet e = (if e = StdEncoding \<or> e = RawStdEncoding then stdAlphabet else urlAlphabet)"

definition padded :: "encoding \<Rightarrow> bool" where
  "padded e = (e = StdEncoding \<or> e = URLEncoding)"

text \<open>The four sextets of three bytes, and back.\<close>

definition sextets :: "int \<Rightarrow> int \<Rightarrow> int \<Rightarrow> int list" where
  "sextets x y z = [x div 4, (x mod 4) * 16 + y div 16, (y mod 16) * 4 + z div 64, z mod 64]"

definition octets :: "int \<Rightarrow> int \<Rightarrow> int \<Rightarrow> int \<Rightarrow> byte list" where
  "octets a b c d = [word_of_int (a * 4 + b div 16), word_of_int ((b mod 16) * 16 + c div 4), word_of_int ((c mod 4) * 64 + d)]"

definition digits :: "encoding \<Rightarrow> int list \<Rightarrow> string" where
  "digits e = map (\<lambda>i. alphabet e ! nat i)"

fun EncodeToString :: "encoding \<Rightarrow> byte list \<Rightarrow> string" where
  "EncodeToString e [] = []"
| "EncodeToString e [x] = digits e (take 2 (sextets (uint x) 0 0)) @ (if padded e then ''=='' else [])"
| "EncodeToString e [x, y] = digits e (take 3 (sextets (uint x) (uint y) 0)) @ (if padded e then ''='' else [])"
| "EncodeToString e (x # y # z # bs) = digits e (sextets (uint x) (uint y) (uint z)) @ EncodeToString e bs"

fun indexFrom :: "int \<Rightarrow> char \<Rightarrow> string \<Rightarrow> int option" where
  "indexFrom i c [] = None"
| "indexFrom i c (d # ds) = (if c = d then Some i else indexFrom (i + 1) c ds)"

definition digitValue :: "encoding \<Rightarrow> char \<Rightarrow> int option" where
  "digitValue e c = indexFrom 0 c (alphabet e)"

text \<open>The values of all characters, or \<open>None\<close> when one is not in the alphabet.\<close>

fun digitValues :: "encoding \<Rightarrow> string \<Rightarrow> int list option" where
  "digitValues e [] = Some []"
| "digitValues e (c # cs) =
     (case digitValue e c of None \<Rightarrow> None | Some i \<Rightarrow> map_option (Cons i) (digitValues e cs))"

text \<open>A last group of two or three characters.\<close>

definition lastGroup :: "encoding \<Rightarrow> string \<Rightarrow> byte list option" where
  "lastGroup e s =
     (case digitValues e s of
        Some [a, b] \<Rightarrow> Some (take 1 (octets a b 0 0))
      | Some [a, b, c] \<Rightarrow> Some (take 2 (octets a b c 0))
      | _ \<Rightarrow> None)"

fun decodeGroups :: "encoding \<Rightarrow> string \<Rightarrow> byte list option" where
  "decodeGroups e (a # b # c # d # s) =
     (if padded e \<and> d = CHR ''='' then
        if s \<noteq> [] then None
        else if c = CHR ''='' then lastGroup e [a, b] else lastGroup e [a, b, c]
      else case digitValues e [a, b, c, d] of
             Some [i, j, k, l] \<Rightarrow> map_option (\<lambda>bs. octets i j k l @ bs) (decodeGroups e s)
           | _ \<Rightarrow> None)"
| "decodeGroups e [] = Some []"
| "decodeGroups e s = (if padded e then None else lastGroup e s)"

text \<open>The decoder ignores line breaks.\<close>

definition DecodeString :: "encoding \<Rightarrow> string \<Rightarrow> byte list option" where
  "DecodeString e s = decodeGroups e (filter (\<lambda>c. c \<noteq> CHR 0x0A \<and> c \<noteq> CHR 0x0D) s)"

section \<open>Keys and ciphertexts\<close>

text \<open>\<open>NewGCM(NewCipher(key))\<close>: sealing and opening under a key and a nonce.\<close>

record aead =
  gcm_Seal :: "byte list \<Rightarrow> byte list \<Rightarrow> byte list \<Rightarrow> byte list"
  gcm_Open :: "byte list \<Rightarrow> byte list \<Rightarrow> byte list \<Rightarrow> byte list option"

definition nonceSize :: nat where "nonceSize = 12"

definition aead_laws :: "aead \<Rightarrow> bool" where
  "aead_laws A \<longleftrightarrow> (\<forall>key nonce p. gcm_Open A key nonce (gcm_Seal A key nonce p) = Some p)"

datatype crypto_error =
    ErrKeyEmpty | ErrKeyDecode | ErrKeyLength nat | ErrCipher | ErrBase64 | ErrShort | ErrOpen
  | ErrSecretMasterKeyUnset | ErrScanType | ErrJson

text \<open>\<open>aes.NewCipher\<close> takes keys of 16, 24 and 32 bytes.\<close>

definition keyLengthOk :: "byte list \<Rightarrow> bool" where
  "keyLengthOk key = (length key \<in> {16, 24, 32})"

definition EncryptAES256GCM :: "aead \<Rightarrow> byte list \<Rightarrow> byte list \<Rightarrow> byte list \<Rightarrow> crypto_error + string" where
  "EncryptAES256GCM A nonce plaintext key =
     (if \<not> keyLengthOk key then Inl ErrCipher
      else Inr (EncodeToString StdEncoding (nonce @ gcm_Seal A key nonce plaintext)))"

definition DecryptAES256GCM :: "aead \<Rightarrow> string \<Rightarrow> byte list \<Rightarrow> crypto_error + byte list" where
  "DecryptAES256GCM A encoded key =
     (case DecodeString StdEncoding encoded of
        None \<Rightarrow> Inl ErrBase64
      | Some ciphertext \<Rightarrow>
          if \<not> keyLengthOk key then Inl ErrCipher
          else if length ciphertext < nonceSize then Inl ErrShort
          else case gcm_Open A key (take nonceSize ciphertext) (drop nonceSize ciphertext) of
                 None \<Rightarrow> Inl ErrOpen
               | Some plaintext \<Rightarrow> Inr plaintext)"

record master_key =
  mk_raw :: "byte list"

fun decodeLoop :: "encoding list \<Rightarrow> string \<Rightarrow> byte list option" where
  "decodeLoop [] s = None"
| "decodeLoop (e # es) s = (case DecodeString e s of Some b \<Rightarrow> Some b | None \<Rightarrow> decodeLoop es s)"

definition decodeAnyBase64 :: "string \<Rightarrow> byte list option" where
  "decodeAnyBase64 s = decodeLoop [StdEncoding, RawStdEncoding, URLEncoding, RawURLEncoding] s"

definition NewMasterKey :: "string \<Rightarrow> crypto_error + master_key" where
  "NewMasterKey b64 =
     (if b64 = [] then Inl ErrKeyEmpty
      else case decodeAnyBase64 b64 of
             None \<Rightarrow> Inl ErrKeyDecode
           | Some raw \<Rightarrow> if length raw \<noteq> 32 then Inl (ErrKeyLength (length raw)) else Inr \<lparr>mk_raw = raw\<rparr>)"

definition Encrypt :: "aead \<Rightarrow> master_key \<Rightarrow> byte list \<Rightarrow> byte list \<Rightarrow> crypto_error + string" where
  "Encrypt A k nonce plaintext = EncryptAES256GCM A nonce plaintext (mk_raw k)"

definition Decrypt :: "aead \<Rightarrow> master_key \<Rightarrow> string \<Rightarrow> crypto_error + byte list" where
  "Decrypt A k encoded = DecryptAES256GCM A encoded (mk_raw k)"

section \<open>Secrets\<close>

definition MaskedSecret :: string where "MaskedSecret = ''********''"

definition bytesOf :: "string \<Rightarrow> byte list" where "bytesOf = map of_char"
definition stringOf :: "byte list \<Rightarrow> string" where "stringOf = map (\<lambda>w. char_of (unat w))"

record secret =
  sec_plaintext :: string
  sec_set :: bool

definition zeroSecret :: secret where "zeroSecret = \<lparr>sec_plaintext = [], sec_set = False\<rparr>"

definition NewSecret :: "string \<Rightarrow> secret" where
  "NewSecret plaintext = (if plaintext = [] then zeroSecret else \<lparr>sec_plaintext = plaintext, sec_set = True\<rparr>)"

definition IsZero :: "secret \<Rightarrow> bool" where
  "IsZero s = (\<not> sec_set s \<or> sec_plaintext s = [])"

definition Reveal :: "secret \<Rightarrow> string" where "Reveal s = sec_plaintext s"

definition secretString :: "secret \<Rightarrow> string" where
  "secretString s = (if IsZero s then [] else MaskedSecret)"

definition GoString :: "secret \<Rightarrow> string" where
  "GoString s = (if IsZero s then ''crypto.Secret{}'' else ''crypto.Secret{'' @ MaskedSecret @ ''}'')"

text \<open>The process-wide key is \<open>None\<close> before \<open>SetSecretMasterKey\<close>.\<close>

definition loadSecretMasterKey :: "master_key option \<Rightarrow> crypto_error + master_key" where
  "loadSecretMasterKey mk = (case mk of None \<Rightarrow> Inl ErrSecretMasterKeyUnset | Some k \<Rightarrow> Inr k)"

text \<open>What a database column holds.\<close>

datatype driver_value = DNull | DString string | DBytes "byte list" | DOther

definition Value :: "aead \<Rightarrow> master_key option \<Rightarrow> byte list \<Rightarrow> secret \<Rightarrow> crypto_error + driver_value" where
  "Value A mk nonce s =
     (if IsZero s then Inr DNull
      else bindE (loadSecretMasterKey mk) (\<lambda>k. bindE (Encrypt A k nonce (bytesOf (sec_plaintext s))) (\<lambda>c. Inr (DString c))))"

definition scanText :: "aead \<Rightarrow> master_key option \<Rightarrow> string \<Rightarrow> crypto_error + secret" where
  "scanText A mk ciphertext =
     (if ciphertext = [] then Inr zeroSecret
      else bindE (loadSecretMasterKey mk) (\<lambda>k. bindE (Decrypt A k ciphertext) (\<lambda>p. Inr \<lparr>sec_plaintext = stringOf p, sec_set = True\<rparr>)))"

definition Scan :: "aead \<Rightarrow> master_key option \<Rightarrow> driver_value \<Rightarrow> crypto_error + secret" where
  "Scan A mk src =
     (case src of
        DNull \<Rightarrow> Inr zeroSecret
      | DString v \<Rightarrow> scanText A mk v
      | DBytes v \<Rightarrow> scanText A mk (stringOf v)
      | DOther \<Rightarrow> Inl ErrScanType)"

definition MarshalJSON :: "secret \<Rightarrow> string json" where
  "MarshalJSON s = Json (if IsZero s then [] else MaskedSecret)"

definition UnmarshalJSON :: "string json \<Rightarrow> crypto_error + secret" where
  "UnmarshalJSON data =
     (case Unmarshal data of
        None \<Rightarrow> Inl ErrJson
      | Some plaintext \<Rightarrow>
          if plaintext = [] \<or> plaintext = MaskedSecret then Inr zeroSecret
          else Inr \<lparr>sec_plaintext = plaintext, sec_set = True\<rparr>)"

section \<open>Passwords and identifiers\<close>

record bcrypt_lib =
  bc_Generate :: "string \<Rightarrow> nat \<Rightarrow> crypto_error + string"
  bc_Compare :: "string \<Rightarrow> string \<Rightarrow> bool"

definition NoLocalPasswordPrefix :: string where "NoLocalPasswordPrefix = ''$2a$10$NO_LOCAL_PASSWORD_''"
definition passwordBcryptCost :: nat where "passwordBcryptCost = 12"

definition HasUsablePassword :: "string \<Rightarrow> bool" where
  "HasUsablePassword hash = (hash \<noteq> [] \<and> \<not> HasPrefix hash NoLocalPasswordPrefix)"

definition HashPassword :: "bcrypt_lib \<Rightarrow> string \<Rightarrow> crypto_error + string" where
  "HashPassword bc password = bc_Generate bc password passwordBcryptCost"

definition CheckPassword :: "bcrypt_lib \<Rightarrow> string \<Rightarrow> string \<Rightarrow> bool" where
  "CheckPassword bc password hash = bc_Compare bc hash password"

definition base62Alphabet :: string where
  "base62Alphabet = ''0123456789ABCDEFGHIJKLMNOPQRSTUVWXYZabcdefghijklmnopqrstuvwxyz''"

text \<open>\<open>rnd i\<close> is the \<open>i\<close>-th answer of \<open>rand.Int\<close>, \<open>None\<close> an error; it is below the bound the code passes.\<close>

fun base62From :: "(nat \<Rightarrow> nat option) \<Rightarrow> nat \<Rightarrow> nat \<Rightarrow> string option" where
  "base62From rnd i 0 = Some []"
| "base62From rnd i (Suc n) =
     (case rnd i of None \<Rightarrow> None | Some k \<Rightarrow> map_option (Cons (base62Alphabet ! k)) (base62From rnd (Suc i) n))"

definition GenerateBase62 :: "(nat \<Rightarrow> nat option) \<Rightarrow> int \<Rightarrow> string option" where
  "GenerateBase62 rnd len = (if len \<le> 0 then Some [] else base62From rnd 0 (nat len))"

definition GenerateClientID :: "(nat \<Rightarrow> nat option) \<Rightarrow> string option" where
  "GenerateClientID rnd = map_option (\<lambda>suffix. ''client_'' @ suffix) (GenerateBase62 rnd 22)"

text \<open>The hand-written encoder, on 32-bit words.\<close>

definition tableAt :: "nat \<Rightarrow> 32 word \<Rightarrow> char" where
  "tableAt k n = urlAlphabet ! unat (drop_bit k n AND 0x3F)"

fun base64URLNoPad :: "byte list \<Rightarrow> string" where
  "base64URLNoPad [] = []"
| "base64URLNoPad [x] = (let n = push_bit 16 (ucast x) in [tableAt 18 n, tableAt 12 n])"
| "base64URLNoPad [x, y] =
     (let n = push_bit 16 (ucast x) OR push_bit 8 (ucast y) in [tableAt 18 n, tableAt 12 n, tableAt 6 n])"
| "base64URLNoPad (x # y # z # bs) =
     (let n = push_bit 16 (ucast x) OR push_bit 8 (ucast y) OR ucast z
      in [tableAt 18 n, tableAt 12 n, tableAt 6 n, tableAt 0 n] @ base64URLNoPad bs)"

definition GenerateClientSecret :: "byte list option \<Rightarrow> string option" where
  "GenerateClientSecret rnd = map_option base64URLNoPad rnd"

definition GenerateRandomString :: "byte list option \<Rightarrow> string option" where
  "GenerateRandomString rnd = map_option (EncodeToString URLEncoding) rnd"

section \<open>Base64 round trips\<close>

definition commonDigits :: string where
  "commonDigits = ''ABCDEFGHIJKLMNOPQRSTUVWXYZabcdefghijklmnopqrstuvwxyz0123456789''"

lemma alphabets: "stdAlphabet = commonDigits @ ''+/''" "urlAlphabet = commonDigits @ ''-_''" "length commonDigits = 62"
  by (simp_all add: stdAlphabet_def urlAlphabet_def commonDigits_def)

lemma commonDigits_distinct: "distinct commonDigits"
  unfolding commonDigits_def by code_simp

lemma commonDigits_chars: "list_all (\<lambda>c. c \<notin> set commonDigits) [CHR ''+'', CHR ''/'', CHR ''-'', CHR ''_'', CHR ''='', CHR 0x0A, CHR 0x0D]"
  unfolding commonDigits_def by code_simp

lemma indexFrom_None: "c \<notin> set xs \<Longrightarrow> indexFrom k c xs = None"
  by (induction xs arbitrary: k) auto

lemma indexFrom_nth: "distinct xs \<Longrightarrow> i < length xs \<Longrightarrow> indexFrom k (xs ! i) xs = Some (k + int i)"
proof (induction xs arbitrary: k i)
  case (Cons x xs)
  then show ?case by (cases i) auto
qed simp

lemma alphabet_distinct: "distinct (alphabet e)" "length (alphabet e) = 64"
  using commonDigits_distinct commonDigits_chars by (auto simp: alphabet_def alphabets)

lemma digitValue_pad: "digitValue e CHR ''='' = None"
  using commonDigits_chars by (simp add: digitValue_def indexFrom_None alphabet_def alphabets)

lemma digit_facts:
  assumes "0 \<le> i" "i < 64"
  shows "digitValue e (alphabet e ! nat i) = Some i" "digitValue e' (alphabet e ! nat i) = Some j \<Longrightarrow> j = i"
    "alphabet e ! nat i \<noteq> CHR ''=''" "alphabet e ! nat i \<noteq> CHR 0x0A" "alphabet e ! nat i \<noteq> CHR 0x0D"
proof -
  have n: "nat i < length (alphabet e)" for e using assms alphabet_distinct by simp
  have val: "digitValue e (alphabet e ! nat i) = Some i" for e
    using indexFrom_nth [OF alphabet_distinct(1) n, of 0] assms by (simp add: digitValue_def)
  then show "digitValue e (alphabet e ! nat i) = Some i" .
  show "alphabet e ! nat i \<noteq> CHR ''=''" "alphabet e ! nat i \<noteq> CHR 0x0A" "alphabet e ! nat i \<noteq> CHR 0x0D"
    using nth_mem [OF n, of e] commonDigits_chars by (auto simp: alphabet_def alphabets split: if_splits)
  assume j: "digitValue e' (alphabet e ! nat i) = Some j"
  show "j = i"
  proof (cases "nat i < 62")
    case True
    then have "alphabet e ! nat i = alphabet e' ! nat i" by (simp add: alphabet_def alphabets nth_append)
    then show ?thesis using val [of e'] j by simp
  next
    case False
    then have "nat i = 62 \<or> nat i = 63" using assms by linarith
    then have c: "alphabet e ! nat i \<in> {CHR ''+'', CHR ''/'', CHR ''-'', CHR ''_''}" by (auto simp: alphabet_def alphabets nth_append)
    show ?thesis
    proof (cases "alphabet e' = alphabet e")
      case True
      then show ?thesis using val [of e] j by (simp add: digitValue_def)
    next
      case False
      then have "alphabet e ! nat i \<notin> set (alphabet e')" using c nth_mem [OF n, of e] commonDigits_chars
        by (auto simp: alphabet_def alphabets split: if_splits)
      then show ?thesis using j by (simp add: digitValue_def indexFrom_None)
    qed
  qed
qed

abbreviation sextet :: "int \<Rightarrow> bool" where "sextet i \<equiv> 0 \<le> i \<and> i < 64"

lemma digitValues_same: "list_all sextet is \<Longrightarrow> digitValues e (digits e is) = Some is"
  by (induction "is") (simp_all add: digits_def digit_facts)

lemma digitValues_other: "list_all sextet is \<Longrightarrow> digitValues e' (digits e is) = Some js \<Longrightarrow> js = is"
proof (induction "is" arbitrary: js)
  case Nil
  then show ?case by (simp add: digits_def)
next
  case (Cons i "is")
  then obtain j ks where j: "digitValue e' (alphabet e ! nat i) = Some j" "digitValues e' (digits e is) = Some ks" "js = j # ks"
    by (auto simp: digits_def split: option.splits)
  then show ?case using Cons digit_facts(2) [of i e' e j] by simp
qed

lemma byte_range: "0 \<le> uint (x :: byte)" "uint (x :: byte) < 256"
  using uint_range_size [of x] by (auto simp: word_size)

lemma sextets_range:
  assumes "0 \<le> x" "x < 256" "0 \<le> y" "y < 256" "0 \<le> z" "z < 256" shows "list_all sextet (sextets x y z)"
proof -
  have "0 \<le> x div 4" "x div 4 < 64" "0 \<le> y div 16" "y div 16 < 16" "0 \<le> z div 64" "z div 64 < 4" using assms by presburger+
  moreover have "0 \<le> x mod 4" "x mod 4 < 4" "0 \<le> y mod 16" "y mod 16 < 16" "0 \<le> z mod 64" "z mod 64 < 64" by simp_all
  ultimately have "0 \<le> (x mod 4) * 16 + y div 16" "(x mod 4) * 16 + y div 16 < 64" "0 \<le> (y mod 16) * 4 + z div 64" "(y mod 16) * 4 + z div 64 < 64"
    by linarith+
  then show ?thesis using \<open>0 \<le> x div 4\<close> \<open>x div 4 < 64\<close> by (simp add: sextets_def)
qed

lemma octets_sextets:
  assumes "0 \<le> x" "x < 256" "0 \<le> y" "y < 256" "0 \<le> z" "z < 256" and "sextets x y z = [a, b, c, d]"
  shows "octets a b c d = [word_of_int x, word_of_int y, word_of_int z]"
proof -
  have e: "a = x div 4" "b = (x mod 4) * 16 + y div 16" "c = (y mod 16) * 4 + z div 64" "d = z mod 64" using assms(7) by (simp_all add: sextets_def)
  have "0 \<le> y div 16" "y div 16 < 16" "0 \<le> z div 64" "z div 64 < 4" using assms by presburger+
  then have "b div 16 = x mod 4" "b mod 16 = y div 16" "c div 4 = y mod 16" "c mod 4 = z div 64" unfolding e(2,3) by simp_all
  then have "a * 4 + b div 16 = x" "b mod 16 * 16 + c div 4 = y" "c mod 4 * 64 + d = z"
    using div_mult_mod_eq [of x 4] div_mult_mod_eq [of y 16] div_mult_mod_eq [of z 64] unfolding e(1,4) by linarith+
  then show ?thesis by (simp only: octets_def)
qed

lemma list_all_take: "list_all P xs \<Longrightarrow> list_all P (take n xs)"
  by (auto simp: list_all_iff dest: in_set_takeD)

lemma sextets_list: "sextets x y z = [x div 4, (x mod 4) * 16 + y div 16, (y mod 16) * 4 + z div 64, z mod 64]"
  by (simp add: sextets_def)

text \<open>A decoder that accepts what an encoder wrote gives the bytes back, whatever variants the two are.\<close>

lemma decodeGroups_sound: "decodeGroups e' (EncodeToString e bs) = Some bs' \<Longrightarrow> bs' = bs"
proof (induction e bs arbitrary: bs' rule: EncodeToString.induct)
  case (1 e)
  then show ?case by simp
next
  case (2 e x)
  have r: "list_all sextet (take 2 (sextets (uint x) 0 0))" by (rule list_all_take, rule sextets_range) (simp_all add: byte_range)
  obtain c d where cd: "digits e (take 2 (sextets (uint x) 0 0)) = [c, d]" by (simp add: digits_def sextets_def)
  have lg: "bs' = [x]" if h: "lastGroup e' [c, d] = Some bs'"
  proof -
    obtain js where js: "digitValues e' [c, d] = Some js" using h by (auto simp: lastGroup_def split: option.splits)
    then have "js = take 2 (sextets (uint x) 0 0)" using digitValues_other [OF r, of e' e js] cd by simp
    then have "bs' = take 1 (octets (uint x div 4) (uint x mod 4 * 16) 0 0)" using h js by (simp add: lastGroup_def sextets_def)
    then show ?thesis using octets_sextets [of "uint x" 0 0 "uint x div 4" "uint x mod 4 * 16" 0 0] byte_range [of x] by (simp add: sextets_def)
  qed
  have "d \<noteq> CHR ''=''" using cd r digit_facts(3) by (auto simp: digits_def sextets_def)
  then show ?case using 2 cd lg by (auto simp: digitValue_pad split: if_splits option.splits)
next
  case (3 e x y)
  have r: "list_all sextet (take 3 (sextets (uint x) (uint y) 0))"
    by (rule list_all_take, rule sextets_range) (simp_all add: byte_range)
  obtain b c d where cd: "digits e (take 3 (sextets (uint x) (uint y) 0)) = [b, c, d]" by (simp add: digits_def sextets_def)
  have lg: "bs' = [x, y]" if h: "lastGroup e' [b, c, d] = Some bs'"
  proof -
    obtain js where js: "digitValues e' [b, c, d] = Some js" using h by (auto simp: lastGroup_def split: option.splits)
    then have "js = take 3 (sextets (uint x) (uint y) 0)" using digitValues_other [OF r, of e' e js] cd by simp
    then have "bs' = take 2 (octets (uint x div 4) (uint x mod 4 * 16 + uint y div 16) (uint y mod 16 * 4) 0)" using h js by (simp add: lastGroup_def sextets_def)
    then show ?thesis using octets_sextets [of "uint x" "uint y" 0 "uint x div 4" "uint x mod 4 * 16 + uint y div 16" "uint y mod 16 * 4" 0]
        byte_range [of x] byte_range [of y] by (simp add: sextets_def)
  qed
  have "d \<noteq> CHR ''=''" using cd r digit_facts(3) by (auto simp: digits_def sextets_def)
  then show ?case using 3 cd lg by (auto simp: digitValue_pad split: if_splits option.splits)
next
  case (4 e x y z bs)
  have r: "list_all sextet (sextets (uint x) (uint y) (uint z))"
    using sextets_range [of "uint x" "uint y" "uint z"] byte_range [of x] byte_range [of y] byte_range [of z] by simp
  obtain a b c d where cd: "digits e (sextets (uint x) (uint y) (uint z)) = [a, b, c, d]" by (simp add: digits_def sextets_def)
  have "d \<noteq> CHR ''=''" using cd r digit_facts(3) by (auto simp: digits_def sextets_def)
  then obtain js bs1 where js: "digitValues e' [a, b, c, d] = Some js" "decodeGroups e' (EncodeToString e bs) = Some bs1"
    "bs' = (case js of [i, j, k, l] \<Rightarrow> octets i j k l @ bs1)" using "4.prems" cd by (auto split: option.splits list.splits)
  have "js = sextets (uint x) (uint y) (uint z)" using digitValues_other [OF r, of e' e js] cd js(1) by simp
  then show ?case using js(3) "4.IH" [OF js(2)] octets_sextets [of "uint x" "uint y" "uint z", OF _ _ _ _ _ _ sextets_list] byte_range
    by (simp add: sextets_def)
qed

lemma decodeGroups_complete: "\<exists>bs'. decodeGroups e (EncodeToString e bs) = Some bs'"
proof (induction e bs rule: EncodeToString.induct)
  case (1 e)
  then show ?case by simp
next
  case (2 e x)
  have r: "list_all sextet (take 2 (sextets (uint x) 0 0))" by (rule list_all_take, rule sextets_range) (simp_all add: byte_range)
  obtain c d where cd: "digits e (take 2 (sextets (uint x) 0 0)) = [c, d]" by (simp add: digits_def sextets_def)
  then have "digitValues e [c, d] = Some (take 2 (sextets (uint x) 0 0))" using digitValues_same [OF r, of e] by simp
  then have "\<exists>b. lastGroup e [c, d] = Some b" unfolding lastGroup_def by (simp add: sextets_def)
  then show ?case by (simp add: cd)
next
  case (3 e x y)
  have r: "list_all sextet (take 3 (sextets (uint x) (uint y) 0))" by (rule list_all_take, rule sextets_range) (simp_all add: byte_range)
  obtain b c d where cd: "digits e (take 3 (sextets (uint x) (uint y) 0)) = [b, c, d]" by (simp add: digits_def sextets_def)
  then have "digitValues e [b, c, d] = Some (take 3 (sextets (uint x) (uint y) 0))" using digitValues_same [OF r, of e] by simp
  then have "\<exists>b'. lastGroup e [b, c, d] = Some b'" unfolding lastGroup_def by (simp add: sextets_def)
  moreover have "d \<noteq> CHR ''=''" using cd r digit_facts(3) by (auto simp: digits_def sextets_def)
  ultimately show ?case by (simp add: cd)
next
  case (4 e x y z bs)
  have r: "list_all sextet (sextets (uint x) (uint y) (uint z))" by (rule sextets_range) (simp_all add: byte_range)
  obtain a b c d where cd: "digits e (sextets (uint x) (uint y) (uint z)) = [a, b, c, d]" by (simp add: digits_def sextets_def)
  then have v: "digitValues e [a, b, c, d] = Some (sextets (uint x) (uint y) (uint z))" using digitValues_same [OF r, of e] by simp
  have "d \<noteq> CHR ''=''" using cd r digit_facts(3) by (auto simp: digits_def sextets_def)
  then have "decodeGroups e (EncodeToString e (x # y # z # bs)) =
      (case digitValues e [a, b, c, d] of Some [i, j, k, l] \<Rightarrow> map_option (\<lambda>bs. octets i j k l @ bs) (decodeGroups e (EncodeToString e bs)) | _ \<Rightarrow> None)"
    by (simp add: cd)
  then show ?case using 4 unfolding v by (auto simp: sextets_def)
qed

lemma digits_no_break:
  assumes "list_all sextet is" shows "filter (\<lambda>c. c \<noteq> CHR 0x0A \<and> c \<noteq> CHR 0x0D) (digits e is) = digits e is"
  using assms by (auto simp: digits_def filter_id_conv list_all_iff digit_facts)

lemma EncodeToString_no_break: "filter (\<lambda>c. c \<noteq> CHR 0x0A \<and> c \<noteq> CHR 0x0D) (EncodeToString e bs) = EncodeToString e bs"
proof (induction e bs rule: EncodeToString.induct)
  case (2 e x)
  have "list_all sextet (take 2 (sextets (uint x) 0 0))" by (rule list_all_take, rule sextets_range) (simp_all add: byte_range)
  then show ?case by (simp add: digits_no_break)
next
  case (3 e x y)
  have "list_all sextet (take 3 (sextets (uint x) (uint y) 0))" by (rule list_all_take, rule sextets_range) (simp_all add: byte_range)
  then show ?case by (simp add: digits_no_break)
next
  case (4 e x y z bs)
  have "list_all sextet (sextets (uint x) (uint y) (uint z))" by (rule sextets_range) (simp_all add: byte_range)
  then show ?case using 4 by (simp add: digits_no_break)
qed simp

lemma DecodeString_EncodeToString: "DecodeString e (EncodeToString e bs) = Some bs"
  using decodeGroups_complete [of e bs] decodeGroups_sound [of e e bs] by (auto simp: DecodeString_def EncodeToString_no_break)

lemma DecodeString_other: "DecodeString e' (EncodeToString e bs) = Some bs' \<Longrightarrow> bs' = bs"
  by (simp add: DecodeString_def EncodeToString_no_break decodeGroups_sound)

lemma decodeLoop_encoded: "e \<in> set es \<Longrightarrow> decodeLoop es (EncodeToString e bs) = Some bs"
  by (induction es) (auto simp: DecodeString_EncodeToString dest: DecodeString_other split: option.splits)

text \<open>A key pasted in any of the four variants is read as the same key.\<close>

lemma NewMasterKey_any_encoding:
  assumes "length raw = 32" shows "NewMasterKey (EncodeToString e raw) = Inr \<lparr>mk_raw = raw\<rparr>"
proof -
  have "decodeAnyBase64 (EncodeToString e raw) = Some raw"
    unfolding decodeAnyBase64_def by (rule decodeLoop_encoded) (cases e; simp)
  moreover have "EncodeToString e raw \<noteq> []"
  proof
    assume "EncodeToString e raw = []"
    then have "DecodeString e [] = Some raw" using DecodeString_EncodeToString [of e raw] by simp
    then show False using assms by (simp add: DecodeString_def)
  qed
  ultimately show ?thesis using assms by (simp add: NewMasterKey_def)
qed

section \<open>Secrets survive storage\<close>

lemma Decrypt_Encrypt:
  assumes "aead_laws A" and "length nonce = nonceSize" and "Encrypt A k nonce p = Inr c"
  shows "Decrypt A k c = Inr p"
  using assms by (auto simp: Encrypt_def Decrypt_def EncryptAES256GCM_def DecryptAES256GCM_def DecodeString_EncodeToString aead_laws_def split: if_splits)

lemma stringOf_bytesOf: "stringOf (bytesOf s) = s"
proof -
  have "unat (of_char c :: byte) = of_char c" for c
  proof -
    have "unat (of_char c :: byte) = unat (of_nat (of_char c) :: byte)" by (simp only: of_nat_of_char)
    then show ?thesis by (simp add: unat_of_nat)
  qed
  then show ?thesis by (simp add: stringOf_def bytesOf_def map_idI)
qed

text \<open>
  C39: A secret survives the database: with the master key given in any of the four base64 variants, what \<open>Value\<close>
  writes for a secret under any nonce, \<open>Scan\<close> reads back as the same secret, the empty one as NULL; what
  \<open>MarshalJSON\<close> shows is the mask, and reading it back changes nothing into a secret.
\<close>

theorem secret_round_trip:
  assumes "aead_laws A" and "length raw = 32" and "length nonce = nonceSize"
  shows "\<exists>k v. NewMasterKey (EncodeToString e raw) = Inr k \<and> Value A (Some k) nonce (NewSecret p) = Inr v \<and>
    Scan A (Some k) v = Inr (NewSecret p) \<and> (v = DNull \<longleftrightarrow> p = []) \<and> UnmarshalJSON (MarshalJSON (NewSecret p)) = Inr zeroSecret"
proof -
  let ?k = "\<lparr>mk_raw = raw\<rparr>"
  have json: "UnmarshalJSON (MarshalJSON (NewSecret p)) = Inr zeroSecret" by (simp add: UnmarshalJSON_def MarshalJSON_def)
  have k: "NewMasterKey (EncodeToString e raw) = Inr ?k" by (rule NewMasterKey_any_encoding [OF assms(2)])
  show ?thesis
  proof (cases "p = []")
    case True
    then show ?thesis using k json by (intro exI [of _ ?k] exI [of _ DNull]) (simp add: NewSecret_def Value_def IsZero_def zeroSecret_def Scan_def)
  next
    case False
    then have s: "NewSecret p = \<lparr>sec_plaintext = p, sec_set = True\<rparr>" by (simp add: NewSecret_def)
    obtain c where c: "Encrypt A ?k nonce (bytesOf p) = Inr c" using assms(2) by (simp add: Encrypt_def EncryptAES256GCM_def keyLengthOk_def)
    have d: "Decrypt A ?k c = Inr (bytesOf p)" by (rule Decrypt_Encrypt [OF assms(1,3) c])
    have "c \<noteq> []"
    proof
      assume "c = []"
      then have "Decrypt A ?k c = Inl ErrShort" using assms(2) by (simp add: Decrypt_def DecryptAES256GCM_def DecodeString_def keyLengthOk_def nonceSize_def)
      then show False using d by simp
    qed
    then have "Scan A (Some ?k) (DString c) = Inr (NewSecret p)" using d s by (simp add: Scan_def scanText_def loadSecretMasterKey_def stringOf_bytesOf)
    moreover have "Value A (Some ?k) nonce (NewSecret p) = Inr (DString c)" using c s False by (simp add: Value_def IsZero_def loadSecretMasterKey_def)
    ultimately show ?thesis using k json False by blast
  qed
qed

definition demo_aead :: aead where
  "demo_aead = \<lparr>gcm_Seal = (\<lambda>key nonce p. map (\<lambda>b. b + hd key) p), gcm_Open = (\<lambda>key nonce c. Some (map (\<lambda>b. b - hd key) c))\<rparr>"

theorem secret_round_trip_witness:
  "\<exists>k v. NewMasterKey (EncodeToString RawURLEncoding (replicate 32 7)) = Inr k \<and>
    Value demo_aead (Some k) (replicate 12 1) (NewSecret ''hunter2'') = Inr v \<and> Scan demo_aead (Some k) v = Inr (NewSecret ''hunter2'')"
proof -
  have "aead_laws demo_aead" by (simp add: aead_laws_def demo_aead_def comp_def)
  then show ?thesis
    using secret_round_trip [of demo_aead "replicate 32 7" "replicate 12 1" RawURLEncoding "''hunter2''"] by (auto simp: nonceSize_def)
qed

section \<open>The hand-written encoder\<close>

lemma tableAt_value:
  "tableAt k n = urlAlphabet ! nat (uint n div 2 ^ k mod 64)"
proof -
  have "take_bit 32 (uint n) = uint n" by (rule take_bit_int_eq_self) (use uint_range_size [of n] in \<open>simp_all add: word_size\<close>)
  then have "uint (drop_bit k n) = drop_bit k (uint n)" by (simp only: unsigned_drop_bit_eq) simp
  then have "uint (drop_bit k n AND 0x3F) = drop_bit k (uint n) AND 63" by (simp only: unsigned_and_eq) simp
  also have "\<dots> = take_bit 6 (drop_bit k (uint n))" by (simp add: take_bit_eq_mask mask_eq_exp_minus_1)
  finally have "uint (drop_bit k n AND 0x3F) = take_bit 6 (drop_bit k (uint n))" .
  then have "unat (drop_bit k n AND 0x3F) = nat (uint n div 2 ^ k mod 64)"
    by (simp add: unat_eq_nat_uint take_bit_eq_mod drop_bit_eq_div)
  then show ?thesis by (simp add: tableAt_def)
qed

lemma group_value:
  fixes x y z :: byte
  shows "uint (push_bit 16 (ucast x) OR push_bit 8 (ucast y) OR ucast z :: 32 word) = uint x * 2 ^ 16 + uint y * 2 ^ 8 + uint z"
proof -
  have r: "0 \<le> uint x" "uint x < 256" "0 \<le> uint y" "uint y < 256" "0 \<le> uint z" "uint z < 256" by (simp_all add: byte_range)
  have t: "take_bit 32 i = i" if "0 \<le> i" "i < 2 ^ 32" for i :: int using that by (simp add: take_bit_int_eq_self)
  have "uint (push_bit 16 (ucast x) OR push_bit 8 (ucast y) OR ucast z :: 32 word) = push_bit 16 (uint x) OR (push_bit 8 (uint y) OR uint z)"
  proof -
    have u: "uint (ucast b :: 32 word) = uint b" for b :: byte
      using t [of "uint b"] byte_range [of b] by (simp only: unsigned_ucast_eq) simp
    have "uint (push_bit 16 (ucast x :: 32 word)) = push_bit 16 (uint x)" "uint (push_bit 8 (ucast y :: 32 word)) = push_bit 8 (uint y)"
      using r t [of "push_bit 16 (uint x)"] t [of "push_bit 8 (uint y)"] by (simp_all only: unsigned_push_bit_eq u) (simp_all add: push_bit_eq_mult)
    then show ?thesis by (simp only: unsigned_or_eq u or.assoc)
  qed
  also have "push_bit 8 (uint y) OR uint z = uint y * 2 ^ 8 + uint z" by (rule or_disjoint) (use r in simp_all)
  also have "push_bit 16 (uint x) OR (uint y * 2 ^ 8 + uint z) = uint x * 2 ^ 16 + (uint y * 2 ^ 8 + uint z)"
    by (rule or_disjoint) (use r in simp_all)
  finally show ?thesis by simp
qed

lemma group_parts:
  fixes a b c d e f :: int
  assumes "0 \<le> a" "a < 64" "0 \<le> b" "b < 4" "0 \<le> c" "c < 16" "0 \<le> d" "d < 16" "0 \<le> e" "e < 4" "0 \<le> f" "f < 64"
    and n: "n = a * 262144 + b * 65536 + c * 4096 + d * 256 + e * 64 + f"
  shows "n div 262144 mod 64 = a" "n div 4096 mod 64 = b * 16 + c" "n div 64 mod 64 = d * 4 + e" "n mod 64 = f"
proof -
  have "n div 262144 = a" by (rule int_div_pos_eq [where r = "b * 65536 + c * 4096 + d * 256 + e * 64 + f"]) (use assms in simp_all)
  then show "n div 262144 mod 64 = a" using assms by simp
  have "n div 4096 = a * 64 + b * 16 + c" by (rule int_div_pos_eq [where r = "d * 256 + e * 64 + f"]) (use assms in simp_all)
  moreover have "(a * 64 + b * 16 + c) mod 64 = b * 16 + c" by (rule int_mod_pos_eq [where q = a]) (use assms in simp_all)
  ultimately show "n div 4096 mod 64 = b * 16 + c" by simp
  have "n div 64 = a * 4096 + b * 1024 + c * 64 + d * 4 + e" by (rule int_div_pos_eq [where r = f]) (use assms in simp_all)
  moreover have "(a * 4096 + b * 1024 + c * 64 + d * 4 + e) mod 64 = d * 4 + e"
    by (rule int_mod_pos_eq [where q = "a * 64 + b * 16 + c"]) (use assms in simp_all)
  ultimately show "n div 64 mod 64 = d * 4 + e" by simp
  show "n mod 64 = f" by (rule int_mod_pos_eq [where q = "a * 4096 + b * 1024 + c * 64 + d * 4 + e"]) (use assms in simp_all)
qed

lemma group_sextets:
  fixes x y z :: int
  assumes "0 \<le> x" "x < 256" "0 \<le> y" "y < 256" "0 \<le> z" "z < 256" and "n = x * 65536 + y * 256 + z"
  shows "n div 262144 mod 64 = x div 4" "n div 4096 mod 64 = (x mod 4) * 16 + y div 16"
    "n div 64 mod 64 = (y mod 16) * 4 + z div 64" "n mod 64 = z mod 64"
proof -
  have q: "0 \<le> x div 4" "x div 4 < 64" "0 \<le> y div 16" "y div 16 < 16" "0 \<le> z div 64" "z div 64 < 4" using assms(1-6) by presburger+
  have "n = (x div 4 * 4 + x mod 4) * 65536 + (y div 16 * 16 + y mod 16) * 256 + (z div 64 * 64 + z mod 64)" using assms(7) by simp
  then have n: "n = x div 4 * 262144 + x mod 4 * 65536 + y div 16 * 4096 + y mod 16 * 256 + z div 64 * 64 + z mod 64"
    by (simp only: distrib_right mult.assoc)
  note p = group_parts [OF q(1,2) _ _ q(3,4) _ _ q(5,6) _ _ n]
  show "n div 262144 mod 64 = x div 4" "n div 4096 mod 64 = (x mod 4) * 16 + y div 16"
    "n div 64 mod 64 = (y mod 16) * 4 + z div 64" "n mod 64 = z mod 64" by (rule p; simp)+
qed

lemma base64URLNoPad_digits:
  fixes x y z :: byte and n :: "32 word"
  assumes "uint n = uint x * 2 ^ 16 + uint y * 2 ^ 8 + uint z"
  shows "[tableAt 18 n, tableAt 12 n, tableAt 6 n, tableAt 0 n] = digits RawURLEncoding (sextets (uint x) (uint y) (uint z))"
proof -
  have n: "uint n = uint x * 65536 + uint y * 256 + uint z" using assms by simp
  note g = group_sextets [OF byte_range byte_range byte_range n]
  have pow: "(2 :: int) ^ 18 = 262144" "(2 :: int) ^ 12 = 4096" "(2 :: int) ^ 6 = 64" "i div (2 :: int) ^ 0 = i" for i by simp_all
  have "tableAt 18 n = urlAlphabet ! nat (uint x div 4)" "tableAt 12 n = urlAlphabet ! nat (uint x mod 4 * 16 + uint y div 16)"
    "tableAt 6 n = urlAlphabet ! nat (uint y mod 16 * 4 + uint z div 64)" "tableAt 0 n = urlAlphabet ! nat (uint z mod 64)"
    using tableAt_value [of 18 n] tableAt_value [of 12 n] tableAt_value [of 6 n] tableAt_value [of 0 n]
    by (simp_all only: pow g)
  then show ?thesis by (simp only: digits_def sextets_def alphabet_def list.map encoding.simps if_False simp_thms)
qed

text \<open>The encoder of client secrets is the unpadded URL encoding of the library.\<close>

lemma base64URLNoPad_RawURL: "base64URLNoPad bs = EncodeToString RawURLEncoding bs"
proof (induction bs rule: base64URLNoPad.induct)
  case (2 x)
  have n: "push_bit 16 (ucast x) OR push_bit 8 (ucast (0 :: byte)) OR ucast (0 :: byte) = (push_bit 16 (ucast x) :: 32 word)" by simp
  have z: "uint (0 :: byte) = 0" by simp
  have "take 2 [tableAt 18 (push_bit 16 (ucast x)), tableAt 12 (push_bit 16 (ucast x)), tableAt 6 (push_bit 16 (ucast x)), tableAt 0 (push_bit 16 (ucast x))] =
      take 2 (digits RawURLEncoding (sextets (uint x) 0 0))"
    using base64URLNoPad_digits [OF group_value [of x 0 0]] unfolding n z by (rule arg_cong)
  then show ?case by (simp add: Let_def take_map digits_def padded_def)
next
  case (3 x y)
  have n: "push_bit 16 (ucast x) OR push_bit 8 (ucast y) OR ucast (0 :: byte) = (push_bit 16 (ucast x) OR push_bit 8 (ucast y) :: 32 word)" by simp
  have z: "uint (0 :: byte) = 0" by simp
  let ?n = "push_bit 16 (ucast x) OR push_bit 8 (ucast y) :: 32 word"
  have "take 3 [tableAt 18 ?n, tableAt 12 ?n, tableAt 6 ?n, tableAt 0 ?n] = take 3 (digits RawURLEncoding (sextets (uint x) (uint y) 0))"
    using base64URLNoPad_digits [OF group_value [of x y 0]] unfolding n z by (rule arg_cong)
  then show ?case by (simp add: Let_def take_map digits_def padded_def)
next
  case (4 x y z bs)
  show ?case
    unfolding base64URLNoPad.simps EncodeToString.simps Let_def base64URLNoPad_digits [OF group_value [of x y z]] using 4 by simp
qed simp

lemma GenerateBase62_shape:
  assumes "GenerateBase62 rnd len = Some s" and "\<And>i k. rnd i = Some k \<Longrightarrow> k < 62"
  shows "int (length s) = max 0 len \<and> set s \<subseteq> set base62Alphabet"
proof -
  have l: "length base62Alphabet = 62" by (simp add: base62Alphabet_def)
  have "length s = n \<and> set s \<subseteq> set base62Alphabet" if "base62From rnd i n = Some s" for i n s
    using that
  proof (induction n arbitrary: i s)
    case (Suc n)
    then obtain k t where "rnd i = Some k" "base62From rnd (Suc i) n = Some t" "s = base62Alphabet ! k # t" by (auto split: option.splits)
    then show ?case using Suc.IH [of "Suc i" t] assms(2) [of i k] l by simp
  qed simp
  then show ?thesis using assms(1) by (auto simp: GenerateBase62_def split: if_splits)
qed

end
