(* ===== verification/Spec2Isabelle.thy ===== *)
theory Spec2Isabelle
  imports OrgTree AuthzBindings AuthzCache Gateway AccessGrants AuditSystem SessionSpec WebChain Snowflake GroupProofs Secrets
begin

text \<open>
  A verification development of MXID, a multi-tenant identity and access management server written in Go.

  \<^bold>\<open>The program.\<close> A browser or an API client reaches the console and portal routes through a chain of
  middlewares (\<open>internal/middleware\<close>, \<open>internal/domain/authn\<close>): the session behind the cookie is read from
  Redis (\<open>pkg/session\<close>), the tenant of the request is pinned (\<open>pkg/tenantscope\<close>), open obligations
  (enrolment, password change) and step-up are enforced, and the permission gateway (\<open>pkg/authz\<close>) asks the
  decision engine whether the caller holds the permission the route declares. The engine reads role bindings
  through a two-level cache in front of the database (\<open>app/adapters_authz.go\<close>) and the permissions of a role
  from an in-process Casbin enforcer or from the binding. Bindings are held directly, through groups
  (\<open>internal/domain/group\<close>, whose members a rule may compute), through the organization tree
  (\<open>internal/domain/org\<close>) or for a limited time after an approval (\<open>internal/domain/access\<close>). Every event is
  captured into a hash-chained, signed and exportable audit ledger (\<open>internal/domain/audit\<close>). Identifiers come
  from \<open>pkg/snowflake\<close>, secrets are encrypted at the database boundary by \<open>pkg/crypto\<close>.

  \<^bold>\<open>How the code is modelled.\<close> A Go struct is a record with a prefix for its fields, a fallible call returns
  \<open>'e + 'a\<close> with \<open>Inl\<close> the error, a database table is the list of its rows, soft deletion included, and an
  operation takes the state and returns it. A database call can fail at any point: operations take a table of
  faults, and the theorems hold for every table. Clock readings and fresh identifiers are arguments.
  Concurrency is a step relation whose steps are the single statements between which other requests may run.
  Code outside the repository is a record of functions with its documented laws as a predicate
  (\<open>redis_laws\<close>, \<open>casbin_rbac\<close>, \<open>crypto_laws\<close>, \<open>aead\<close> and \<open>bcrypt\<close> in \<open>Secrets\<close>); every predicate has a
  concrete instance in the theory that uses it, which the witnesses evaluate.

  \<^bold>\<open>Theories.\<close>
  \<^item> \<open>Prelude\<close>: machine types, results, Go string functions, decimal numerals. \<open>Redis\<close>: the server as a
    parameter and its laws. \<open>Sql\<close>: \<open>LIKE\<close>, \<open>ltree\<close> and \<open>pkg/dberr\<close>.
  \<^item> \<open>Casbin\<close>, \<open>Authz\<close>: \<open>pkg/authz/{casbin,types,service}.go\<close>. \<open>Check\<close> allows exactly when an unexpired
    binding grants the permission and covers the target; a rebuilt enforcer answers like the permission set of
    the role, an atomic swap included.
  \<^item> \<open>TenantScope\<close>: the GORM plugin of \<open>pkg/tenantscope\<close>; under a pinned tenant no statement touches a foreign
    row, without a scope a statement on a scoped model is an error.
  \<^item> \<open>Org\<close>, \<open>OrgTree\<close>: the organization tree. Requests keep paths and parents consistent, the path prefix test
    is the parent chain (locale \<open>org_ancestry\<close>), a move moves exactly a subtree when no code contains an
    underscore, and what happens when one does.
  \<^item> \<open>Gateway\<close>, \<open>AuthzBindings\<close>, \<open>AuthzCache\<close>: route registry and permission middleware, tenant override, the
    binding provider, the policy loader and the cache with its bounded staleness under every interleaving of
    pods.
  \<^item> \<open>Access\<close>, \<open>AccessProofs\<close>, \<open>AccessGrants\<close>: just-in-time access, from eligibility to the sweeper, as an
    interleaving of requests; approvals, bounds of grants, expiry.
  \<^item> \<open>AuditChain\<close>, \<open>AuditChainProofs\<close>, \<open>AuditAnchor\<close>, \<open>AuditAnchorProofs\<close>, \<open>AuditCheckpoint\<close>,
    \<open>AuditSystem\<close>: the ledger. Chaining, Merkle anchors, signatures, checkpoints, pruning, export and
    \<open>verify-audit\<close>; the ledger the server writes verifies, and a verified ledger determines its history up to a
    collision.
  \<^item> \<open>Session\<close>, \<open>SessionRun\<close>, \<open>SessionSpec\<close>, \<open>WebChain\<close>: the session manager over Redis, its refinement of a
    plain map (locales \<open>session_server\<close>, \<open>live_server\<close>), and the request chain of console and portal.
  \<^item> \<open>GroupRule\<close>, \<open>Group\<close>, \<open>GroupProofs\<close>: the rule language with its compilation to SQL and the meaning of that
    SQL, the group repository and service, the synchronisation of dynamic groups.
  \<^item> \<open>Snowflake\<close>: the identifier generator on 64-bit words. \<open>Secrets\<close>: base64, master key, AES-GCM columns,
    masking, client credentials.

  \<^bold>\<open>Bounds and termination.\<close> Every definition is total. Loops that read pages (\<open>verifyLoop\<close>, \<open>leavesLoop\<close>)
  recurse on the rows that remain, with a measure; replies of \<open>SCAN\<close> are a list of pages, since the server ends
  the iteration. The wait loop of the identifier generator may not end when the clock stops; it is a
  \<open>partial_function\<close> whose \<open>None\<close> is not returning, and the property on it proves that it returns for a clock
  that moves. There is no fuel. Identifiers and instants are \<open>int\<close>, since the code only compares and adds
  them; where a width matters (identifier generator, durations of grants, JSON numbers of rules, binary
  encodings of the ledger) it is written out.

  \<^bold>\<open>Properties and findings.\<close> Each property stands after a text block with its number; the others are lemmas the
  properties rest on. Some properties state what the code does where a comment, a document or the neighbouring
  code promises something else: an unescaped \<open>LIKE\<close> in \<open>Move\<close>, an event for a foreign organization, a denied
  tenant override, a stale refill during \<open>InvalidateAll\<close>, a rejection that overtakes an approval, a permanent
  binding replaced by a temporary one, a tail of the ledger that can be cut, a revoked session that returns.

  \<^bold>\<open>Not modelled.\<close> HTTP handlers whose work is decoding the body, calling one service operation and encoding the
  answer; list views that join display names; logging, metrics and translation of messages. The components
  below have no model, for the reason given.
  \<^item> Wiring and configuration (\<open>app/run.go\<close>, \<open>internal/bootstrap\<close>, \<open>cmd\<close>, \<open>pkg/ee\<close>, \<open>pkg/updatecheck\<close>,
    \<open>pkg/version\<close>): construction of objects and calls of the libraries; of \<open>run.go\<close> the order of the
    middlewares is used in \<open>WebChain\<close>.
  \<^item> Protocol front ends (\<open>internal/protocol/oidcop\<close>, \<open>saml\<close>, \<open>oidclogout\<close>): adapters to the third-party
    libraries \<open>zitadel/oidc\<close> and \<open>crewjam/saml\<close>, which hold the protocol logic.
  \<^item> User, application, permission and tenant administration (\<open>internal/domain/user\<close>, \<open>app\<close>, \<open>permission\<close>,
    \<open>approle\<close>, \<open>appaccess\<close>, \<open>tenant\<close>, \<open>setting\<close>, \<open>platformconfig\<close>, \<open>dashboard\<close>): record keeping over one
    table each; the tables other components read are part of their state.
  \<^item> Delivery to the outside (\<open>pkg/mailer\<close>, \<open>pkg/sms\<close>, \<open>pkg/auditsink\<close>, \<open>internal/outbox\<close>,
    \<open>internal/domain/provisioning\<close>, \<open>pkg/safehttp\<close>, \<open>pkg/geoip\<close>, \<open>internal/domain/upload\<close>): network and file
    access.
  \<^item> The browser front end under \<open>web\<close> and the SQL migrations: other languages, of which the schema is used
    where the model states a key or a constraint.
\<close>

end
